(* ===== verification/GoBase.thy ===== *)
theory GoBase
  imports Main "HOL-Library.Word" "HOL-Library.List_Lexorder" "HOL-Library.Char_ord"
    "HOL-Library.Sublist" "HOL-Library.AList" "HOL-Library.Multiset"
begin

text \<open>
  The prelude. It fixes how a Go function is written down in this development and collects the
  generic facts every component uses:
  \<^item> a Go string or byte slice: \<open>string\<close> is a list of 8-bit characters, as Go's strings are
    byte strings; a \<open>[]byte\<close> is a list of \<open>8 word\<close>;
  \<^item> \<open>(T, error)\<close> results, \<open>log.Fatal\<close> and run-time panics: the three faults below;
  \<^item> code with effects: a function from the state to a result and the new state (type \<open>go\<close>),
    sequenced by \<open>go_try\<close>, which is the idiom \<open>if err != nil { return err }\<close>;
  \<^item> \<open>for range\<close> loops that leave on the first error: \<open>each\<close> (no result) and
    \<open>collect\<close> (one result per round).
\<close>

named_theorems go_simps "unfolding rules of the operations of the model"
named_theorems go_frame "what an operation leaves unchanged"

subsection \<open>Faults and results\<close>

datatype errno = ENOENT | ENOTDIR | EISDIR | EEXIST | EACCES | EINVAL

text \<open>
  A Go \<open>error\<close> value: an \<open>os.PathError\<close> with its \<open>errno\<close>, or an error made by
  \<open>errors.New\<close> or \<open>fmt.Errorf\<close>, by its message.
\<close>

datatype goerr = PathErr errno string | ErrMsg string

text \<open>
  \<open>Err\<close> is a returned error value, which the caller may handle; \<open>Fatal\<close> is
  \<open>log.Fatal\<close>, which ends the process; \<open>Panic\<close> is a run-time panic.
\<close>

datatype fault = Err goerr | Fatal string | Panic string

type_synonym 'a res = "fault + 'a"
type_synonym bytes = "8 word list"
type_synonym ('s, 'a) go = "'s \<Rightarrow> 'a res \<times> 's"

definition is_ok :: "'a res \<Rightarrow> bool" where
  "is_ok r = (case r of Inl _ \<Rightarrow> False | Inr _ \<Rightarrow> True)"

lemma is_ok_simps [simp]: "is_ok (Inr x)" "\<not> is_ok (Inl e)"
  by (simp_all add: is_ok_def)

lemma is_ok_iff: "is_ok r \<longleftrightarrow> (\<exists>x. r = Inr x)"
  by (auto simp: is_ok_def split: sum.splits)

definition go_ret :: "'a \<Rightarrow> ('s, 'a) go" where
  "go_ret x s = (Inr x, s)"

definition pure :: "'a res \<Rightarrow> ('s, 'a) go" where
  "pure r s = (r, s)"

definition go_fail :: "fault \<Rightarrow> ('s, 'a) go" where
  "go_fail e s = (Inl e, s)"

definition go_try :: "('s, 'a) go \<Rightarrow> ('a \<Rightarrow> ('s, 'b) go) \<Rightarrow> ('s, 'b) go" where
  "go_try m f s = (case m s of (Inl e, s') \<Rightarrow> (Inl e, s') | (Inr x, s') \<Rightarrow> f x s')"

definition go_then :: "('s, unit) go \<Rightarrow> ('s, 'b) go \<Rightarrow> ('s, 'b) go" where
  "go_then m k = go_try m (\<lambda>_. k)"

text \<open>\<open>if err != nil { ... }\<close> where the caller handles the error value itself.\<close>

definition go_catch :: "('s, 'a) go \<Rightarrow> (goerr \<Rightarrow> ('s, 'a) go) \<Rightarrow> ('s, 'a) go" where
  "go_catch m h s = (case m s of (Inl (Err e), s') \<Rightarrow> h e s' | (r, s') \<Rightarrow> (r, s'))"

text \<open>\<open>if err != nil { log.Fatal(err) }\<close>.\<close>

definition or_fatal :: "'a res \<Rightarrow> 'a res" where
  "or_fatal r = (case r of Inl (Err _) \<Rightarrow> Inl (Fatal ''log.Fatal'') | _ \<Rightarrow> r)"

definition go_fatal :: "('s, 'a) go \<Rightarrow> ('s, 'a) go" where
  "go_fatal m s = (case m s of (r, s') \<Rightarrow> (or_fatal r, s'))"

lemma go_ret_app [simp]: "go_ret x s = (Inr x, s)"
  by (simp add: go_ret_def)

lemma go_fail_app [simp]: "go_fail e s = (Inl e, s)"
  by (simp add: go_fail_def)

lemma or_fatal_simps [simp]:
  "or_fatal (Inr x) = Inr x"
  "or_fatal (Inl (Err e)) = Inl (Fatal ''log.Fatal'')"
  "or_fatal (Inl (Fatal m)) = Inl (Fatal m)"
  "or_fatal (Inl (Panic m)) = Inl (Panic m)"
  by (simp_all add: or_fatal_def)

lemma or_fatal_Inr_iff [simp]: "or_fatal r = Inr x \<longleftrightarrow> r = Inr x"
  by (auto simp: or_fatal_def split: sum.splits fault.splits)

lemma go_try_Inr [simp]: "m s = (Inr x, s') \<Longrightarrow> go_try m f s = f x s'"
  by (simp add: go_try_def)

lemma go_try_Inl [simp]: "m s = (Inl e, s') \<Longrightarrow> go_try m f s = (Inl e, s')"
  by (simp add: go_try_def)

lemma go_then_Inr [simp]: "m s = (Inr x, s') \<Longrightarrow> go_then m k s = k s'"
  by (simp add: go_then_def)

lemma go_then_Inl [simp]: "m s = (Inl e, s') \<Longrightarrow> go_then m k s = (Inl e, s')"
  by (simp add: go_then_def)

lemma go_fatal_Inr [simp]: "m s = (Inr x, s') \<Longrightarrow> go_fatal m s = (Inr x, s')"
  by (simp add: go_fatal_def)

lemma go_fatal_Err [simp]:
  "m s = (Inl (Err e), s') \<Longrightarrow> go_fatal m s = (Inl (Fatal ''log.Fatal''), s')"
  by (simp add: go_fatal_def)

lemma go_try_ok_iff:
  "go_try m f s = (Inr y, t) \<longleftrightarrow> (\<exists>x s'. m s = (Inr x, s') \<and> f x s' = (Inr y, t))"
  by (auto simp: go_try_def split: prod.splits sum.splits)

lemma go_then_ok_iff:
  "go_then m k s = (Inr y, t) \<longleftrightarrow> (\<exists>s'. m s = (Inr (), s') \<and> k s' = (Inr y, t))"
  by (auto simp: go_then_def go_try_ok_iff)

lemma go_fatal_ok_iff: "go_fatal m s = (Inr x, t) \<longleftrightarrow> m s = (Inr x, t)"
  by (auto simp: go_fatal_def split: prod.splits)

lemma go_then_ret [simp]: "go_then m (go_ret ()) = m"
  by (auto simp: fun_eq_iff go_then_def go_try_def split: prod.split sum.split)

subsection \<open>Loops that leave on the first error\<close>

primrec each :: "('x \<Rightarrow> ('s, unit) go) \<Rightarrow> 'x list \<Rightarrow> ('s, unit) go" where
  "each f [] = go_ret ()"
| "each f (x # xs) = go_then (f x) (each f xs)"

primrec collect :: "('x \<Rightarrow> ('s, 'a) go) \<Rightarrow> 'x list \<Rightarrow> ('s, 'a list) go" where
  "collect f [] = go_ret []"
| "collect f (x # xs) = go_try (f x) (\<lambda>y. go_try (collect f xs) (\<lambda>ys. go_ret (y # ys)))"

text \<open>An assertion every round keeps holds after the loop, whether it ended early or not.\<close>

lemma each_invariant:
  assumes "I s" and "\<And>x s. x \<in> set xs \<Longrightarrow> I s \<Longrightarrow> I (snd (f x s))"
  shows "I (snd (each f xs s))"
  using assms
proof (induction xs arbitrary: s)
  case Nil
  then show ?case by simp
next
  case (Cons x xs)
  obtain r s' where fx: "f x s = (r, s')" by (cases "f x s")
  have s': "I s'" using Cons.prems(1) Cons.prems(2)[of x s] fx by simp
  show ?case
  proof (cases r)
    case (Inl e)
    then show ?thesis using fx s' by simp
  next
    case (Inr u)
    then show ?thesis using fx s' Cons.IH[OF s'] Cons.prems(2) by simp
  qed
qed

lemma each_append:
  "each f (xs @ ys) = go_then (each f xs) (each f ys)"
  by (induction xs) (auto simp: fun_eq_iff go_then_def go_try_def split: prod.splits sum.splits)

text \<open>If every round succeeds, the loop succeeds, and its effect is the fold of the rounds.\<close>

lemma each_ok:
  assumes "I s" and "\<And>x s. x \<in> set xs \<Longrightarrow> I s \<Longrightarrow> f x s = (Inr (), g x s) \<and> I (g x s)"
  shows "each f xs s = (Inr (), fold g xs s) \<and> I (fold g xs s)"
  using assms
proof (induction xs arbitrary: s)
  case Nil
  then show ?case by simp
next
  case (Cons x xs)
  have fx: "f x s = (Inr (), g x s)" "I (g x s)" using Cons.prems by auto
  have "each f xs (g x s) = (Inr (), fold g xs (g x s)) \<and> I (fold g xs (g x s))"
    using fx(2) Cons.prems(2) by (intro Cons.IH) auto
  then show ?case using fx by simp
qed

text \<open>The loop stops at the first round that fails: the rounds after it have no effect.\<close>

lemma each_first_error:
  "each f xs s = (Inr (), s') \<Longrightarrow> f x s' = (Inl e, t) \<Longrightarrow> each f (xs @ x # ys) s = (Inl e, t)"
  by (simp add: each_append)

lemma collect_pure:
  assumes "\<And>x. x \<in> set xs \<Longrightarrow> f x s = (Inr (g x), s)"
  shows "collect f xs s = (Inr (map g xs), s)"
  using assms by (induction xs) auto

subsection \<open>What a piece of code does to the state, whatever its result\<close>

text \<open>
  \<open>within R m\<close>: every run of \<open>m\<close> takes the state to one it is related to. For a preorder
  \<open>R\<close> the rules below give it for whole functions from their steps, error paths included.
\<close>

definition within :: "('s \<Rightarrow> 's \<Rightarrow> bool) \<Rightarrow> ('s, 'a) go \<Rightarrow> bool" where
  "within R m \<longleftrightarrow> (\<forall>s. R s (snd (m s)))"

lemma withinD: "within R m \<Longrightarrow> m s = (r, s') \<Longrightarrow> R s s'"
  by (auto simp: within_def dest: spec[of _ s])

lemma within_mono: "within R m \<Longrightarrow> (\<And>s t. R s t \<Longrightarrow> Q s t) \<Longrightarrow> within Q m"
  by (simp add: within_def)

lemma within_ret: "reflp R \<Longrightarrow> within R (go_ret x)"
  by (auto simp: within_def dest: reflpD)

lemma within_fail: "reflp R \<Longrightarrow> within R (go_fail e)"
  by (auto simp: within_def dest: reflpD)

lemma within_try:
  "transp R \<Longrightarrow> within R m \<Longrightarrow> (\<And>x. within R (f x)) \<Longrightarrow> within R (go_try m f)"
  by (auto simp: within_def go_try_def split: prod.splits sum.splits dest: transpD)
    (metis snd_conv transpD)+

lemma within_then: "transp R \<Longrightarrow> within R m \<Longrightarrow> within R k \<Longrightarrow> within R (go_then m k)"
  by (simp add: go_then_def within_try)

lemma within_catch:
  "transp R \<Longrightarrow> within R m \<Longrightarrow> (\<And>e. within R (h e)) \<Longrightarrow> within R (go_catch m h)"
  by (auto simp: within_def go_catch_def split: prod.splits sum.splits fault.splits)
    (metis snd_conv transpD)+

lemma within_fatal: "within R m \<Longrightarrow> within R (go_fatal m)"
  by (auto simp: within_def go_fatal_def split: prod.splits) (metis snd_conv)

lemma within_each:
  "reflp R \<Longrightarrow> transp R \<Longrightarrow> (\<And>x. x \<in> set xs \<Longrightarrow> within R (f x)) \<Longrightarrow> within R (each f xs)"
  by (induction xs) (auto intro: within_ret within_then)

lemma within_collect:
  "reflp R \<Longrightarrow> transp R \<Longrightarrow> (\<And>x. x \<in> set xs \<Longrightarrow> within R (f x)) \<Longrightarrow> within R (collect f xs)"
  by (induction xs) (auto intro!: within_ret within_try)

text \<open>Code that only reads the state.\<close>

abbreviation reads :: "('s, 'a) go \<Rightarrow> bool" where
  "reads m \<equiv> within (=) m"

lemma eq_preorder [simp]: "reflp (=)" "transp (=)"
  by (auto intro: reflpI transpI)

lemma reads_state: "reads m \<Longrightarrow> snd (m s) = s"
  by (simp add: within_def)

lemmas within_rules = within_ret within_fail within_try within_then within_catch within_fatal
  within_each within_collect

subsection \<open>Code that fails with an error value only\<close>

text \<open>No run of \<open>m\<close> panics or ends the process.\<close>

definition errs :: "('s, 'a) go \<Rightarrow> bool" where
  "errs m \<longleftrightarrow> (\<forall>s e s'. m s = (Inl e, s') \<longrightarrow> (\<exists>g. e = Err g))"

lemma errsD: "errs m \<Longrightarrow> m s = (Inl e, s') \<Longrightarrow> \<exists>g. e = Err g"
  unfolding errs_def by blast

lemma errs_ret: "errs (go_ret x)"
  by (simp add: errs_def)

lemma errs_try: "errs m \<Longrightarrow> (\<And>x. errs (f x)) \<Longrightarrow> errs (go_try m f)"
  by (auto simp: errs_def go_try_def split: prod.splits sum.splits)

lemma errs_then: "errs m \<Longrightarrow> errs k \<Longrightarrow> errs (go_then m k)"
  by (simp add: go_then_def errs_try)

lemma errs_each: "(\<And>x. x \<in> set xs \<Longrightarrow> errs (f x)) \<Longrightarrow> errs (each f xs)"
  by (induction xs) (auto intro: errs_ret errs_then)

lemma errs_collect: "(\<And>x. x \<in> set xs \<Longrightarrow> errs (f x)) \<Longrightarrow> errs (collect f xs)"
  by (induction xs) (auto intro!: errs_ret errs_try)

lemmas errs_rules = errs_ret errs_try errs_then errs_each errs_collect

subsection \<open>Strings, bytes and lists\<close>

definition string_of_bytes :: "bytes \<Rightarrow> string" where
  "string_of_bytes bs = map (\<lambda>b. char_of (unat b)) bs"

definition bytes_of_string :: "string \<Rightarrow> bytes" where
  "bytes_of_string s = map (\<lambda>c. of_nat (of_char c)) s"

lemma bytes_of_string_inverse [simp]: "string_of_bytes (bytes_of_string s) = s"
proof -
  have "char_of (unat (of_nat (of_char c) :: 8 word)) = c" for c
  proof -
    have "unat (of_nat (of_char c) :: 8 word) = of_char c mod 256"
      by (simp add: unat_of_nat)
    then show ?thesis by simp
  qed
  then show ?thesis by (simp add: string_of_bytes_def bytes_of_string_def comp_def)
qed

lemma string_of_bytes_inverse [simp]: "bytes_of_string (string_of_bytes bs) = bs"
proof -
  have "of_nat (of_char (char_of (unat b) :: char)) = b" for b :: "8 word"
  proof -
    have "unat b < 256" using unsigned_less[of b, where ?'a = nat] by simp
    then show ?thesis by simp
  qed
  then show ?thesis by (simp add: string_of_bytes_def bytes_of_string_def comp_def)
qed

lemma map_of_AList_update [simp]: "map_of (AList.update k v al) = (map_of al)(k \<mapsto> v)"
  by (rule update_conv')

end
