(* ===== verification/GoPath.thy ===== *)
theory GoPath
  imports GoBase
begin

text \<open>
  The part of Go's \<open>strings\<close> and \<open>path/filepath\<close> packages (Unix, Go 1.18) the sources use:
  splitting and joining strings, \<open>Clean\<close>, \<open>Join\<close>, \<open>Base\<close>, \<open>Dir\<close>, \<open>Split\<close>, \<open>Rel\<close> and
  \<open>Abs\<close>, and the path lookup the operating system does.
  A path is cleaned lexically over its list of components, which is how \<open>Clean\<close> is specified.
  The lemmas move between path strings and component lists for paths built from valid names.
\<close>

abbreviation slash :: char where "slash \<equiv> CHR ''/''"

subsection \<open>Splitting and joining\<close>

text \<open>\<open>strings.Split(s, sep)\<close> for a separator of one byte.\<close>

fun split_on :: "char \<Rightarrow> string \<Rightarrow> string list" where
  "split_on c [] = [[]]"
| "split_on c (x # xs) =
     (if x = c then [] # split_on c xs
      else (x # hd (split_on c xs)) # tl (split_on c xs))"

text \<open>\<open>strings.Join(ws, sep)\<close>.\<close>

fun join_with :: "char \<Rightarrow> string list \<Rightarrow> string" where
  "join_with c [] = []"
| "join_with c [w] = w"
| "join_with c (w # ws) = w @ c # join_with c ws"

lemma split_on_nonempty [simp]: "split_on c s \<noteq> []"
  by (cases s) auto

lemma join_with_Cons: "ws \<noteq> [] \<Longrightarrow> join_with c (w # ws) = w @ c # join_with c ws"
  by (cases ws) auto

lemma split_on_append [simp]: "split_on c (a @ c # b) = split_on c a @ split_on c b"
  by (induction a) auto

lemma split_on_none [simp]: "c \<notin> set w \<Longrightarrow> split_on c w = [w]"
  by (induction w) auto

lemma join_with_Cons_char: "join_with c ((x # a) # ws) = x # join_with c (a # ws)"
  by (cases ws) auto

lemma split_on_join: "ws \<noteq> [] \<Longrightarrow> split_on c (join_with c ws) = concat (map (split_on c) ws)"
  by (induction c ws rule: join_with.induct) auto

lemma concat_split_on_valid: "\<forall>w\<in>set ws. c \<notin> set w \<Longrightarrow> concat (map (split_on c) ws) = ws"
  by (induction ws) auto

lemma join_split_on: "join_with c (split_on c s) = s"
proof (induction s)
  case Nil
  then show ?case by simp
next
  case (Cons x xs)
  then show ?case
    by (cases "split_on c xs") (auto simp: join_with_Cons join_with_Cons_char)
qed

lemma split_on_no_sep: "w \<in> set (split_on c s) \<Longrightarrow> c \<notin> set w"
proof (induction s arbitrary: w)
  case Nil
  then show ?case by simp
next
  case (Cons x xs)
  then show ?case
    by (cases "split_on c xs") (auto split: if_splits)
qed

lemma set_join_with: "set (join_with c ws) \<subseteq> insert c (\<Union> (set ` set ws))"
  by (induction c ws rule: join_with.induct) auto

subsection \<open>The filepath package\<close>

definition is_abs :: "string \<Rightarrow> bool" where
  "is_abs s = (case s of [] \<Rightarrow> False | c # _ \<Rightarrow> c = slash)"

text \<open>One component read, with the stack of components kept so far (the last one first).\<close>

definition clean_step :: "bool \<Rightarrow> string list \<Rightarrow> string \<Rightarrow> string list" where
  "clean_step rooted st c =
     (if c = [] \<or> c = ''.'' then st
      else if c = ''..'' then
        (case st of
           [] \<Rightarrow> if rooted then [] else [c]
         | t # ts \<Rightarrow> if t = ''..'' then (if rooted then st else c # st) else ts)
      else c # st)"

definition clean_comps :: "bool \<Rightarrow> string list \<Rightarrow> string list" where
  "clean_comps rooted cs = rev (foldl (clean_step rooted) [] cs)"

definition unparse :: "bool \<Rightarrow> string list \<Rightarrow> string" where
  "unparse rooted cs =
     (if rooted then slash # join_with slash cs
      else if cs = [] then ''.'' else join_with slash cs)"

definition path_clean :: "string \<Rightarrow> string" where
  "path_clean s = unparse (is_abs s) (clean_comps (is_abs s) (split_on slash s))"

definition path_join :: "string list \<Rightarrow> string" where
  "path_join elems =
     (case dropWhile (\<lambda>e. e = []) elems of
        [] \<Rightarrow> []
      | es \<Rightarrow> path_clean (join_with slash es))"

definition path_base :: "string \<Rightarrow> string" where
  "path_base s =
     (if s = [] then ''.''
      else let t = rev (dropWhile (\<lambda>c. c = slash) (rev s))
           in if t = [] then [slash] else last (split_on slash t))"

text \<open>Everything up to and including the last slash, and what follows it.\<close>

definition path_split :: "string \<Rightarrow> string \<times> string" where
  "path_split s =
     (rev (dropWhile (\<lambda>c. c \<noteq> slash) (rev s)), rev (takeWhile (\<lambda>c. c \<noteq> slash) (rev s)))"

definition path_dir :: "string \<Rightarrow> string" where
  "path_dir s = path_clean (fst (path_split s))"

definition path_abs :: "string \<Rightarrow> string \<Rightarrow> string" where
  "path_abs cwd s = (if is_abs s then path_clean s else path_join [cwd, s])"

fun strip_common :: "string list \<Rightarrow> string list \<Rightarrow> string list \<times> string list" where
  "strip_common (b # bs) (t # ts) = (if b = t then strip_common bs ts else (b # bs, t # ts))"
| "strip_common bs ts = (bs, ts)"

text \<open>The elements of a cleaned path, as \<open>Rel\<close> walks over them.\<close>

definition rel_elems :: "string \<Rightarrow> string list" where
  "rel_elems s = (if s = [] \<or> s = [slash] then [] else split_on slash (if is_abs s then tl s else s))"

definition path_rel :: "string \<Rightarrow> string \<Rightarrow> string res" where
  "path_rel base targ =
     (let b = path_clean base; t = path_clean targ; b' = (if b = ''.'' then [] else b)
      in if t = b then Inr ''.''
         else if is_abs b' \<noteq> is_abs t
           then Inl (Err (ErrMsg (''Rel: can't make '' @ targ @ '' relative to '' @ base)))
         else case strip_common (rel_elems b') (rel_elems t) of (bs, ts) \<Rightarrow>
           (if bs \<noteq> [] \<and> ts \<noteq> [] \<and> hd bs = ''..''
              then Inl (Err (ErrMsg (''Rel: can't make '' @ targ @ '' relative to '' @ base)))
            else Inr (join_with slash (map (\<lambda>_. ''..'') bs @ ts))))"

text \<open>Where the operating system looks a path string up: from the root or from the cwd.\<close>

definition path_resolve :: "string list \<Rightarrow> string \<Rightarrow> string list" where
  "path_resolve cwd s =
     rev (foldl (clean_step True) (if is_abs s then [] else rev cwd) (split_on slash s))"

subsection \<open>Paths made of valid names\<close>

text \<open>A name a directory entry can have.\<close>

definition valid_name :: "string \<Rightarrow> bool" where
  "valid_name n \<longleftrightarrow> n \<noteq> [] \<and> n \<noteq> ''.'' \<and> n \<noteq> ''..'' \<and> slash \<notin> set n \<and> CHR 0x00 \<notin> set n"

abbreviation valid_names :: "string list \<Rightarrow> bool" where
  "valid_names ns \<equiv> list_all valid_name ns"

text \<open>The absolute, cleaned path with the given components.\<close>

abbreviation abs_of :: "string list \<Rightarrow> string" where
  "abs_of cs \<equiv> unparse True cs"

lemma clean_step_valid [simp]: "valid_name c \<Longrightarrow> clean_step r st c = c # st"
  by (simp add: clean_step_def valid_name_def)

lemma clean_step_empty [simp]: "clean_step r st [] = st"
  by (simp add: clean_step_def)

lemma foldl_clean_valid: "valid_names cs \<Longrightarrow> foldl (clean_step r) st cs = rev cs @ st"
  by (induction cs arbitrary: st) auto

lemma clean_comps_valid [simp]: "valid_names cs \<Longrightarrow> clean_comps r cs = cs"
  by (simp add: clean_comps_def foldl_clean_valid)

lemma clean_comps_Nil_Cons [simp]: "clean_comps r ([] # cs) = clean_comps r cs"
  by (simp add: clean_comps_def)

lemma valid_names_no_slash: "valid_names cs \<Longrightarrow> \<forall>w\<in>set cs. slash \<notin> set w"
  by (auto simp: list_all_iff valid_name_def)

lemma is_abs_unparse [simp]: "is_abs (abs_of cs)"
  by (simp add: is_abs_def unparse_def)

lemma abs_of_not_empty [simp]: "abs_of cs \<noteq> []"
  by (simp add: unparse_def)

lemma split_abs_of: "valid_names cs \<Longrightarrow> split_on slash (abs_of cs) = [] # (if cs = [] then [[]] else cs)"
  by (auto simp: unparse_def split_on_join concat_split_on_valid valid_names_no_slash)

lemma foldl_clean_split_abs_of:
  "valid_names cs \<Longrightarrow> foldl (clean_step r) st (split_on slash (abs_of cs)) = rev cs @ st"
  by (simp add: split_abs_of foldl_clean_valid)

lemma path_clean_abs_of [simp]: "valid_names cs \<Longrightarrow> path_clean (abs_of cs) = abs_of cs"
  by (simp add: path_clean_def clean_comps_def foldl_clean_split_abs_of)

lemma path_resolve_abs_of [simp]: "valid_names cs \<Longrightarrow> path_resolve cwd (abs_of cs) = cs"
  by (simp add: path_resolve_def foldl_clean_split_abs_of)

lemma path_join_abs_of [simp]:
  assumes "valid_names cs" and "valid_names ns"
  shows "path_join (abs_of cs # ns) = abs_of (cs @ ns)"
proof -
  have sp: "split_on slash (join_with slash (abs_of cs # ns)) = split_on slash (abs_of cs) @ ns"
    using assms(2) by (simp add: split_on_join concat_split_on_valid valid_names_no_slash)
  have ab: "is_abs (join_with slash (abs_of cs # ns))"
    by (cases ns) (simp_all add: unparse_def is_abs_def)
  show ?thesis
    using assms ab
    by (simp add: path_join_def path_clean_def sp clean_comps_def foldl_clean_split_abs_of
        foldl_clean_valid)
qed

lemma path_abs_abs_of [simp]: "valid_names cs \<Longrightarrow> path_abs cwd (abs_of cs) = abs_of cs"
  by (simp add: path_abs_def)

lemma unparse_snoc: "cs \<noteq> [] \<Longrightarrow> join_with slash (cs @ [n]) = join_with slash cs @ slash # n"
  by (induction cs rule: join_with.induct) auto

lemma abs_of_snoc: "abs_of (cs @ [n]) = (if cs = [] then [slash] else abs_of cs @ [slash]) @ n"
  by (simp add: unparse_def unparse_snoc)

lemma path_split_snoc:
  assumes "valid_name n"
  shows "path_split (abs_of (cs @ [n])) = (if cs = [] then [slash] else abs_of cs @ [slash], n)"
proof -
  have n: "\<forall>c\<in>set (rev n). c \<noteq> slash" using assms by (auto simp: valid_name_def)
  then show ?thesis
    by (simp add: path_split_def abs_of_snoc dropWhile_append takeWhile_append)
qed

lemma is_abs_append [simp]: "is_abs (abs_of cs @ s)"
  by (simp add: is_abs_def unparse_def)

lemma path_clean_abs_of_slash:
  "valid_names cs \<Longrightarrow> path_clean (abs_of cs @ [slash]) = abs_of cs"
  by (simp add: path_clean_def clean_comps_def foldl_clean_split_abs_of)

lemma path_clean_slash [simp]: "path_clean [slash] = abs_of []"
  by (simp add: path_clean_def clean_comps_def is_abs_def)

lemma path_dir_snoc [simp]:
  assumes "valid_names cs" and "valid_name n"
  shows "path_dir (abs_of (cs @ [n])) = abs_of cs"
  using assms by (simp add: path_dir_def path_split_snoc path_clean_abs_of_slash)

lemma dropWhile_no_slash: "slash \<notin> set n \<Longrightarrow> dropWhile (\<lambda>c. c = slash) (rev n) = rev n"
  by (cases n rule: rev_cases) auto

lemma path_base_no_slash: "n \<noteq> [] \<Longrightarrow> slash \<notin> set n \<Longrightarrow> path_base n = n"
  by (simp add: path_base_def dropWhile_no_slash)

lemma path_base_valid [simp]: "valid_name n \<Longrightarrow> path_base n = n"
  by (simp add: path_base_no_slash valid_name_def)

text \<open>The names that \<open>Base\<close> maps to themselves.\<close>

lemma path_base_fixed_iff: "path_base n = n \<longleftrightarrow> n = [slash] \<or> (n \<noteq> [] \<and> slash \<notin> set n)"
proof
  assume b: "path_base n = n"
  define t where "t = rev (dropWhile (\<lambda>c. c = slash) (rev n))"
  show "n = [slash] \<or> (n \<noteq> [] \<and> slash \<notin> set n)"
  proof (cases "n = [] \<or> t = []")
    case True
    with b show ?thesis by (auto simp: path_base_def t_def [symmetric] split: if_splits)
  next
    case False
    with b have "last (split_on slash t) = n" by (simp add: path_base_def t_def [symmetric])
    moreover have "last (split_on slash t) \<in> set (split_on slash t)" by simp
    ultimately have "slash \<notin> set n" using split_on_no_sep by metis
    with False show ?thesis by auto
  qed
next
  assume "n = [slash] \<or> (n \<noteq> [] \<and> slash \<notin> set n)"
  then show "path_base n = n"
    by (auto simp: path_base_no_slash) (simp add: path_base_def)
qed

lemma strip_common_append [simp]: "strip_common bs (bs @ ts) = ([], ts)"
  by (induction bs) auto

lemma split_join_valid: "valid_names cs \<Longrightarrow> cs \<noteq> [] \<Longrightarrow> split_on slash (join_with slash cs) = cs"
  by (simp add: split_on_join concat_split_on_valid valid_names_no_slash)

lemma join_valid_nonempty: "valid_names cs \<Longrightarrow> join_with slash cs = [] \<longleftrightarrow> cs = []"
  by (cases "(slash, cs)" rule: join_with.cases) (auto simp: valid_name_def)

lemma rel_elems_abs_of: "valid_names cs \<Longrightarrow> rel_elems (abs_of cs) = cs"
  by (simp add: rel_elems_def is_abs_def unparse_def join_valid_nonempty split_join_valid)

lemma unparse_inj:
  assumes "valid_names cs" and "valid_names ds" and "abs_of cs = abs_of ds"
  shows "cs = ds"
  by (metis assms rel_elems_abs_of)

lemma path_rel_abs_of:
  assumes "valid_names bs" and "valid_names ts" and "ts \<noteq> []"
  shows "path_rel (abs_of bs) (abs_of (bs @ ts)) = Inr (join_with slash ts)"
proof -
  have "abs_of (bs @ ts) \<noteq> abs_of bs"
    using assms unparse_inj[of "bs @ ts" bs] by auto
  moreover have "abs_of bs \<noteq> ''.''" by (simp add: unparse_def)
  ultimately show ?thesis
    using assms by (simp add: path_rel_def Let_def rel_elems_abs_of)
qed

end
