(* ===== verification/GoFS.thy ===== *)
theory GoFS
  imports GoPath
begin

text \<open>
  The file system as the sources see it through \<open>os\<close> and \<open>io/ioutil\<close>: a tree of directories
  and files, keyed by the components of their absolute paths, the process's working directory,
  and the objects it has no permission on. Every call the sources make is here with the
  \<open>errno\<close> it fails with: \<open>Stat\<close>, \<open>MkdirAll\<close>, \<open>Mkdir\<close>, \<open>OpenFile\<close>/\<open>Create\<close>,
  \<open>File.Write\<close>, \<open>Open\<close>, \<open>io.Copy\<close>, \<open>ReadFile\<close>, \<open>ReadDir\<close>. Symbolic links, special files, device errors and full disks are not
  modelled. The lemmas describe each call by its effect on \<open>fs_lookup\<close>.
\<close>

datatype node = Dir | File bytes

type_synonym path = "string list"

record fs =
  fs_cwd :: path
  fs_tree :: "(path \<times> node) list"
  fs_denied :: "path list"

definition fs_lookup :: "fs \<Rightarrow> path \<Rightarrow> node option" where
  "fs_lookup fs p = (if p = [] then Some Dir else map_of (fs_tree fs) p)"

definition fs_put :: "path \<Rightarrow> node \<Rightarrow> fs \<Rightarrow> fs" where
  "fs_put p n fs = fs\<lparr>fs_tree := AList.update p n (fs_tree fs)\<rparr>"

abbreviation fs_is_dir :: "fs \<Rightarrow> path \<Rightarrow> bool" where
  "fs_is_dir fs p \<equiv> fs_lookup fs p = Some Dir"

definition fs_is_file :: "fs \<Rightarrow> path \<Rightarrow> bool" where
  "fs_is_file fs p = (case fs_lookup fs p of Some (File _) \<Rightarrow> True | _ \<Rightarrow> False)"

text \<open>An object is out of reach when it or a directory above it is denied.\<close>

definition fs_denies :: "fs \<Rightarrow> path \<Rightarrow> bool" where
  "fs_denies fs p = list_ex (\<lambda>d. prefix d p) (fs_denied fs)"

definition path_fault :: "fs \<Rightarrow> path \<Rightarrow> errno option" where
  "path_fault fs p =
     (if list_ex (\<lambda>c. CHR 0x00 \<in> set c) p then Some EINVAL
      else if fs_denies fs p then Some EACCES else None)"

text \<open>Why the lookup of an absent path fails.\<close>

definition missing_errno :: "fs \<Rightarrow> path \<Rightarrow> errno" where
  "missing_errno fs p = (if list_ex (fs_is_file fs) (prefixes p) then ENOTDIR else ENOENT)"

definition sys_path :: "fs \<Rightarrow> string \<Rightarrow> path res" where
  "sys_path fs s =
     (if s = [] then Inl (Err (PathErr ENOENT s))
      else let p = path_resolve (fs_cwd fs) s
           in case path_fault fs p of
                Some e \<Rightarrow> Inl (Err (PathErr e s))
              | None \<Rightarrow> Inr p)"

definition fs_stat :: "fs \<Rightarrow> string \<Rightarrow> node res" where
  "fs_stat fs s =
     (case sys_path fs s of
        Inl e \<Rightarrow> Inl e
      | Inr p \<Rightarrow> (case fs_lookup fs p of
          None \<Rightarrow> Inl (Err (PathErr (missing_errno fs p) s))
        | Some n \<Rightarrow> Inr n))"

text \<open>\<open>os.IsNotExist(err)\<close>.\<close>

definition is_not_exist :: "goerr \<Rightarrow> bool" where
  "is_not_exist e = (case e of PathErr n _ \<Rightarrow> n = ENOENT | ErrMsg _ \<Rightarrow> False)"

definition os_stat :: "string \<Rightarrow> (fs, node) go" where
  "os_stat s fs = (fs_stat fs s, fs)"

text \<open>\<open>os.MkdirAll\<close>: each missing directory on the way is made, from the top.\<close>

definition mkdir_one :: "string \<Rightarrow> path \<Rightarrow> (fs, unit) go" where
  "mkdir_one s q fs =
     (case path_fault fs q of
        Some e \<Rightarrow> (Inl (Err (PathErr e s)), fs)
      | None \<Rightarrow> (case fs_lookup fs q of
          Some Dir \<Rightarrow> (Inr (), fs)
        | Some (File _) \<Rightarrow> (Inl (Err (PathErr ENOTDIR s)), fs)
        | None \<Rightarrow> (Inr (), fs_put q Dir fs)))"

definition os_mkdir_all :: "string \<Rightarrow> (fs, unit) go" where
  "os_mkdir_all s fs =
     (if s = [] then (Inl (Err (PathErr ENOENT s)), fs)
      else each (mkdir_one s) (tl (prefixes (path_resolve (fs_cwd fs) s))) fs)"

text \<open>
  \<open>os.OpenFile(s, O_WRONLY|O_CREATE, ...)\<close>, and with \<open>trunc\<close> \<open>os.Create(s)\<close>. The result is
  the file handle: the path of the open file, at offset 0.
\<close>

definition os_open_file :: "bool \<Rightarrow> string \<Rightarrow> (fs, path) go" where
  "os_open_file trunc s fs =
     (case sys_path fs s of
        Inl e \<Rightarrow> (Inl e, fs)
      | Inr p \<Rightarrow> (case fs_lookup fs p of
          Some Dir \<Rightarrow> (Inl (Err (PathErr EISDIR s)), fs)
        | Some (File b) \<Rightarrow> (Inr p, if trunc then fs_put p (File []) fs else fs)
        | None \<Rightarrow> (if fs_is_dir fs (butlast p) then (Inr p, fs_put p (File []) fs)
                   else (Inl (Err (PathErr (missing_errno fs p) s)), fs))))"

text \<open>A write at offset 0 replaces as many bytes as it writes and keeps what lies behind them.\<close>

definition overlay :: "bytes \<Rightarrow> bytes \<Rightarrow> bytes" where
  "overlay new old = new @ drop (length new) old"

definition file_write :: "path \<Rightarrow> bytes \<Rightarrow> (fs, unit) go" where
  "file_write p b fs =
     (case fs_lookup fs p of
        Some (File old) \<Rightarrow> (Inr (), fs_put p (File (overlay b old)) fs)
      | _ \<Rightarrow> (Inl (Err (PathErr EINVAL (abs_of p))), fs))"

text \<open>\<open>os.Open\<close> opens a file or a directory for reading; \<open>io.Copy\<close> reads to the end of the file.\<close>

definition os_open :: "string \<Rightarrow> (fs, path) go" where
  "os_open s fs =
     (case sys_path fs s of
        Inl e \<Rightarrow> (Inl e, fs)
      | Inr p \<Rightarrow> (case fs_lookup fs p of
          None \<Rightarrow> (Inl (Err (PathErr (missing_errno fs p) s)), fs)
        | Some _ \<Rightarrow> (Inr p, fs)))"

definition io_copy :: "path \<Rightarrow> path \<Rightarrow> (fs, unit) go" where
  "io_copy dst src fs =
     (case fs_lookup fs src of
        Some (File b) \<Rightarrow> file_write dst b fs
      | _ \<Rightarrow> (Inl (Err (PathErr EISDIR (abs_of src))), fs))"

text \<open>\<open>os.Mkdir\<close>.\<close>

definition os_mkdir :: "string \<Rightarrow> (fs, unit) go" where
  "os_mkdir s fs =
     (case sys_path fs s of
        Inl e \<Rightarrow> (Inl e, fs)
      | Inr p \<Rightarrow> (case fs_lookup fs p of
          Some _ \<Rightarrow> (Inl (Err (PathErr EEXIST s)), fs)
        | None \<Rightarrow> (if fs_is_dir fs (butlast p) then (Inr (), fs_put p Dir fs)
                   else (Inl (Err (PathErr (missing_errno fs p) s)), fs))))"

definition fs_read_file :: "fs \<Rightarrow> string \<Rightarrow> bytes res" where
  "fs_read_file fs s =
     (case fs_stat fs s of
        Inl e \<Rightarrow> Inl e
      | Inr Dir \<Rightarrow> Inl (Err (PathErr EISDIR s))
      | Inr (File b) \<Rightarrow> Inr b)"

text \<open>The entries of a directory in the order \<open>ioutil.ReadDir\<close> returns them: by name.\<close>

definition fs_entries :: "fs \<Rightarrow> path \<Rightarrow> string list" where
  "fs_entries fs p =
     sort (remdups (map last (filter (\<lambda>q. q \<noteq> [] \<and> butlast q = p) (map fst (fs_tree fs)))))"

definition fs_read_dir :: "fs \<Rightarrow> string \<Rightarrow> (string \<times> node) list res" where
  "fs_read_dir fs s =
     (case sys_path fs s of
        Inl e \<Rightarrow> Inl e
      | Inr p \<Rightarrow> (case fs_lookup fs p of
          None \<Rightarrow> Inl (Err (PathErr (missing_errno fs p) s))
        | Some (File _) \<Rightarrow> Inl (Err (PathErr ENOTDIR s))
        | Some Dir \<Rightarrow> Inr (map (\<lambda>n. (n, the (fs_lookup fs (p @ [n])))) (fs_entries fs p))))"

text \<open>A tree: every entry lies in a directory, and has a name an entry can have.\<close>

definition fs_wf :: "fs \<Rightarrow> bool" where
  "fs_wf fs =
     list_all (\<lambda>q. q = [] \<or> valid_name (last q) \<and> fs_is_dir fs (butlast q)) (map fst (fs_tree fs))"

subsection \<open>Lookup and update\<close>

lemma fs_lookup_Nil [simp]: "fs_lookup fs [] = Some Dir"
  by (simp add: fs_lookup_def)

lemma fs_lookup_put: "fs_lookup (fs_put p n fs) q = (if q = p \<and> p \<noteq> [] then Some n else fs_lookup fs q)"
  by (simp add: fs_lookup_def fs_put_def)

lemma fs_lookup_put_same [simp]: "p \<noteq> [] \<Longrightarrow> fs_lookup (fs_put p n fs) p = Some n"
  by (simp add: fs_lookup_put)

lemma fs_lookup_put_other [simp]: "q \<noteq> p \<Longrightarrow> fs_lookup (fs_put p n fs) q = fs_lookup fs q"
  by (simp add: fs_lookup_put)

lemma fs_put_cwd [simp]: "fs_cwd (fs_put p n fs) = fs_cwd fs"
  by (simp add: fs_put_def)

lemma fs_put_denied [simp]: "fs_denied (fs_put p n fs) = fs_denied fs"
  by (simp add: fs_put_def)

lemma fs_denies_put [simp]: "fs_denies (fs_put p n fs) q = fs_denies fs q"
  by (simp add: fs_denies_def)

lemma path_fault_put [simp]: "path_fault (fs_put p n fs) q = path_fault fs q"
  by (simp add: path_fault_def)

lemma sys_path_put [simp]: "sys_path (fs_put p n fs) s = sys_path fs s"
  by (simp add: sys_path_def)

lemma valid_names_no_nul: "valid_names p \<Longrightarrow> \<not> list_ex (\<lambda>c. CHR 0x00 \<in> set c) p"
  by (induction p) (auto simp: valid_name_def)

lemma path_fault_valid [simp]:
  "valid_names p \<Longrightarrow> path_fault fs p = (if fs_denies fs p then Some EACCES else None)"
  by (simp add: path_fault_def valid_names_no_nul)

lemma sys_path_abs_of:
  "valid_names p \<Longrightarrow> sys_path fs (abs_of p) =
     (if fs_denies fs p then Inl (Err (PathErr EACCES (abs_of p))) else Inr p)"
  by (simp add: sys_path_def)

lemma fs_lookup_snoc_iff: "fs_lookup fs (q @ [n]) \<noteq> None \<longleftrightarrow> q @ [n] \<in> set (map fst (fs_tree fs))"
  by (simp add: fs_lookup_def map_of_eq_None_iff)

lemma fs_wf_iff:
  "fs_wf fs \<longleftrightarrow> (\<forall>q n. fs_lookup fs (q @ [n]) \<noteq> None \<longrightarrow> valid_name n \<and> fs_is_dir fs q)"
  (is "_ \<longleftrightarrow> ?R")
proof
  assume "fs_wf fs"
  then show ?R unfolding fs_lookup_snoc_iff fs_wf_def list_all_iff by fastforce
next
  assume R: ?R
  show "fs_wf fs"
    unfolding fs_wf_def list_all_iff
  proof
    fix q assume "q \<in> set (map fst (fs_tree fs))"
    then show "q = [] \<or> valid_name (last q) \<and> fs_is_dir fs (butlast q)"
      using R fs_lookup_snoc_iff by (cases q rule: rev_cases) auto
  qed
qed

lemma fs_wf_lookup:
  "fs_wf fs \<Longrightarrow> fs_lookup fs (q @ [n]) = Some m \<Longrightarrow> valid_name n \<and> fs_is_dir fs q"
  by (auto simp: fs_wf_iff)

lemma fs_wf_no_child: "fs_wf fs \<Longrightarrow> \<not> fs_is_dir fs p \<Longrightarrow> fs_lookup fs (p @ [n]) = None"
  by (cases "fs_lookup fs (p @ [n])") (auto dest: fs_wf_lookup)

lemma fs_wf_put_old:
  assumes "fs_wf fs" and "fs_lookup fs p = Some (File old)"
  shows "fs_wf (fs_put p (File b) fs)"
  using assms fs_wf_no_child[OF assms(1), of p] unfolding fs_wf_iff
  by (auto simp: fs_lookup_put)

lemma fs_wf_put_new:
  assumes "fs_wf fs" and "fs_is_dir fs q" and "valid_name n" and "fs_lookup fs (q @ [n]) = None"
  shows "fs_wf (fs_put (q @ [n]) m fs)"
  using assms fs_wf_no_child[OF assms(1), of "q @ [n]"] unfolding fs_wf_iff
  by (auto simp: fs_lookup_put)

lemma fs_entries_set: "set (fs_entries fs p) = {n. fs_lookup fs (p @ [n]) \<noteq> None}"
proof -
  have "n \<in> set (fs_entries fs p) \<longleftrightarrow> p @ [n] \<in> set (map fst (fs_tree fs))" for n
  proof
    assume "n \<in> set (fs_entries fs p)"
    then obtain q where "q \<in> set (map fst (fs_tree fs))" "q \<noteq> []" "butlast q = p" "last q = n"
      unfolding fs_entries_def by auto
    then show "p @ [n] \<in> set (map fst (fs_tree fs))"
      using append_butlast_last_id by metis
  next
    assume "p @ [n] \<in> set (map fst (fs_tree fs))"
    then show "n \<in> set (fs_entries fs p)"
      unfolding fs_entries_def set_sort set_remdups set_map set_filter
      by (auto intro!: rev_image_eqI)
  qed
  then show ?thesis by (simp only: fs_lookup_snoc_iff) auto
qed

lemma fs_entries_sorted [simp]: "sorted (fs_entries fs p)" "distinct (fs_entries fs p)"
  by (simp_all add: fs_entries_def)

lemma fs_entries_eqI:
  "sorted ns \<Longrightarrow> distinct ns \<Longrightarrow> (\<And>n. n \<in> set ns \<longleftrightarrow> fs_lookup fs (p @ [n]) \<noteq> None) \<Longrightarrow>
   fs_entries fs p = ns"
  by (intro sorted_distinct_set_unique) (auto simp: fs_entries_set)

text \<open>Two states that agree on lookup below a directory list it alike.\<close>

lemma fs_entries_cong:
  "(\<And>n. fs_lookup fs (p @ [n]) = None \<longleftrightarrow> fs_lookup fs' (p @ [n]) = None) \<Longrightarrow>
   fs_entries fs p = fs_entries fs' p"
  by (intro sorted_distinct_set_unique) (auto simp: fs_entries_set)

subsection \<open>What every call keeps\<close>

text \<open>
  From one state to a later one: directories stay directories, files stay files, the tree stays
  a tree, and the process keeps its working directory and its permissions.
\<close>

definition fs_grows :: "fs \<Rightarrow> fs \<Rightarrow> bool" where
  "fs_grows fs fs' \<longleftrightarrow>
     (\<forall>q. fs_is_dir fs q \<longrightarrow> fs_is_dir fs' q) \<and> (\<forall>q. fs_is_file fs q \<longrightarrow> fs_is_file fs' q) \<and>
     fs_cwd fs' = fs_cwd fs \<and> fs_denied fs' = fs_denied fs \<and>
     (valid_names (fs_cwd fs) \<longrightarrow> fs_wf fs \<longrightarrow> fs_wf fs')"

lemma fs_grows_reflp: "reflp fs_grows"
  by (auto intro: reflpI simp: fs_grows_def)

lemma fs_grows_transp: "transp fs_grows"
  by (rule transpI) (auto simp: fs_grows_def)

lemma fs_is_file_put: "fs_is_file (fs_put p (File b) fs) q \<longleftrightarrow> q = p \<and> p \<noteq> [] \<or> fs_is_file fs q"
  by (auto simp: fs_is_file_def fs_lookup_put)

lemma fs_is_file_put_Dir: "fs_is_file (fs_put p Dir fs) q \<longleftrightarrow> (q \<noteq> p \<or> p = []) \<and> fs_is_file fs q"
  by (auto simp: fs_is_file_def fs_lookup_put)

text \<open>Components of a resolved path are names, unless they hold a NUL byte.\<close>

lemma foldl_clean_names:
  assumes "\<forall>c\<in>set cs. slash \<notin> set c"
    and "\<forall>c\<in>set st. c \<noteq> [] \<and> c \<noteq> ''.'' \<and> c \<noteq> ''..'' \<and> slash \<notin> set c"
  shows "\<forall>c\<in>set (foldl (clean_step True) st cs). c \<noteq> [] \<and> c \<noteq> ''.'' \<and> c \<noteq> ''..'' \<and> slash \<notin> set c"
  using assms
proof (induction cs arbitrary: st)
  case Nil
  then show ?case by simp
next
  case (Cons c cs)
  have "\<forall>d\<in>set (clean_step True st c). d \<noteq> [] \<and> d \<noteq> ''.'' \<and> d \<noteq> ''..'' \<and> slash \<notin> set d"
    using Cons.prems by (cases st) (auto simp: clean_step_def)
  from Cons.IH[OF _ this] Cons.prems(1) show ?case by simp
qed

lemma path_resolve_names:
  assumes "valid_names cwd" and "c \<in> set (path_resolve cwd s)"
  shows "c \<noteq> [] \<and> c \<noteq> ''.'' \<and> c \<noteq> ''..'' \<and> slash \<notin> set c"
proof -
  have st: "\<forall>c\<in>set (if is_abs s then [] else rev cwd). c \<noteq> [] \<and> c \<noteq> ''.'' \<and> c \<noteq> ''..'' \<and> slash \<notin> set c"
    using assms(1) by (simp add: list_all_iff valid_name_def)
  have "\<forall>c\<in>set (split_on slash s). slash \<notin> set c"
    using split_on_no_sep by blast
  from foldl_clean_names[OF this st] assms(2) show ?thesis
    unfolding path_resolve_def set_rev by (rule bspec)
qed

lemma path_fault_None:
  "path_fault fs p = None \<longleftrightarrow> (\<forall>c\<in>set p. CHR 0x00 \<notin> set c) \<and> \<not> fs_denies fs p"
  by (auto simp: path_fault_def list_ex_iff)

lemma resolved_valid:
  assumes "valid_names cwd" and "path_fault fs (path_resolve cwd s) = None"
  shows "valid_names (path_resolve cwd s)"
proof -
  have "valid_name c" if "c \<in> set (path_resolve cwd s)" for c
    using path_resolve_names[OF assms(1) that] assms(2) that
    by (simp add: path_fault_None valid_name_def)
  then show ?thesis by (simp add: list_all_iff)
qed

lemma sys_path_Inr:
  assumes "sys_path fs s = Inr p" and "valid_names (fs_cwd fs)"
  shows "valid_names p"
proof -
  have "p = path_resolve (fs_cwd fs) s" "path_fault fs p = None"
    using assms(1) by (auto simp: sys_path_def Let_def split: if_splits option.splits)
  then show ?thesis using resolved_valid[OF assms(2)] by simp
qed

lemma fs_wf_put_file:
  assumes "fs_wf fs" and "\<not> fs_is_dir fs p" and "fs_is_dir fs (butlast p)" and "valid_names p"
  shows "fs_wf (fs_put p (File b) fs)"
proof (cases p rule: rev_cases)
  case Nil
  with assms(2) show ?thesis by simp
next
  case (snoc q n)
  show ?thesis
  proof (cases "fs_lookup fs p")
    case None
    then show ?thesis using assms snoc fs_wf_put_new[of fs q n] by simp
  next
    case (Some m)
    then show ?thesis using assms fs_wf_put_old[of fs p] by (cases m) auto
  qed
qed

lemma fs_grows_put_file:
  assumes "\<not> fs_is_dir fs p" and "fs_wf fs \<Longrightarrow> fs_is_dir fs (butlast p)"
    and "valid_names (fs_cwd fs) \<Longrightarrow> valid_names p"
  shows "fs_grows fs (fs_put p (File b) fs)"
  using assms fs_wf_put_file[of fs p b]
  by (auto simp: fs_grows_def fs_lookup_put fs_is_file_put)

lemma fs_grows_put_dir:
  assumes "fs_lookup fs p = None" and "fs_wf fs \<Longrightarrow> fs_is_dir fs (butlast p)"
    and "valid_names (fs_cwd fs) \<Longrightarrow> valid_names p"
  shows "fs_grows fs (fs_put p Dir fs)"
proof -
  have "fs_wf (fs_put p Dir fs)" if "fs_wf fs" "valid_names (fs_cwd fs)"
    using that assms fs_wf_put_new[of fs "butlast p" "last p" Dir]
    by (cases p rule: rev_cases) auto
  then show ?thesis
    using assms(1) by (auto simp: fs_grows_def fs_lookup_put fs_is_file_put_Dir fs_is_file_def)
qed

end
