(* ===== verification/FSLaws.thy ===== *)
theory FSLaws
  imports GoFS
begin

text \<open>
  Laws of the file-system calls: what each does on an absolute path built from valid names, and
  what every call keeps (\<open>fs_grows\<close>) whatever its arguments and its result.
\<close>

subsection \<open>Every call keeps the tree\<close>

lemma grows_stat: "within fs_grows (os_stat s)"
  by (simp add: within_def os_stat_def reflpD[OF fs_grows_reflp])

lemma grows_mkdir_one:
  assumes "valid_names (fs_cwd fs) \<Longrightarrow> path_fault fs q = None \<Longrightarrow> valid_names q"
    and "fs_wf fs \<Longrightarrow> fs_is_dir fs (butlast q)"
  shows "fs_grows fs (snd (mkdir_one s q fs))"
proof -
  have same: "fs_grows fs fs" using fs_grows_reflp by (rule reflpD)
  show ?thesis
  proof (cases "path_fault fs q = None \<and> fs_lookup fs q = None")
    case True
    then have "snd (mkdir_one s q fs) = fs_put q Dir fs" by (simp add: mkdir_one_def)
    with True assms show ?thesis using fs_grows_put_dir by simp
  next
    case False
    then have "snd (mkdir_one s q fs) = fs"
      by (auto simp: mkdir_one_def split: option.split node.split)
    with same show ?thesis by simp
  qed
qed

text \<open>
  The loop of \<open>MkdirAll\<close> goes from each directory to one right below it, so the parent of the
  directory it makes is there.
\<close>

lemma mkdir_one_ok: "mkdir_one s q fs = (Inr (), fs') \<Longrightarrow> fs_is_dir fs' q"
  by (cases "q = []") (auto simp: mkdir_one_def split: option.splits node.splits)

lemma grows_mkdirs:
  assumes "\<And>q. q \<in> set (prefixes p) \<Longrightarrow> valid_names (fs_cwd fs) \<Longrightarrow> path_fault fs q = None \<Longrightarrow> valid_names q"
  shows "fs_grows fs (snd (each (mkdir_one s) (tl (prefixes p)) fs)) \<and>
    (\<forall>u fs'. each (mkdir_one s) (tl (prefixes p)) fs = (Inr u, fs') \<longrightarrow> fs_is_dir fs' p)"
  using assms
proof (induction p rule: rev_induct)
  case Nil
  then show ?case by (simp add: reflpD[OF fs_grows_reflp])
next
  case (snoc x p)
  let ?m = "each (mkdir_one s) (tl (prefixes p))"
  obtain r fs1 where m: "?m fs = (r, fs1)" by (cases "?m fs")
  have tl_snoc: "tl (prefixes (p @ [x])) = tl (prefixes p) @ [p @ [x]]"
    by (cases "prefixes p") (auto simp: prefixes_snoc)
  have IH: "fs_grows fs fs1" "r = Inr u \<Longrightarrow> fs_is_dir fs1 p" for u
    using snoc.IH snoc.prems m by (auto simp: prefixes_snoc)
  show ?case
  proof (cases r)
    case (Inl e)
    then show ?thesis using m IH by (simp add: tl_snoc each_append)
  next
    case (Inr u)
    have e: "each (mkdir_one s) (tl (prefixes (p @ [x]))) fs = mkdir_one s (p @ [x]) fs1"
      using m Inr
      by (cases "mkdir_one s (p @ [x]) fs1")
        (simp add: tl_snoc each_append go_then_def go_try_def split: sum.splits)
    have pf: "path_fault fs1 (p @ [x]) = path_fault fs (p @ [x])" "fs_cwd fs1 = fs_cwd fs"
      using IH(1) by (auto simp: path_fault_def fs_denies_def fs_grows_def)
    have "fs_grows fs1 (snd (mkdir_one s (p @ [x]) fs1))"
      using snoc.prems[of "p @ [x]"] IH(2)[OF Inr] pf
      by (intro grows_mkdir_one) (auto simp: prefixes_snoc)
    with IH(1) have "fs_grows fs (snd (mkdir_one s (p @ [x]) fs1))"
      by (rule transpD[OF fs_grows_transp])
    then show ?thesis using e mkdir_one_ok[of s "p @ [x]" fs1] by auto
  qed
qed

lemma prefix_resolved:
  assumes "q \<in> set (prefixes (path_resolve cwd s))" and "valid_names cwd"
    and "path_fault fs q = None"
  shows "valid_names q"
proof -
  have "set q \<subseteq> set (path_resolve cwd s)"
    using assms(1) by (auto dest: set_mono_prefix)
  then have "valid_name c" if "c \<in> set q" for c
    using path_resolve_names[OF assms(2), of c s] assms(3) that
    by (auto simp: path_fault_None valid_name_def)
  then show ?thesis by (simp add: list_all_iff)
qed

lemma grows_mkdir_all: "within fs_grows (os_mkdir_all s)"
  unfolding within_def
proof
  fix fs
  show "fs_grows fs (snd (os_mkdir_all s fs))"
    using grows_mkdirs[of "path_resolve (fs_cwd fs) s" fs s] prefix_resolved
      reflpD[OF fs_grows_reflp, of fs]
    by (auto simp: os_mkdir_all_def)
qed

lemma grows_open_file: "within fs_grows (os_open_file trunc s)"
  unfolding within_def
proof
  fix fs
  show "fs_grows fs (snd (os_open_file trunc s fs))"
  proof (cases "sys_path fs s")
    case (Inl e)
    then show ?thesis by (simp add: os_open_file_def reflpD[OF fs_grows_reflp])
  next
    case (Inr p)
    have "fs_is_dir fs (butlast p)" if "fs_wf fs" "fs_lookup fs p = Some (File b)" for b
      using that fs_wf_lookup[of fs "butlast p" "last p"] by (cases p rule: rev_cases) auto
    then show ?thesis
      using Inr sys_path_Inr[OF Inr] fs_grows_put_file[of fs p "[]"]
        reflpD[OF fs_grows_reflp, of fs]
      by (auto simp: os_open_file_def split: option.splits node.splits)
  qed
qed

lemma grows_file_write: "within fs_grows (file_write p b)"
proof -
  have "fs_grows fs (fs_put p (File c) fs)" if "fs_is_file fs p" for fs c
    using that fs_wf_put_old[of fs p]
    by (auto simp: fs_grows_def fs_lookup_put fs_is_file_put fs_is_file_def
        split: option.splits node.splits)
  then show ?thesis
    using reflpD[OF fs_grows_reflp]
    by (auto simp: within_def file_write_def fs_is_file_def split: option.splits node.splits)
qed

lemma grows_os_open: "within fs_grows (os_open s)"
  using reflpD[OF fs_grows_reflp]
  by (auto simp: within_def os_open_def split: sum.split option.split)

lemma grows_io_copy: "within fs_grows (io_copy dst src)"
  using grows_file_write reflpD[OF fs_grows_reflp]
  by (auto simp: within_def io_copy_def split: option.split node.split)

lemmas grows_calls = grows_stat grows_mkdir_all grows_open_file grows_file_write grows_os_open
  grows_io_copy

lemmas fs_grows_rules = fs_grows_reflp fs_grows_transp grows_calls

text \<open>A call that fails returns an error value.\<close>

lemma sys_path_Inl: "sys_path fs s = Inl e \<Longrightarrow> \<exists>g. e = Err g"
  by (auto simp: sys_path_def Let_def split: if_splits option.splits)

lemma fs_stat_Inl: "fs_stat fs s = Inl e \<Longrightarrow> \<exists>g. e = Err g"
  by (auto simp: fs_stat_def split: sum.splits option.splits dest: sys_path_Inl)

lemma fs_read_file_Inl: "fs_read_file fs s = Inl e \<Longrightarrow> \<exists>g. e = Err g"
  by (auto simp: fs_read_file_def split: sum.splits node.splits dest: fs_stat_Inl)

lemma fs_read_dir_Inl: "fs_read_dir fs s = Inl e \<Longrightarrow> \<exists>g. e = Err g"
  by (auto simp: fs_read_dir_def split: sum.splits option.splits node.splits dest: sys_path_Inl)

lemma errs_mkdir_one: "errs (mkdir_one s q)"
  by (auto simp: errs_def mkdir_one_def split: option.splits node.splits)

lemma errs_mkdir_all: "errs (os_mkdir_all s)"
  using errs_each[of _ "mkdir_one s"] errs_mkdir_one[of s]
  by (auto simp: errs_def os_mkdir_all_def split: if_splits)

lemma errs_stat: "errs (os_stat s)"
  by (auto simp: errs_def os_stat_def dest: fs_stat_Inl)

lemma errs_open_file: "errs (os_open_file t s)"
  by (auto simp: errs_def os_open_file_def split: sum.splits option.splits node.splits if_splits
      dest: sys_path_Inl)

lemma errs_os_open: "errs (os_open s)"
  by (auto simp: errs_def os_open_def split: sum.splits option.splits dest: sys_path_Inl)

lemma errs_file_write: "errs (file_write p b)"
  by (auto simp: errs_def file_write_def split: option.splits node.splits)

lemma errs_io_copy: "errs (io_copy dst src)"
  using errs_file_write by (auto simp: errs_def io_copy_def split: option.splits node.splits)

lemmas errs_calls = errs_mkdir_all errs_stat errs_open_file errs_os_open errs_file_write errs_io_copy

subsection \<open>Calls on absolute paths\<close>

text \<open>The process may use the directory \<open>p\<close> and everything in it.\<close>

definition fs_reach :: "fs \<Rightarrow> path \<Rightarrow> bool" where
  "fs_reach fs p \<longleftrightarrow> valid_names p \<and> list_all (\<lambda>d. \<not> prefix d p \<and> \<not> prefix p d) (fs_denied fs)"

lemma fs_reach_append: "fs_reach fs p \<Longrightarrow> valid_names q \<Longrightarrow> fs_reach fs (p @ q)"
  using prefix_same_cases[of _ "p @ q" p] append_prefixD[of p q]
  by (simp add: fs_reach_def list_all_iff ball_Un) blast

lemma fs_reach_denies: "fs_reach fs p \<Longrightarrow> \<not> fs_denies fs (p @ q)"
  using prefix_same_cases[of _ "p @ q" p]
  by (auto simp: fs_reach_def fs_denies_def list_ex_iff list_all_iff)

lemma fs_reach_prefix_denies: "fs_reach fs p \<Longrightarrow> prefix q p \<Longrightarrow> \<not> fs_denies fs q"
  by (auto simp: fs_reach_def fs_denies_def list_ex_iff list_all_iff dest: prefix_order.trans)

lemma fs_reach_put [simp]: "fs_reach (fs_put p n fs) q = fs_reach fs q"
  by (simp add: fs_reach_def)

lemma fs_reach_valid: "fs_reach fs p \<Longrightarrow> valid_names p"
  by (simp add: fs_reach_def)

lemma sys_path_reach [simp]: "fs_reach fs p \<Longrightarrow> sys_path fs (abs_of p) = Inr p"
  using fs_reach_denies[of fs p "[]"] by (simp add: fs_reach_def sys_path_abs_of)

lemma fs_stat_reach:
  "fs_reach fs p \<Longrightarrow> fs_stat fs (abs_of p) =
     (case fs_lookup fs p of None \<Rightarrow> Inl (Err (PathErr (missing_errno fs p) (abs_of p))) | Some n \<Rightarrow> Inr n)"
  by (simp add: fs_stat_def)

lemma fs_read_file_reach:
  "fs_reach fs p \<Longrightarrow> fs_lookup fs p = Some (File b) \<Longrightarrow> fs_read_file fs (abs_of p) = Inr b"
  by (simp add: fs_read_file_def fs_stat_reach)

lemma fs_read_dir_reach:
  "fs_reach fs p \<Longrightarrow> fs_is_dir fs p \<Longrightarrow>
   fs_read_dir fs (abs_of p) = Inr (map (\<lambda>n. (n, the (fs_lookup fs (p @ [n])))) (fs_entries fs p))"
  by (simp add: fs_read_dir_def)

lemma os_open_file_new:
  assumes "fs_reach fs (p @ [n])" and "fs_is_dir fs p" and "fs_lookup fs (p @ [n]) = None"
  shows "os_open_file t (abs_of (p @ [n])) fs = (Inr (p @ [n]), fs_put (p @ [n]) (File []) fs)"
  using assms by (simp add: os_open_file_def)

lemma os_open_file_old:
  assumes "fs_reach fs p" and "fs_lookup fs p = Some (File b)"
  shows "os_open_file t (abs_of p) fs = (Inr p, if t then fs_put p (File []) fs else fs)"
  using assms by (simp add: os_open_file_def)

lemma os_open_reach: "fs_reach fs p \<Longrightarrow> fs_lookup fs p = Some n \<Longrightarrow> os_open (abs_of p) fs = (Inr p, fs)"
  by (simp add: os_open_def)

text \<open>\<open>MkdirAll\<close> makes exactly the missing directories on the way, if no file is in the way.\<close>

definition mkdirs :: "path \<Rightarrow> fs \<Rightarrow> fs" where
  "mkdirs p fs = fold (\<lambda>q fs. if fs_is_dir fs q then fs else fs_put q Dir fs) (tl (prefixes p)) fs"

lemma mkdirs_snoc:
  "mkdirs (p @ [x]) fs =
     (if fs_is_dir (mkdirs p fs) (p @ [x]) then mkdirs p fs else fs_put (p @ [x]) Dir (mkdirs p fs))"
  by (cases "prefixes p") (auto simp: mkdirs_def prefixes_snoc)

lemma mkdirs_denied [simp]: "fs_denied (mkdirs p fs) = fs_denied fs" "fs_cwd (mkdirs p fs) = fs_cwd fs"
  by (induction p rule: rev_induct) (simp_all add: mkdirs_snoc, simp_all add: mkdirs_def)

lemma fs_lookup_mkdirs: "fs_lookup (mkdirs p fs) q = (if prefix q p then Some Dir else fs_lookup fs q)"
proof (induction p rule: rev_induct)
  case Nil
  then show ?case by (cases q) (simp_all add: mkdirs_def)
next
  case (snoc x p)
  then show ?case by (auto simp: mkdirs_snoc fs_lookup_put)
qed

lemma fs_reach_mkdirs [simp]: "fs_reach (mkdirs p fs) q = fs_reach fs q"
  by (simp add: fs_reach_def)

definition no_file_on :: "fs \<Rightarrow> path \<Rightarrow> bool" where
  "no_file_on fs p = list_all (\<lambda>q. \<not> fs_is_file fs q) (prefixes p)"

lemma no_file_on_snoc: "no_file_on fs (p @ [x]) \<longleftrightarrow> no_file_on fs p \<and> \<not> fs_is_file fs (p @ [x])"
  by (simp add: no_file_on_def prefixes_snoc)

lemma mkdir_one_mkdirs:
  assumes "fs_reach fs q" and "\<not> fs_is_file fs q"
  shows "mkdir_one s q fs = (Inr (), if fs_is_dir fs q then fs else fs_put q Dir fs)"
  using assms fs_reach_denies[of fs q "[]"]
  by (auto simp: mkdir_one_def fs_reach_def fs_is_file_def split: option.splits node.splits)

lemma each_mkdir_mkdirs:
  assumes "valid_names p" and "\<And>q. prefix q p \<Longrightarrow> \<not> fs_denies fs q" and "no_file_on fs p"
  shows "each (mkdir_one s) (tl (prefixes p)) fs = (Inr (), mkdirs p fs)"
  using assms
proof (induction p rule: rev_induct)
  case Nil
  then show ?case by (simp add: mkdirs_def)
next
  case (snoc x p)
  have tl_snoc: "tl (prefixes (p @ [x])) = tl (prefixes p) @ [p @ [x]]"
    by (cases "prefixes p") (auto simp: prefixes_snoc)
  have IH: "each (mkdir_one s) (tl (prefixes p)) fs = (Inr (), mkdirs p fs)"
    using snoc.prems by (intro snoc.IH) (auto simp: no_file_on_snoc)
  have "\<not> fs_is_file (mkdirs p fs) (p @ [x])" "\<not> fs_denies (mkdirs p fs) (p @ [x])"
    using snoc.prems(3) snoc.prems(2)[of "p @ [x]"]
    by (simp_all add: no_file_on_snoc fs_is_file_def fs_lookup_mkdirs fs_denies_def)
  then have "mkdir_one s (p @ [x]) (mkdirs p fs) = (Inr (), mkdirs (p @ [x]) fs)"
    using snoc.prems(1)
    by (auto simp: mkdir_one_def mkdirs_snoc fs_is_file_def split: option.splits node.splits)
  then show ?case by (simp add: tl_snoc each_append IH)
qed

lemma os_mkdir_all_ok:
  assumes "fs_reach fs p" and "no_file_on fs p"
  shows "os_mkdir_all (abs_of p) fs = (Inr (), mkdirs p fs)"
  using assms each_mkdir_mkdirs[of p fs] fs_reach_prefix_denies[of fs p]
  by (simp add: os_mkdir_all_def fs_reach_def)

lemma fs_wf_mkdirs:
  assumes "fs_wf fs" and "valid_names p" and "no_file_on fs p"
  shows "fs_wf (mkdirs p fs)"
  using assms
proof (induction p rule: rev_induct)
  case Nil
  then show ?case by (simp add: mkdirs_def)
next
  case (snoc x p)
  have wf: "fs_wf (mkdirs p fs)" using snoc by (simp add: no_file_on_snoc)
  have "fs_lookup (mkdirs p fs) (p @ [x]) \<noteq> Some (File b)" for b
    using snoc.prems(3) by (auto simp: fs_lookup_mkdirs no_file_on_snoc fs_is_file_def)
  then have "fs_is_dir (mkdirs p fs) (p @ [x]) \<or> fs_lookup (mkdirs p fs) (p @ [x]) = None"
    by (metis node.exhaust option.exhaust)
  then show ?case
    using wf snoc.prems(2) fs_wf_put_new[of "mkdirs p fs" p x Dir]
    by (auto simp: mkdirs_snoc fs_lookup_mkdirs)
qed

end
