(* ===== verification/Corpus.thy ===== *)
theory Corpus
  imports FSLaws
begin

text \<open>
  Inputs and corpora (\<open>types/types.go\<close> and the end of \<open>types/files.go\<close>): an \<open>Input\<close> is a
  named test case, an \<open>InputCorpus\<close> a list of them, stored as one file per input in a
  directory. A Go pointer to a corpus is an option, \<open>None\<close> for nil.
  The locale \<open>corpus_store\<close> is the contract the file managers rely on: what reading a
  directory returns after inputs were written to it.
\<close>

subsection \<open>Data\<close>

record Input =
  Name :: string
  Body :: bytes

record InputCorpus =
  Inputs :: "Input list"

definition Add :: "InputCorpus \<Rightarrow> Input \<Rightarrow> InputCorpus" where
  "Add i other = i\<lparr>Inputs := Inputs i @ [other]\<rparr>"

definition readmeFilename :: string where
  "readmeFilename = ''README.txt''"

text \<open>The panic of a read through a nil pointer.\<close>

definition nil_deref :: fault where
  "nil_deref = Panic ''invalid memory address or nil pointer dereference''"

lemma Input_eqI: "Name i = Name j \<Longrightarrow> Body i = Body j \<Longrightarrow> i = (j :: Input)"
  by (cases i; cases j) simp

lemma InputCorpus_eta: "\<lparr>Inputs = Inputs c\<rparr> = (c :: InputCorpus)"
  by (cases c) simp

subsection \<open>Operations\<close>

text \<open>\<open>len(c.Inputs)\<close> of a pointer that may be nil.\<close>

definition corpus_len :: "InputCorpus option \<Rightarrow> nat res" where
  "corpus_len c = (case c of None \<Rightarrow> Inl nil_deref | Some c \<Rightarrow> Inr (length (Inputs c)))"

definition WriteInputToFile :: "Input \<Rightarrow> string \<Rightarrow> (fs, unit) go" where
  "WriteInputToFile i dir =
     go_try (os_open_file False (path_join [dir, Name i])) (\<lambda>f. file_write f (Body i))"

definition WriteInputCorpusToFile :: "InputCorpus option \<Rightarrow> string \<Rightarrow> (fs, unit) go" where
  "WriteInputCorpusToFile inputCorpus dir =
     (case inputCorpus of
        None \<Rightarrow> go_fail nil_deref
      | Some c \<Rightarrow> each (\<lambda>i. WriteInputToFile i dir) (Inputs c))"

definition readInput :: "string \<Rightarrow> (fs, Input) go" where
  "readInput path fs =
     (case fs_read_file fs path of
        Inl e \<Rightarrow> (Inl e, fs)
      | Inr buf \<Rightarrow> (Inr \<lparr>Name = snd (path_split path), Body = buf\<rparr>, fs))"

text \<open>The loop over the directory's entries, with the corpus read so far.\<close>

primrec read_entries :: "string \<Rightarrow> InputCorpus \<Rightarrow> (string \<times> node) list \<Rightarrow> (fs, InputCorpus) go" where
  "read_entries dir corpus [] = go_ret corpus"
| "read_entries dir corpus (f # files) =
     (if fst f = readmeFilename then read_entries dir corpus files
      else go_try (os_stat (path_join [dir, fst f])) (\<lambda>fi.
        if fi = Dir then read_entries dir corpus files
        else go_try (readInput (path_join [dir, fst f])) (\<lambda>inp.
          read_entries dir (Add corpus inp) files)))"

definition ReadInputCorpus :: "string \<Rightarrow> (fs, InputCorpus) go" where
  "ReadInputCorpus dir fs =
     (case fs_read_dir fs dir of
        Inl e \<Rightarrow> (Inl e, fs)
      | Inr files \<Rightarrow> read_entries dir \<lparr>Inputs = []\<rparr> files fs)"

definition validateInputName :: "string \<Rightarrow> goerr option" where
  "validateInputName inputName =
     (if path_base inputName \<noteq> inputName
      then Some (ErrMsg (''!! inputName appears to be trying to escalate up the dir structure: '' @ inputName))
      else None)"

subsection \<open>The effect of a write, the result of a read\<close>

text \<open>The files of a directory: their bodies by name.\<close>

definition dir_files :: "fs \<Rightarrow> path \<Rightarrow> string \<Rightarrow> bytes option" where
  "dir_files fs p n = (case fs_lookup fs (p @ [n]) of Some (File b) \<Rightarrow> Some b | _ \<Rightarrow> None)"

definition old_body :: "bytes option \<Rightarrow> bytes" where
  "old_body b = (case b of None \<Rightarrow> [] | Some old \<Rightarrow> old)"

definition store_input :: "path \<Rightarrow> Input \<Rightarrow> fs \<Rightarrow> fs" where
  "store_input p i fs =
     fs_put (p @ [Name i]) (File (overlay (Body i) (old_body (dir_files fs p (Name i))))) fs"

text \<open>A directory the process can use.\<close>

definition dir_ready :: "fs \<Rightarrow> path \<Rightarrow> bool" where
  "dir_ready fs p \<longleftrightarrow> fs_wf fs \<and> fs_reach fs p \<and> fs_is_dir fs p"

definition corpus_of :: "fs \<Rightarrow> path \<Rightarrow> InputCorpus" where
  "corpus_of fs p =
     \<lparr>Inputs = map (\<lambda>n. \<lparr>Name = n, Body = the (dir_files fs p n)\<rparr>)
       (filter (\<lambda>n. n \<noteq> readmeFilename \<and> dir_files fs p n \<noteq> None) (fs_entries fs p))\<rparr>"

lemma overlay_Nil [simp]: "overlay b [] = b"
  by (simp add: overlay_def)

lemma length_overlay: "length (overlay new old) = max (length new) (length old)"
  by (simp add: overlay_def)

lemma overlay_eq_new_iff: "overlay new old = new \<longleftrightarrow> length old \<le> length new"
  by (simp add: overlay_def)

lemma dir_ready_dir [simp]: "dir_ready fs p \<Longrightarrow> fs_is_dir fs p"
  by (simp add: dir_ready_def)

lemma dir_ready_entry:
  "dir_ready fs p \<Longrightarrow> valid_name n \<Longrightarrow> fs_reach fs (p @ [n])"
  by (simp add: dir_ready_def fs_reach_append)

lemma dir_ready_path:
  "dir_ready fs p \<Longrightarrow> valid_name n \<Longrightarrow> path_join [abs_of p, n] = abs_of (p @ [n])"
  by (simp add: dir_ready_def fs_reach_def)

lemma fs_put_twice [simp]: "fs_put p a (fs_put p b fs) = fs_put p a fs"
  by (simp add: fs_put_def)

lemma WriteInputToFile_ok:
  assumes "dir_ready fs p" and "valid_name (Name i)" and "\<not> fs_is_dir fs (p @ [Name i])"
  shows "WriteInputToFile i (abs_of p) fs = (Inr (), store_input p i fs)"
proof (cases "fs_lookup fs (p @ [Name i])")
  case None
  with assms have "os_open_file False (abs_of (p @ [Name i])) fs =
      (Inr (p @ [Name i]), fs_put (p @ [Name i]) (File []) fs)"
    by (intro os_open_file_new) (simp_all add: dir_ready_entry)
  with None assms show ?thesis
    by (simp add: WriteInputToFile_def dir_ready_path file_write_def store_input_def dir_files_def
        old_body_def)
next
  case (Some m)
  with assms(3) obtain b where b: "fs_lookup fs (p @ [Name i]) = Some (File b)"
    by (cases m) auto
  with assms have "os_open_file False (abs_of (p @ [Name i])) fs = (Inr (p @ [Name i]), fs)"
    by (simp add: os_open_file_old[of _ _ b] dir_ready_entry)
  with b assms show ?thesis
    by (simp add: WriteInputToFile_def dir_ready_path file_write_def store_input_def dir_files_def
        old_body_def)
qed

lemma dir_files_store:
  "dir_files (store_input p i fs) q =
     (if q = p then (dir_files fs p)(Name i \<mapsto> overlay (Body i) (old_body (dir_files fs p (Name i))))
      else dir_files fs q)"
  by (auto simp: fun_eq_iff dir_files_def store_input_def fs_lookup_put)

lemma fs_is_dir_store:
  "\<not> fs_is_dir fs (p @ [Name i]) \<Longrightarrow> fs_is_dir (store_input p i fs) q = fs_is_dir fs q"
  by (auto simp: store_input_def fs_lookup_put)

lemma dir_ready_store:
  assumes "dir_ready fs q" and "dir_ready fs p" and "valid_name (Name i)"
    and "\<not> fs_is_dir fs (p @ [Name i])"
  shows "dir_ready (store_input p i fs) q"
  using assms fs_wf_put_file[of fs "p @ [Name i]"]
  by (auto simp: dir_ready_def fs_is_dir_store fs_reach_def) (auto simp: store_input_def)

text \<open>The whole of \<open>ReadInputCorpus\<close> on a directory the process can use.\<close>

lemma read_entries_ok:
  assumes "dir_ready fs p" and "\<forall>n\<in>set ns. fs_lookup fs (p @ [n]) \<noteq> None"
  shows "read_entries (abs_of p) corpus (map (\<lambda>n. (n, f n)) ns) fs =
    (Inr \<lparr>Inputs = Inputs corpus @ map (\<lambda>n. \<lparr>Name = n, Body = the (dir_files fs p n)\<rparr>)
       (filter (\<lambda>n. n \<noteq> readmeFilename \<and> dir_files fs p n \<noteq> None) ns)\<rparr>, fs)"
  using assms(2)
proof (induction ns arbitrary: corpus)
  case Nil
  then show ?case by simp
next
  case (Cons n ns)
  from Cons.prems obtain m where m: "fs_lookup fs (p @ [n]) = Some m" by auto
  have v: "valid_name n"
    using fs_wf_lookup[OF _ m] assms(1) by (simp add: dir_ready_def)
  have r: "fs_reach fs (p @ [n])" using assms(1) v by (rule dir_ready_entry)
  have vp: "valid_names p" using assms(1) by (simp add: dir_ready_def fs_reach_def)
  show ?case
  proof (cases m)
    case Dir
    with m r v assms(1) Cons show ?thesis
      by (simp add: dir_ready_path os_stat_def fs_stat_reach dir_files_def)
  next
    case (File b)
    with m r have "fs_read_file fs (abs_of (p @ [n])) = Inr b"
      by (simp add: fs_read_file_reach)
    with File m r v vp assms(1) Cons show ?thesis
      by (simp add: dir_ready_path os_stat_def fs_stat_reach dir_files_def readInput_def
          path_split_snoc Add_def)
  qed
qed

lemma ReadInputCorpus_ok:
  assumes "dir_ready fs p"
  shows "ReadInputCorpus (abs_of p) fs = (Inr (corpus_of fs p), fs)"
proof -
  have "fs_read_dir fs (abs_of p) =
      Inr (map (\<lambda>n. (n, the (fs_lookup fs (p @ [n])))) (fs_entries fs p))"
    using assms by (simp add: fs_read_dir_reach dir_ready_def)
  then show ?thesis
    using read_entries_ok[OF assms, of "fs_entries fs p" "\<lparr>Inputs = []\<rparr>"]
    by (simp add: ReadInputCorpus_def corpus_of_def fs_entries_set)
qed

text \<open>Whatever the arguments, the writers keep the tree and the readers leave it alone.\<close>

lemma grows_WriteInputToFile: "within fs_grows (WriteInputToFile i dir)"
  unfolding WriteInputToFile_def by (intro within_rules fs_grows_rules)

lemma grows_WriteInputCorpusToFile: "within fs_grows (WriteInputCorpusToFile c dir)"
  unfolding WriteInputCorpusToFile_def
  by (cases c) (auto intro!: within_rules fs_grows_reflp fs_grows_transp grows_WriteInputToFile)

lemma reads_stat: "reads (os_stat s)"
  by (simp add: within_def os_stat_def)

lemma reads_readInput: "reads (readInput path)"
  by (simp add: within_def readInput_def split: sum.split)

lemma reads_read_entries: "reads (read_entries dir c files)"
  by (induction files arbitrary: c)
    (auto intro!: within_rules reads_stat reads_readInput)

lemma reads_ReadInputCorpus: "reads (ReadInputCorpus dir)"
  using reads_state[OF reads_read_entries]
  by (simp add: within_def ReadInputCorpus_def split: sum.split)

text \<open>What a list of inputs stores, one after the other.\<close>

definition stored :: "(string \<Rightarrow> bytes option) \<Rightarrow> Input list \<Rightarrow> string \<Rightarrow> bytes option" where
  "stored b is = foldl (\<lambda>b i. b(Name i \<mapsto> overlay (Body i) (old_body (b (Name i))))) b is"

lemma stored_Cons: "stored b (i # is) = stored (b(Name i \<mapsto> overlay (Body i) (old_body (b (Name i))))) is"
  by (simp add: stored_def)

lemma stored_other: "n \<notin> Name ` set is \<Longrightarrow> stored b is n = b n"
  by (induction "is" arbitrary: b) (auto simp: stored_Cons, simp add: stored_def)

lemma stored_distinct:
  assumes "distinct (map Name is)" and "i \<in> set is"
  shows "stored b is (Name i) = Some (overlay (Body i) (old_body (b (Name i))))"
  using assms
proof (induction "is" arbitrary: b)
  case Nil
  then show ?case by simp
next
  case (Cons j js)
  show ?case
  proof (cases "i = j")
    case True
    with Cons.prems show ?thesis by (simp add: stored_Cons stored_other)
  next
    case False
    with Cons.prems have "i \<in> set js" "Name i \<noteq> Name j" by (auto simp: rev_image_eqI)
    with Cons show ?thesis by (simp add: stored_Cons)
  qed
qed

subsection \<open>The contract of a store of corpora\<close>

text \<open>
  \<open>put d i\<close> stores one input in the directory \<open>d\<close> and \<open>get d\<close> reads the directory.
  \<open>body\<close> is the content of the store, \<open>usable\<close> says that \<open>d\<close> can be written and read,
  \<open>blocked\<close> that a name is taken by something that is not a file, and \<open>hidden\<close> that the
  reader skips it.
\<close>

locale corpus_store =
  fixes put :: "'d \<Rightarrow> Input \<Rightarrow> ('s, unit) go"
    and get :: "'d \<Rightarrow> ('s, InputCorpus) go"
    and body :: "'s \<Rightarrow> 'd \<Rightarrow> string \<Rightarrow> bytes option"
    and usable :: "'s \<Rightarrow> 'd \<Rightarrow> bool"
    and blocked :: "'s \<Rightarrow> 'd \<Rightarrow> string \<Rightarrow> bool"
    and hidden :: "string \<Rightarrow> bool"
  assumes write_ok: "usable s d \<Longrightarrow> valid_name (Name i) \<Longrightarrow> \<not> blocked s d (Name i) \<Longrightarrow>
      \<exists>s'. put d i s = (Inr (), s')"
    and write_body: "usable s d \<Longrightarrow> valid_name (Name i) \<Longrightarrow> \<not> blocked s d (Name i) \<Longrightarrow>
      put d i s = (Inr (), s') \<Longrightarrow>
      body s' e = (if e = d then (body s d)(Name i \<mapsto> overlay (Body i) (old_body (body s d (Name i))))
                   else body s e)"
    and write_usable: "usable s d \<Longrightarrow> valid_name (Name i) \<Longrightarrow> \<not> blocked s d (Name i) \<Longrightarrow>
      put d i s = (Inr (), s') \<Longrightarrow> usable s e \<Longrightarrow> usable s' e"
    and write_blocked: "usable s d \<Longrightarrow> valid_name (Name i) \<Longrightarrow> \<not> blocked s d (Name i) \<Longrightarrow>
      put d i s = (Inr (), s') \<Longrightarrow> blocked s' e n = blocked s e n"
    and read_ok: "usable s d \<Longrightarrow> \<exists>c. get d s = (Inr c, s)"
    and read_sorted: "usable s d \<Longrightarrow> get d s = (Inr c, s) \<Longrightarrow>
      sorted (map Name (Inputs c)) \<and> distinct (map Name (Inputs c))"
    and read_body: "usable s d \<Longrightarrow> get d s = (Inr c, s) \<Longrightarrow>
      i \<in> set (Inputs c) \<longleftrightarrow> \<not> hidden (Name i) \<and> body s d (Name i) = Some (Body i)"
begin

definition writable :: "'s \<Rightarrow> 'd \<Rightarrow> Input list \<Rightarrow> bool" where
  "writable s d is \<longleftrightarrow> usable s d \<and> (\<forall>i\<in>set is. valid_name (Name i) \<and> \<not> blocked s d (Name i))"

text \<open>From one state to the next, usable directories stay usable and no name gets blocked.\<close>

definition keeps :: "'s \<Rightarrow> 's \<Rightarrow> bool" where
  "keeps s s' \<longleftrightarrow> (\<forall>e. usable s e \<longrightarrow> usable s' e) \<and> (\<forall>e n. blocked s' e n = blocked s e n)"

lemma keeps_refl: "keeps s s"
  by (simp add: keeps_def)

lemma keeps_trans: "keeps s t \<Longrightarrow> keeps t u \<Longrightarrow> keeps s u"
  by (simp add: keeps_def)

lemma writable_keeps: "writable s d is \<Longrightarrow> keeps s s' \<Longrightarrow> writable s' d is"
  by (simp add: writable_def keeps_def)

lemma write_all:
  assumes "writable s d is"
  shows "\<exists>s'. each (put d) is s = (Inr (), s') \<and> keeps s s' \<and>
    (\<forall>e. body s' e = (if e = d then stored (body s d) is else body s e))"
  using assms
proof (induction "is" arbitrary: s)
  case Nil
  then show ?case by (simp add: stored_def keeps_refl)
next
  case (Cons i "is")
  have i: "usable s d" "valid_name (Name i)" "\<not> blocked s d (Name i)"
    using Cons.prems by (auto simp: writable_def)
  obtain s1 where w: "put d i s = (Inr (), s1)" using write_ok[OF i] by blast
  have k: "keeps s s1" using write_usable[OF i w] write_blocked[OF i w] by (simp add: keeps_def)
  moreover have "writable s d is" using Cons.prems by (simp add: writable_def)
  ultimately have "writable s1 d is" by (metis writable_keeps)
  from Cons.IH[OF this] obtain s2 where s2: "each (put d) is s1 = (Inr (), s2)" "keeps s1 s2"
    "\<forall>e. body s2 e = (if e = d then stored (body s1 d) is else body s1 e)" by blast
  have "each (put d) (i # is) s = (Inr (), s2)" using w s2(1) by simp
  moreover have "\<forall>e. body s2 e = (if e = d then stored (body s d) (i # is) else body s e)"
    using s2(3) by (simp add: write_body[OF i w] stored_Cons)
  ultimately show ?case using keeps_trans[OF k s2(2)] by blast
qed

text \<open>Several directories, one after the other, each with its own inputs.\<close>

lemma write_many:
  assumes "\<forall>(d, is)\<in>set jobs. writable s d is" and "distinct (map fst jobs)"
  shows "\<exists>s'. each (\<lambda>(d, is). each (put d) is) jobs s = (Inr (), s') \<and> keeps s s' \<and>
    (\<forall>e. body s' e = (case map_of jobs e of None \<Rightarrow> body s e | Some is \<Rightarrow> stored (body s e) is))"
  using assms
proof (induction jobs arbitrary: s)
  case Nil
  then show ?case by (simp add: keeps_refl)
next
  case (Cons job jobs)
  obtain d "is" where job: "job = (d, is)" by fastforce
  have "writable s d is" using Cons.prems(1) job by simp
  from write_all[OF this] obtain s1 where s1: "each (put d) is s = (Inr (), s1)" "keeps s s1"
    "\<forall>e. body s1 e = (if e = d then stored (body s d) is else body s e)" by blast
  have "\<forall>(d, is)\<in>set jobs. writable s1 d is"
    using Cons.prems(1) writable_keeps[OF _ s1(2)] by auto
  with Cons.IH[of s1] Cons.prems(2) obtain s2 where
    s2: "each (\<lambda>(d, is). each (put d) is) jobs s1 = (Inr (), s2)" "keeps s1 s2"
    "\<forall>e. body s2 e = (case map_of jobs e of None \<Rightarrow> body s1 e | Some is \<Rightarrow> stored (body s1 e) is)"
    by auto
  have "map_of jobs d = None" using Cons.prems(2) job by (simp add: map_of_eq_None_iff)
  then have "\<forall>e. body s2 e = (case map_of (job # jobs) e of None \<Rightarrow> body s e | Some is \<Rightarrow> stored (body s e) is)"
    using s1(3) s2(3) by (auto simp: job split: option.split)
  moreover have "each (\<lambda>(d, is). each (put d) is) (job # jobs) s = (Inr (), s2)"
    using s1(1) s2(1) by (simp add: job)
  ultimately show ?case using keeps_trans[OF s1(2) s2(2)] by blast
qed

text \<open>
  The round trip: inputs with different names, none hidden, written to a directory in which
  none of those names holds a longer body, are read back, by name order, with whatever else
  the directory holds.
\<close>

lemma read_after_write:
  assumes w: "writable s d is" and dist: "distinct (map Name is)"
    and short: "\<And>i old. i \<in> set is \<Longrightarrow> body s d (Name i) = Some old \<Longrightarrow> length old \<le> length (Body i)"
  shows "\<exists>s' c. each (put d) is s = (Inr (), s') \<and> get d s' = (Inr c, s') \<and>
    (\<forall>i. i \<in> set (Inputs c) \<longleftrightarrow> \<not> hidden (Name i) \<and>
       (i \<in> set is \<or> Name i \<notin> Name ` set is \<and> body s d (Name i) = Some (Body i)))"
proof -
  from write_all[OF w] obtain s' where s': "each (put d) is s = (Inr (), s')"
    "body s' d = stored (body s d) is" "usable s' d"
    using w by (auto simp: writable_def keeps_def)
  obtain c where c: "get d s' = (Inr c, s')" using read_ok[OF s'(3)] by blast
  have new: "stored (body s d) is (Name i) = Some (Body i)" if "i \<in> set is" for i
    using stored_distinct[OF dist that] short[OF that]
    by (cases "body s d (Name i)") (simp_all add: old_body_def overlay_eq_new_iff)
  have "i \<in> set (Inputs c) \<longleftrightarrow> \<not> hidden (Name i) \<and>
      (i \<in> set is \<or> Name i \<notin> Name ` set is \<and> body s d (Name i) = Some (Body i))" for i
  proof (cases "Name i \<in> Name ` set is")
    case True
    then obtain j where j: "j \<in> set is" "Name j = Name i" by auto
    have "i \<in> set is \<longleftrightarrow> Body j = Body i"
    proof
      assume "i \<in> set is"
      with j dist have "i = j" by (simp add: distinct_map inj_on_def)
      then show "Body j = Body i" by simp
    next
      assume "Body j = Body i"
      with j have "i = j" by (simp add: Input_eqI)
      with j show "i \<in> set is" by simp
    qed
    with True show ?thesis
      using new[OF j(1)] j(2) read_body[OF s'(3) c] by (simp add: s'(2))
  next
    case False
    then show ?thesis
      using read_body[OF s'(3) c] by (auto simp: s'(2) stored_other)
  qed
  with s'(1) c show ?thesis by blast
qed

text \<open>A directory that holds exactly what a list of inputs stored is read back as that list.\<close>

lemma read_stored:
  assumes u: "usable s d" and b: "body s d = stored Map.empty is" and dist: "distinct (map Name is)"
    and vis: "\<And>i. i \<in> set is \<Longrightarrow> \<not> hidden (Name i)"
  shows "get d s = (Inr \<lparr>Inputs = sort_key Name is\<rparr>, s)"
proof -
  obtain c where c: "get d s = (Inr c, s)" using read_ok[OF u] by blast
  have "i \<in> set (Inputs c) \<longleftrightarrow> i \<in> set is" for i
  proof (cases "Name i \<in> Name ` set is")
    case True
    then obtain j where j: "j \<in> set is" "Name j = Name i" by auto
    then have "body s d (Name i) = Some (Body j)"
      using stored_distinct[OF dist j(1), of Map.empty] by (simp add: b old_body_def)
    moreover have "i \<in> set is \<longleftrightarrow> Body j = Body i"
      using j dist by (metis Input_eqI distinct_map inj_onD)
    ultimately show ?thesis using vis[OF j(1)] j(2) read_body[OF u c] by auto
  next
    case False
    then show ?thesis using read_body[OF u c] by (auto simp: b stored_other)
  qed
  then have set: "set (Inputs c) = set is" by blast
  have sd: "sorted (map Name (Inputs c))" "distinct (map Name (Inputs c))"
    using read_sorted[OF u c] by auto
  have "mset (Inputs c) = mset is"
    using set sd(2) dist by (auto simp: distinct_map set_eq_iff_mset_eq_distinct)
  then have "Inputs c = sort_key Name is"
    using sd dist by (intro sort_key_inj_key_eq [symmetric]) (auto simp: distinct_map)
  then have "c = \<lparr>Inputs = sort_key Name is\<rparr>" using InputCorpus_eta[of c] by simp
  with c show ?thesis by simp
qed

lemma read_after_write_empty:
  assumes w: "writable s d is" and dist: "distinct (map Name is)"
    and empty: "body s d = Map.empty" and vis: "\<And>i. i \<in> set is \<Longrightarrow> \<not> hidden (Name i)"
  shows "\<exists>s'. each (put d) is s = (Inr (), s') \<and> get d s' = (Inr \<lparr>Inputs = sort_key Name is\<rparr>, s')"
proof -
  from write_all[OF w] obtain s' where s': "each (put d) is s = (Inr (), s')" "keeps s s'"
    "body s' d = stored (body s d) is" by auto
  moreover have "usable s' d" using s'(2) w by (simp add: keeps_def writable_def)
  ultimately show ?thesis using read_stored[of s' d "is"] dist vis empty by auto
qed

end

subsection \<open>The file system is such a store\<close>

lemma corpus_of_names:
  "map Name (Inputs (corpus_of fs p)) =
     filter (\<lambda>n. n \<noteq> readmeFilename \<and> dir_files fs p n \<noteq> None) (fs_entries fs p)"
  by (simp add: corpus_of_def comp_def)

lemma corpus_of_set:
  "i \<in> set (Inputs (corpus_of fs p)) \<longleftrightarrow>
     Name i \<noteq> readmeFilename \<and> dir_files fs p (Name i) = Some (Body i)"
proof -
  have "n \<in> set (fs_entries fs p)" if "dir_files fs p n = Some b" for n b
    using that by (auto simp: dir_files_def fs_entries_set split: option.splits)
  then show ?thesis
    by (auto simp: corpus_of_def intro!: image_eqI[of i _ "Name i"] Input_eqI)
qed

interpretation fs_corpora: corpus_store "\<lambda>p i. WriteInputToFile i (abs_of p)"
  "\<lambda>p. ReadInputCorpus (abs_of p)" dir_files dir_ready "\<lambda>fs p n. fs_is_dir fs (p @ [n])"
  "\<lambda>n. n = readmeFilename"
proof unfold_locales
  show "sorted (map Name (Inputs c)) \<and> distinct (map Name (Inputs c))"
    if "dir_ready fs p" "ReadInputCorpus (abs_of p) fs = (Inr c, fs)" for fs p c
    using that by (auto simp: ReadInputCorpus_ok corpus_of_names sorted_wrt_filter)
qed (auto simp: WriteInputToFile_ok ReadInputCorpus_ok dir_files_store fs_is_dir_store
    dir_ready_store corpus_of_set)

lemma WriteInputCorpusToFile_Some:
  "WriteInputCorpusToFile (Some c) dir = each (\<lambda>i. WriteInputToFile i dir) (Inputs c)"
  by (simp add: WriteInputCorpusToFile_def)

lemma dir_files_empty: "fs_entries fs p = [] \<Longrightarrow> dir_files fs p = Map.empty"
proof
  fix n assume "fs_entries fs p = []"
  then have "n \<notin> set (fs_entries fs p)" by simp
  then show "dir_files fs p n = None" by (simp add: fs_entries_set dir_files_def)
qed

text \<open>The names an input of a corpus can be stored under.\<close>

definition names_ok :: "Input list \<Rightarrow> bool" where
  "names_ok is \<longleftrightarrow> distinct (map Name is) \<and>
     list_all (\<lambda>i. valid_name (Name i) \<and> Name i \<noteq> readmeFilename) is"

lemma names_ok_writable:
  assumes "names_ok is" and "dir_ready fs p" and "\<And>i. i \<in> set is \<Longrightarrow> \<not> fs_is_dir fs (p @ [Name i])"
  shows "fs_corpora.writable fs p is"
  using assms by (auto simp: fs_corpora.writable_def names_ok_def list_all_iff)

lemma empty_no_subdir: "fs_entries fs p = [] \<Longrightarrow> \<not> fs_is_dir fs (p @ [n])"
  using fs_entries_set[of fs p] by auto

text \<open>The state all the witnesses below start from: an empty directory \<open>/d\<close>.\<close>

definition sample_fs :: fs where
  "sample_fs = \<lparr>fs_cwd = [], fs_tree = [([''d''], Dir), ([''d'', ''q''], Dir)], fs_denied = []\<rparr>"

definition sample_input :: "string \<Rightarrow> string \<Rightarrow> Input" where
  "sample_input n b = \<lparr>Name = n, Body = bytes_of_string b\<rparr>"

subsection \<open>Properties\<close>

text \<open>
  C20: A corpus with different storable names, none of them README.txt, written to an empty
  directory is read back: the same inputs, in name order.
\<close>

theorem corpus_roundtrip:
  assumes "dir_ready fs p" and "fs_entries fs p = []" and "names_ok is"
  shows "\<exists>fs'. WriteInputCorpusToFile (Some \<lparr>Inputs = is\<rparr>) (abs_of p) fs = (Inr (), fs') \<and>
    ReadInputCorpus (abs_of p) fs' = (Inr \<lparr>Inputs = sort_key Name is\<rparr>, fs')"
proof -
  have "fs_corpora.writable fs p is"
    using assms empty_no_subdir by (intro names_ok_writable) auto
  moreover have "distinct (map Name is)" "\<And>i. i \<in> set is \<Longrightarrow> Name i \<noteq> readmeFilename"
    using assms(3) by (auto simp: names_ok_def list_all_iff)
  ultimately show ?thesis
    using fs_corpora.read_after_write_empty[of fs p "is"] dir_files_empty[OF assms(2)]
    by (simp add: WriteInputCorpusToFile_Some)
qed

lemma corpus_roundtrip_witness:
  "\<exists>fs'. WriteInputCorpusToFile
      (Some \<lparr>Inputs = [sample_input ''id:2'' ''bb'', sample_input ''id:1'' ''a'']\<rparr>) ''/d/q'' sample_fs =
      (Inr (), fs') \<and>
    ReadInputCorpus ''/d/q'' fs' =
      (Inr \<lparr>Inputs = [sample_input ''id:1'' ''a'', sample_input ''id:2'' ''bb'']\<rparr>, fs')"
proof -
  have "dir_ready sample_fs [''d'', ''q'']" "fs_entries sample_fs [''d'', ''q''] = []"
    "names_ok [sample_input ''id:2'' ''bb'', sample_input ''id:1'' ''a'']" by code_simp+
  moreover have "sort_key Name [sample_input ''id:2'' ''bb'', sample_input ''id:1'' ''a''] =
    [sample_input ''id:1'' ''a'', sample_input ''id:2'' ''bb'']" by code_simp
  moreover have "abs_of [''d'', ''q''] = ''/d/q''" by code_simp
  ultimately show ?thesis
    using corpus_roundtrip[of sample_fs "[''d'', ''q'']"
        "[sample_input ''id:2'' ''bb'', sample_input ''id:1'' ''a'']"] by simp
qed

text \<open>
  Storing an input over a file that is already there does not truncate it: the file then
  holds the new body followed by the old content behind it, so it holds the input's body
  exactly when the old content was no longer. Every other file of every directory is unchanged.
\<close>

theorem rewrite_keeps_tail:
  assumes "dir_ready fs p" and "valid_name (Name i)" and "dir_files fs p (Name i) = Some old"
  shows "\<exists>fs'. WriteInputToFile i (abs_of p) fs = (Inr (), fs') \<and>
    dir_files fs' p (Name i) = Some (Body i @ drop (length (Body i)) old) \<and>
    (dir_files fs' p (Name i) = Some (Body i) \<longleftrightarrow> length old \<le> length (Body i)) \<and>
    (\<forall>q n. (q, n) \<noteq> (p, Name i) \<longrightarrow> dir_files fs' q n = dir_files fs q n)"
proof -
  have "\<not> fs_is_dir fs (p @ [Name i])" using assms(3) by (auto simp: dir_files_def)
  with assms show ?thesis
    by (auto simp: WriteInputToFile_ok dir_files_store old_body_def overlay_def)
qed

lemma rewrite_keeps_tail_witness:
  "\<exists>fs fs'. WriteInputToFile (sample_input ''id:1'' ''long'') ''/d/q'' sample_fs = (Inr (), fs) \<and>
    WriteInputToFile (sample_input ''id:1'' ''ab'') ''/d/q'' fs = (Inr (), fs') \<and>
    dir_files fs' [''d'', ''q''] ''id:1'' = Some (bytes_of_string ''abng'')"
proof -
  let ?fs = "store_input [''d'', ''q''] (sample_input ''id:1'' ''long'') sample_fs"
  have a: "abs_of [''d'', ''q''] = ''/d/q''" by code_simp
  have "dir_ready sample_fs [''d'', ''q'']" "valid_name (Name (sample_input ''id:1'' ''long''))"
    "\<not> fs_is_dir sample_fs ([''d'', ''q''] @ [Name (sample_input ''id:1'' ''long'')])" by code_simp+
  from WriteInputToFile_ok[OF this]
  have "WriteInputToFile (sample_input ''id:1'' ''long'') ''/d/q'' sample_fs = (Inr (), ?fs)"
    by (simp add: a)
  moreover have "dir_ready ?fs [''d'', ''q'']" "valid_name (Name (sample_input ''id:1'' ''ab''))"
    "dir_files ?fs [''d'', ''q''] (Name (sample_input ''id:1'' ''ab'')) = Some (bytes_of_string ''long'')"
    by code_simp+
  note rewrite_keeps_tail[OF this]
  moreover have "Body (sample_input ''id:1'' ''ab'') @
      drop (length (Body (sample_input ''id:1'' ''ab''))) (bytes_of_string ''long'') =
      bytes_of_string ''abng''" "Name (sample_input ''id:1'' ''ab'') = ''id:1''" by code_simp+
  ultimately show ?thesis by (simp add: a) blast
qed

text \<open>
  Writing a corpus stops at the first input that cannot be written: the inputs before it
  stay on disk, its error is returned, and the inputs after it are never written.
\<close>

theorem write_stops_at_first_error:
  assumes "dir_ready fs p" and "names_ok xs" and "\<forall>i\<in>set xs. \<not> fs_is_dir fs (p @ [Name i])"
    and "valid_name (Name x)" and "fs_is_dir fs (p @ [Name x])"
  shows "\<exists>fs'. WriteInputCorpusToFile (Some \<lparr>Inputs = xs @ x # ys\<rparr>) (abs_of p) fs =
      (Inl (Err (PathErr EISDIR (abs_of (p @ [Name x])))), fs') \<and>
    dir_files fs' p = stored (dir_files fs p) xs \<and> (\<forall>q. q \<noteq> p \<longrightarrow> dir_files fs' q = dir_files fs q)"
proof -
  have w: "fs_corpora.writable fs p xs" using assms by (intro names_ok_writable) auto
  from fs_corpora.write_all[OF w] obtain fs' where fs':
    "each (\<lambda>i. WriteInputToFile i (abs_of p)) xs fs = (Inr (), fs')"
    "\<forall>e. dir_files fs' e = (if e = p then stored (dir_files fs p) xs else dir_files fs e)"
    "fs_corpora.keeps fs fs'" by blast
  have fs'': "dir_ready fs' p" "fs_is_dir fs' (p @ [Name x])"
    using fs'(3) assms(1,5) by (simp_all add: fs_corpora.keeps_def)
  have "WriteInputToFile x (abs_of p) fs' = (Inl (Err (PathErr EISDIR (abs_of (p @ [Name x])))), fs')"
    using fs'' assms(4)
    by (simp add: WriteInputToFile_def dir_ready_path os_open_file_def dir_ready_entry)
  from each_first_error[OF fs'(1) this] fs'(2) show ?thesis
    by (simp add: WriteInputCorpusToFile_Some)
qed

lemma write_stops_at_first_error_witness:
  "\<exists>fs'. WriteInputCorpusToFile (Some \<lparr>Inputs =
      [sample_input ''a'' ''1''] @ sample_input ''q'' ''2'' # [sample_input ''c'' ''3'']\<rparr>) ''/d'' sample_fs =
      (Inl (Err (PathErr EISDIR ''/d/q'')), fs') \<and>
    dir_files fs' [''d''] ''a'' = Some (bytes_of_string ''1'') \<and> dir_files fs' [''d''] ''c'' = None"
proof -
  have a: "abs_of [''d''] = ''/d''" "abs_of [''d'', ''q''] = ''/d/q''" by code_simp+
  have 1: "dir_ready sample_fs [''d'']" "names_ok [sample_input ''a'' ''1'']"
    "\<forall>i\<in>set [sample_input ''a'' ''1'']. \<not> fs_is_dir sample_fs ([''d''] @ [Name i])"
    "valid_name (Name (sample_input ''q'' ''2''))"
    "fs_is_dir sample_fs ([''d''] @ [Name (sample_input ''q'' ''2'')])" by code_simp+
  have 2: "stored (dir_files sample_fs [''d'']) [sample_input ''a'' ''1''] ''a'' =
      Some (bytes_of_string ''1'')"
    "stored (dir_files sample_fs [''d'']) [sample_input ''a'' ''1''] ''c'' = None" by code_simp+
  have 3: "Name (sample_input ''q'' ''2'') = ''q''" by code_simp
  show ?thesis
    using write_stops_at_first_error[OF 1, of "[sample_input ''c'' ''3'']"] a 2 3 by auto
qed

text \<open>
  The name check accepts exactly the names without a slash and the single name /; so it
  refuses every path that leaves the directory through a slash, but it also accepts dot-dot.
\<close>

theorem validateInputName_iff:
  "validateInputName n = None \<longleftrightarrow> n = [slash] \<or> (n \<noteq> [] \<and> slash \<notin> set n)"
  unfolding validateInputName_def path_base_fixed_iff[symmetric] by simp

end
