(* ===== verification/GoStrconv.thy ===== *)
theory GoStrconv
  imports GoPath
begin

text \<open>
  The part of Go's \<open>strings\<close> and \<open>strconv\<close> packages (Go 1.18) the statistics parser and the
  metrics use: \<open>SplitN(s, sep, 2)\<close>, \<open>Trim\<close>, \<open>ParseUint(s, 10, 64)\<close>, \<open>ParseFloat(s, 64)\<close>,
  \<open>FormatInt\<close>/\<open>Itoa\<close>, and the conversions to \<open>float32\<close>. A \<open>float64\<close> is its IEEE bit
  pattern, a \<open>64 word\<close>; rounding is to nearest, ties to even.
\<close>

type_synonym uint64 = "64 word"
type_synonym float64 = "64 word"
type_synonym float32 = "32 word"

subsection \<open>strings\<close>

text \<open>\<open>strings.SplitN(s, sep, 2)\<close> for a separator of one byte: one or two pieces.\<close>

definition split_n2 :: "char \<Rightarrow> string \<Rightarrow> string list" where
  "split_n2 c s =
     (case dropWhile (\<lambda>x. x \<noteq> c) s of
        [] \<Rightarrow> [s]
      | _ # rest \<Rightarrow> [takeWhile (\<lambda>x. x \<noteq> c) s, rest])"

text \<open>\<open>strings.Trim(s, cutset)\<close> for a cutset of one byte.\<close>

definition trim_char :: "char \<Rightarrow> string \<Rightarrow> string" where
  "trim_char c s = rev (dropWhile (\<lambda>x. x = c) (rev (dropWhile (\<lambda>x. x = c) s)))"

lemma split_n2_none: "c \<notin> set s \<Longrightarrow> split_n2 c s = [s]"
proof -
  assume "c \<notin> set s"
  then have "dropWhile (\<lambda>x. x \<noteq> c) s = []" by (auto simp: dropWhile_eq_Nil_conv)
  then show ?thesis unfolding split_n2_def by (simp only: list.case)
qed

lemma split_n2_some: "c \<notin> set a \<Longrightarrow> split_n2 c (a @ c # b) = [a, b]"
proof -
  assume a: "c \<notin> set a"
  have "dropWhile (\<lambda>x. x \<noteq> c) (a @ c # b) = c # b" "takeWhile (\<lambda>x. x \<noteq> c) (a @ c # b) = a"
    using a by (induction a) auto
  then show ?thesis by (simp add: split_n2_def)
qed

lemma split_n2_cases: "split_n2 c s = [s] \<and> c \<notin> set s \<or> (\<exists>a b. split_n2 c s = [a, b] \<and> s = a @ c # b \<and> c \<notin> set a)"
proof (cases "c \<in> set s")
  case True
  then obtain a b where "s = a @ c # b" "c \<notin> set a" by (meson split_list_first)
  then show ?thesis using split_n2_some by auto
next
  case False
  then show ?thesis by (simp add: split_n2_none)
qed

lemma trim_char_id: "s = [] \<or> hd s \<noteq> c \<and> last s \<noteq> c \<Longrightarrow> trim_char c s = s"
proof (cases "s = []")
  case False
  assume "s = [] \<or> hd s \<noteq> c \<and> last s \<noteq> c"
  with False have "dropWhile (\<lambda>x. x = c) s = s" "dropWhile (\<lambda>x. x = c) (rev s) = rev s"
    by (auto simp: dropWhile_eq_self_iff hd_rev)
  then show ?thesis by (simp add: trim_char_def)
qed (simp add: trim_char_def)

lemma trim_char_spaces:
  "trim_char c (replicate m c @ s @ replicate n c) = trim_char c s"
proof -
  have d: "dropWhile (\<lambda>x. x = c) (replicate k c @ t) = dropWhile (\<lambda>x. x = c) t" for k t
    by (induction k) auto
  show ?thesis
  proof (cases "\<forall>x\<in>set s. x = c")
    case True
    then have "s = replicate (length s) c" by (simp add: replicate_eqI)
    then have "replicate m c @ s @ replicate n c = replicate (m + length s + n) c"
      by (metis replicate_add append.assoc)
    moreover have "trim_char c (replicate k c) = []" for k
      using d[of k "[]"] by (simp add: trim_char_def)
    ultimately show ?thesis using \<open>s = replicate (length s) c\<close> by metis
  next
    case False
    then have "dropWhile (\<lambda>x. x = c) (s @ t) = dropWhile (\<lambda>x. x = c) s @ t" for t
      by (auto simp: dropWhile_append)
    then show ?thesis by (simp add: trim_char_def d)
  qed
qed

subsection \<open>Unsigned decimal numbers\<close>

definition digit_val :: "char \<Rightarrow> int" where
  "digit_val c = of_char c - 48"

definition is_digit :: "char \<Rightarrow> bool" where
  "is_digit c \<longleftrightarrow> 48 \<le> (of_char c :: int) \<and> (of_char c :: int) \<le> 57"

definition num_syntax :: fault where "num_syntax = Err (ErrMsg ''invalid syntax'')"
definition num_range :: fault where "num_range = Err (ErrMsg ''value out of range'')"

fun parse_uint_from :: "int \<Rightarrow> string \<Rightarrow> int res" where
  "parse_uint_from n [] = Inr n"
| "parse_uint_from n (c # cs) =
     (if \<not> is_digit c then Inl num_syntax
      else if 10 * n + digit_val c \<ge> 2 ^ 64 then Inl num_range
      else parse_uint_from (10 * n + digit_val c) cs)"

definition parse_uint :: "string \<Rightarrow> uint64 res" where
  "parse_uint s =
     (if s = [] then Inl num_syntax
      else case parse_uint_from 0 s of Inl e \<Rightarrow> Inl e | Inr n \<Rightarrow> Inr (of_int n))"

definition digit_char :: "int \<Rightarrow> char" where
  "digit_char d = char_of (48 + d)"

text \<open>The decimal digits of a number that is not negative.\<close>

function dec_digits :: "int \<Rightarrow> string" where
  "dec_digits n = (if n < 10 then [digit_char n] else dec_digits (n div 10) @ [digit_char (n mod 10)])"
  by pat_completeness auto
termination
  by (relation "measure nat") auto

declare dec_digits.simps [simp del]

text \<open>\<open>strconv.FormatUint(n, 10)\<close>.\<close>

definition format_uint :: "uint64 \<Rightarrow> string" where
  "format_uint w = dec_digits (uint w)"

text \<open>\<open>strconv.Itoa\<close> and \<open>strconv.FormatInt(_, 10)\<close>.\<close>

definition format_int :: "int \<Rightarrow> string" where
  "format_int i = (if i < 0 then CHR ''-'' # dec_digits (- i) else dec_digits i)"

lemma of_char_digit: "0 \<le> d \<Longrightarrow> d < 10 \<Longrightarrow> of_char (digit_char d) = 48 + d"
  by (simp add: digit_char_def)

lemma digit_char_val: "0 \<le> d \<Longrightarrow> d < 10 \<Longrightarrow> is_digit (digit_char d) \<and> digit_val (digit_char d) = d"
  by (simp add: is_digit_def digit_val_def of_char_digit)

lemma parse_uint_from_append:
  "parse_uint_from m s = Inr n \<Longrightarrow> parse_uint_from m (s @ t) = parse_uint_from n t"
  by (induction m s rule: parse_uint_from.induct) (auto split: if_splits)

lemma parse_dec_digits: "0 \<le> n \<Longrightarrow> n < 2 ^ 64 \<Longrightarrow> parse_uint_from 0 (dec_digits n) = Inr n"
proof (induction n rule: dec_digits.induct)
  case (1 n)
  show ?case
  proof (cases "n < 10")
    case True
    then show ?thesis using 1 digit_char_val[of n] by (simp add: dec_digits.simps[of n])
  next
    case False
    with 1 have "parse_uint_from 0 (dec_digits (n div 10)) = Inr (n div 10)" by simp
    from parse_uint_from_append[OF this] False 1(3) show ?thesis
      using digit_char_val[of "n mod 10"] by (simp add: dec_digits.simps[of n])
  qed
qed

lemma dec_digits_nonempty [simp]: "dec_digits n \<noteq> []"
  by (subst dec_digits.simps) simp

lemma dec_digits_chars: "0 \<le> n \<Longrightarrow> c \<in> set (dec_digits n) \<Longrightarrow> is_digit c"
proof (induction n rule: dec_digits.induct)
  case (1 n)
  then show ?case
    using digit_char_val[of n] digit_char_val[of "n mod 10"]
    by (auto simp: dec_digits.simps[of n] split: if_splits)
qed

lemma parse_format_uint [simp]: "parse_uint (format_uint w) = Inr w"
proof -
  have "uint w < 2 ^ 64" using unsigned_less[of w, where ?'a = int] by simp
  then show ?thesis by (simp add: parse_uint_def format_uint_def parse_dec_digits)
qed

end
