(* ===== verification/GoFloat.thy ===== *)
theory GoFloat
  imports GoStrconv
begin

text \<open>
  \<open>strconv.ParseFloat(s, 64)\<close> of Go 1.18 and the conversions to \<open>float32\<close>. A number is read
  as an exact fraction and rounded once to the format's bit pattern, to nearest, ties to even;
  this is what the library promises for both decimal and hexadecimal floats.
\<close>

subsection \<open>Rounding a fraction to a binary format\<close>

function bit_length :: "int \<Rightarrow> int" where
  "bit_length n = (if n \<le> 0 then 0 else 1 + bit_length (n div 2))"
  by pat_completeness auto
termination
  by (relation "measure nat") auto

declare bit_length.simps [simp del]

definition div_half_even :: "int \<Rightarrow> int \<Rightarrow> int" where
  "div_half_even a b =
     (let q = a div b; r = a mod b
      in if 2 * r > b \<or> (2 * r = b \<and> odd q) then q + 1 else q)"

text \<open>
  The bit pattern (without sign) of the number nearest to \<open>num / den\<close> in the format with \<open>p\<close>
  bits of precision and the given bias. Too large a number gives the pattern of infinity or above.
\<close>

definition round_bits :: "int \<Rightarrow> int \<Rightarrow> int \<Rightarrow> int \<Rightarrow> int" where
  "round_bits p bias num den =
     (if num = 0 then 0
      else let k = bit_length num - bit_length den;
               e0 = (if num * 2 ^ nat (- k) \<ge> den * 2 ^ nat k then k else k - 1);
               e = max e0 (1 - bias);
               u = e - (p - 1);
               m = div_half_even (num * 2 ^ nat (- u)) (den * 2 ^ nat u)
           in (e + bias - 1) * 2 ^ nat (p - 1) + m)"

definition f64_inf :: int where "f64_inf = 2047 * 2 ^ 52"
definition f32_inf :: int where "f32_inf = 255 * 2 ^ 23"

definition f64_sign :: "bool \<Rightarrow> int \<Rightarrow> float64" where
  "f64_sign neg b = of_int (if neg then b + 2 ^ 63 else b)"

definition f32_sign :: "bool \<Rightarrow> int \<Rightarrow> float32" where
  "f32_sign neg b = of_int (if neg then b + 2 ^ 31 else b)"

subsection \<open>Reading a floating-point number\<close>

definition lower :: "char \<Rightarrow> char" where
  "lower c = (let n = of_char c :: int in if 65 \<le> n \<and> n \<le> 90 then char_of (n + 32) else c)"

definition is_hex_letter :: "char \<Rightarrow> bool" where
  "is_hex_letter c = (let n = of_char (lower c) :: int in 97 \<le> n \<and> n \<le> 102)"

definition hex_val :: "char \<Rightarrow> int" where
  "hex_val c = (if is_digit c then digit_val c else of_char (lower c) - 87)"

text \<open>The optional sign.\<close>

definition read_sign :: "string \<Rightarrow> bool \<times> string" where
  "read_sign s =
     (case s of
        c # cs \<Rightarrow> if c = CHR ''+'' then (False, cs) else if c = CHR ''-'' then (True, cs) else (False, s)
      | [] \<Rightarrow> (False, s))"

text \<open>Infinities and NaN, in any letter case; NaN takes no sign.\<close>

definition parse_special :: "string \<Rightarrow> float64 option" where
  "parse_special s =
     (case read_sign s of (neg, t) \<Rightarrow>
        if map lower t \<in> {''inf'', ''infinity''} then Some (f64_sign neg f64_inf)
        else if map lower s = ''nan'' then Some (of_int (f64_inf + 2 ^ 51 + 1))
        else None)"

text \<open>
  Where an underscore may stand: after a digit (or the base prefix) and before one. \<open>saw\<close> is
  the class of the last character: 0 for a digit, 1 for an underscore, 2 for another one.
\<close>

fun underscores_ok :: "bool \<Rightarrow> nat \<Rightarrow> string \<Rightarrow> bool" where
  "underscores_ok hex saw [] = (saw \<noteq> 1)"
| "underscores_ok hex saw (c # cs) =
     (if is_digit c \<or> hex \<and> is_hex_letter c then underscores_ok hex 0 cs
      else if c = CHR ''_'' then saw = 0 \<and> underscores_ok hex 1 cs
      else saw \<noteq> 1 \<and> underscores_ok hex 2 cs)"

text \<open>
  The digits before and after the point: the mantissa so far, the digits read, the digits behind
  the point, whether a point was seen; the rest of the string is what follows the number.
\<close>

fun read_mantissa :: "bool \<Rightarrow> int \<Rightarrow> int \<Rightarrow> int \<Rightarrow> bool \<Rightarrow> string \<Rightarrow> int \<times> int \<times> int \<times> string" where
  "read_mantissa hex m nd frac dot [] = (m, nd, frac, [])"
| "read_mantissa hex m nd frac dot (c # cs) =
     (if c = CHR ''_'' then read_mantissa hex m nd frac dot cs
      else if c = CHR ''.'' then
        (if dot then (m, nd, frac, c # cs) else read_mantissa hex m nd frac True cs)
      else if is_digit c \<or> hex \<and> is_hex_letter c then
        read_mantissa hex ((if hex then 16 else 10) * m + hex_val c) (nd + 1)
          (if dot then frac + 1 else frac) dot cs
      else (m, nd, frac, c # cs))"

text \<open>The digits of an exponent, which stops growing at 10000.\<close>

fun read_exponent :: "int \<Rightarrow> string \<Rightarrow> int \<times> string" where
  "read_exponent e [] = (e, [])"
| "read_exponent e (c # cs) =
     (if c = CHR ''_'' then read_exponent e cs
      else if is_digit c then read_exponent (if e < 10000 then 10 * e + digit_val c else e) cs
      else (e, c # cs))"

text \<open>\<open>Some (negative, mantissa, exponent, hexadecimal)\<close> for a well-formed number.\<close>

definition read_float :: "string \<Rightarrow> (bool \<times> int \<times> int \<times> bool) option" where
  "read_float s =
     (case read_sign s of (neg, t) \<Rightarrow>
        let hex = (length t > 2 \<and> map lower (take 2 t) = ''0x'');
            body = (if hex then drop 2 t else t)
        in case read_mantissa hex 0 0 0 False body of (m, nd, frac, rest) \<Rightarrow>
          if nd = 0 \<or> (CHR ''_'' \<in> set s \<and> \<not> underscores_ok hex (if hex then 0 else 2) body) then None
          else case rest of
            [] \<Rightarrow> if hex then None else Some (neg, m, - frac, hex)
          | c # cs \<Rightarrow>
              if lower c \<noteq> (if hex then CHR ''p'' else CHR ''e'') then None
              else case read_sign cs of (eneg, es) \<Rightarrow>
                if es = [] \<or> \<not> is_digit (hd es) then None
                else case read_exponent 0 es of (e, rest') \<Rightarrow>
                  if rest' \<noteq> [] then None
                  else Some (neg, m, (if eneg then - e else e) - (if hex then 4 * frac else frac), hex))"

definition parse_float :: "string \<Rightarrow> float64 res" where
  "parse_float s =
     (case parse_special s of
        Some w \<Rightarrow> Inr w
      | None \<Rightarrow> (case read_float s of
          None \<Rightarrow> Inl num_syntax
        | Some (neg, m, e, hex) \<Rightarrow>
            let base = (if hex then 2 else 10);
                b = round_bits 53 1023 (m * base ^ nat e) (base ^ nat (- e))
            in if b \<ge> f64_inf then Inl num_range else Inr (f64_sign neg b)))"

subsection \<open>Conversions to float32\<close>

definition f32_of_uint :: "uint64 \<Rightarrow> float32" where
  "f32_of_uint w = f32_sign False (round_bits 24 127 (uint w) 1)"

definition f32_of_f64 :: "float64 \<Rightarrow> float32" where
  "f32_of_f64 w =
     (let n = uint w; neg = (n \<ge> 2 ^ 63); b = n mod 2 ^ 63; ex = b div 2 ^ 52; fr = b mod 2 ^ 52
      in if b > f64_inf then f32_sign neg (f32_inf + 2 ^ 22 + fr div 2 ^ 29 mod 2 ^ 22)
         else if b = f64_inf then f32_sign neg f32_inf
         else let m = (if ex = 0 then fr else fr + 2 ^ 52);
                  e = (if ex = 0 then - 1074 else ex - 1075)
              in f32_sign neg (min f32_inf (round_bits 24 127 (m * 2 ^ nat e) (2 ^ nat (- e)))))"

end
