(* ===== verification/Stats.thy ===== *)
theory Stats
  imports GoFloat
begin

unbundle bit_operations_syntax

text \<open>
  The parser of AFL's \<open>fuzzer_stats\<close> file (\<open>types/stats.go\<close>): \<open>FuzzerStats\<close> and
  \<open>ParseStats\<close>, with its bit mask of the fields seen, its two kinds of error and its panic on
  a line without a colon. The lemmas reduce the mask to the set of keys seen and the loop to a
  lookup of the last line of each key.
\<close>

subsection \<open>Data\<close>

record FuzzerStats =
  StartTime :: uint64
  LastUpdate :: uint64
  FuzzerPid :: uint64
  CyclesDone :: uint64
  ExecsDone :: uint64
  ExecsPerSec :: float64
  PathsTotal :: uint64
  PathsFavored :: uint64
  PathsFound :: uint64
  PathsImported :: uint64
  MaxDepth :: uint64
  CurPath :: uint64
  PendingFavs :: uint64
  PendingTotal :: uint64
  VariablePaths :: uint64
  BitmapCvg :: float64
  UniqueCrashes :: uint64
  UniqueHangs :: uint64
  LastPath :: uint64
  LastCrash :: uint64
  LastHang :: uint64
  ExecTimeout :: uint64
  AflBanner :: string
  AflVersion :: string
  CommandLine :: string

text \<open>The variables before the loop: all zero.\<close>

definition zero_stats :: FuzzerStats where
  "zero_stats = \<lparr>StartTime = 0, LastUpdate = 0, FuzzerPid = 0, CyclesDone = 0, ExecsDone = 0, ExecsPerSec = 0, PathsTotal = 0, PathsFavored = 0, PathsFound = 0, PathsImported = 0, MaxDepth = 0, CurPath = 0, PendingFavs = 0, PendingTotal = 0, VariablePaths = 0, BitmapCvg = 0, UniqueCrashes = 0, UniqueHangs = 0, LastPath = 0, LastCrash = 0, LastHang = 0, ExecTimeout = 0, AflBanner = [], AflVersion = [], CommandLine = []\<rparr>"

subsection \<open>The parser\<close>

text \<open>The state of the loop: the mask \<open>fields_covered\<close> and the values read.\<close>

type_synonym parse_state = "uint64 \<times> FuzzerStats"

definition invalid_value :: "string \<Rightarrow> string \<Rightarrow> fault" where
  "invalid_value key value = Err (ErrMsg (''Invalid value for '' @ key @ '': '' @ value))"

definition set_uint ::
  "nat \<Rightarrow> (uint64 \<Rightarrow> FuzzerStats \<Rightarrow> FuzzerStats) \<Rightarrow> string \<Rightarrow> string \<Rightarrow> parse_state \<Rightarrow> parse_state res" where
  "set_uint n upd key value ps =
     (case parse_uint value of
        Inl _ \<Rightarrow> Inl (invalid_value key value)
      | Inr x \<Rightarrow> Inr (fst ps OR push_bit n 1, upd x (snd ps)))"

definition set_float ::
  "nat \<Rightarrow> (float64 \<Rightarrow> FuzzerStats \<Rightarrow> FuzzerStats) \<Rightarrow> string \<Rightarrow> string \<Rightarrow> parse_state \<Rightarrow> parse_state res" where
  "set_float n upd key value ps =
     (case parse_float value of
        Inl _ \<Rightarrow> Inl (invalid_value key value)
      | Inr x \<Rightarrow> Inr (fst ps OR push_bit n 1, upd x (snd ps)))"

definition set_string ::
  "nat \<Rightarrow> (string \<Rightarrow> FuzzerStats \<Rightarrow> FuzzerStats) \<Rightarrow> string \<Rightarrow> string \<Rightarrow> parse_state \<Rightarrow> parse_state res" where
  "set_string n upd key value ps = Inr (fst ps OR push_bit n 1, upd value (snd ps))"

text \<open>The switch over the key. A key it does not know is ignored.\<close>

definition set_field :: "string \<Rightarrow> string \<Rightarrow> parse_state \<Rightarrow> parse_state res" where
  "set_field key value ps =
    (if key = ''start_time'' then set_uint 0 (\<lambda>x s. s\<lparr>StartTime := x\<rparr>) key value ps
     else if key = ''last_update'' then set_uint 1 (\<lambda>x s. s\<lparr>LastUpdate := x\<rparr>) key value ps
     else if key = ''fuzzer_pid'' then set_uint 2 (\<lambda>x s. s\<lparr>FuzzerPid := x\<rparr>) key value ps
     else if key = ''cycles_done'' then set_uint 3 (\<lambda>x s. s\<lparr>CyclesDone := x\<rparr>) key value ps
     else if key = ''execs_done'' then set_uint 4 (\<lambda>x s. s\<lparr>ExecsDone := x\<rparr>) key value ps
     else if key = ''execs_per_sec'' then set_float 5 (\<lambda>x s. s\<lparr>ExecsPerSec := x\<rparr>) key value ps
     else if key = ''paths_total'' then set_uint 6 (\<lambda>x s. s\<lparr>PathsTotal := x\<rparr>) key value ps
     else if key = ''paths_favored'' then set_uint 7 (\<lambda>x s. s\<lparr>PathsFavored := x\<rparr>) key value ps
     else if key = ''paths_found'' then set_uint 8 (\<lambda>x s. s\<lparr>PathsFound := x\<rparr>) key value ps
     else if key = ''paths_imported'' then set_uint 9 (\<lambda>x s. s\<lparr>PathsImported := x\<rparr>) key value ps
     else if key = ''max_depth'' then set_uint 10 (\<lambda>x s. s\<lparr>MaxDepth := x\<rparr>) key value ps
     else if key = ''cur_path'' then set_uint 11 (\<lambda>x s. s\<lparr>CurPath := x\<rparr>) key value ps
     else if key = ''pending_favs'' then set_uint 12 (\<lambda>x s. s\<lparr>PendingFavs := x\<rparr>) key value ps
     else if key = ''pending_total'' then set_uint 13 (\<lambda>x s. s\<lparr>PendingTotal := x\<rparr>) key value ps
     else if key = ''variable_paths'' then set_uint 14 (\<lambda>x s. s\<lparr>VariablePaths := x\<rparr>) key value ps
     else if key = ''bitmap_cvg'' then set_float 15 (\<lambda>x s. s\<lparr>BitmapCvg := x\<rparr>) key (trim_char (CHR ''%'') value) ps
     else if key = ''unique_crashes'' then set_uint 16 (\<lambda>x s. s\<lparr>UniqueCrashes := x\<rparr>) key value ps
     else if key = ''unique_hangs'' then set_uint 17 (\<lambda>x s. s\<lparr>UniqueHangs := x\<rparr>) key value ps
     else if key = ''last_path'' then set_uint 18 (\<lambda>x s. s\<lparr>LastPath := x\<rparr>) key value ps
     else if key = ''last_crash'' then set_uint 19 (\<lambda>x s. s\<lparr>LastCrash := x\<rparr>) key value ps
     else if key = ''last_hang'' then set_uint 20 (\<lambda>x s. s\<lparr>LastHang := x\<rparr>) key value ps
     else if key = ''exec_timeout'' then set_uint 21 (\<lambda>x s. s\<lparr>ExecTimeout := x\<rparr>) key value ps
     else if key = ''afl_banner'' then set_string 22 (\<lambda>x s. s\<lparr>AflBanner := x\<rparr>) key value ps
     else if key = ''afl_version'' then set_string 23 (\<lambda>x s. s\<lparr>AflVersion := x\<rparr>) key value ps
     else if key = ''command_line'' then set_string 24 (\<lambda>x s. s\<lparr>CommandLine := x\<rparr>) key value ps
     else Inr ps)"

definition parse_line :: "string \<Rightarrow> parse_state \<Rightarrow> parse_state res" where
  "parse_line line ps =
     (if line = [] then Inr ps
      else case split_n2 (CHR '':'') line of
        key # value # _ \<Rightarrow> set_field (trim_char (CHR '' '') key) (trim_char (CHR '' '') value) ps
      | _ \<Rightarrow> Inl (Panic ''index out of range [1] with length 1''))"

fun parse_lines :: "string list \<Rightarrow> parse_state \<Rightarrow> parse_state res" where
  "parse_lines [] ps = Inr ps"
| "parse_lines (l # ls) ps =
     (case parse_line l ps of Inl e \<Rightarrow> Inl e | Inr ps' \<Rightarrow> parse_lines ls ps')"

definition ParseStats :: "string \<Rightarrow> FuzzerStats res" where
  "ParseStats stats =
     (case parse_lines (split_on (CHR ''\<newline>'') stats) (0, zero_stats) of
        Inl e \<Rightarrow> Inl e
      | Inr (fields_covered, st) \<Rightarrow>
          (if 33554431 \<noteq> fields_covered then Inl (Err (ErrMsg ''Missing fields in stats''))
           else Inr st))"

subsection \<open>Keys and values of a statistics file\<close>

definition stat_keys :: "string list" where
  "stat_keys = [''start_time'', ''last_update'', ''fuzzer_pid'', ''cycles_done'', ''execs_done'', ''execs_per_sec'', ''paths_total'', ''paths_favored'', ''paths_found'', ''paths_imported'', ''max_depth'', ''cur_path'', ''pending_favs'', ''pending_total'', ''variable_paths'', ''bitmap_cvg'', ''unique_crashes'', ''unique_hangs'', ''last_path'', ''last_crash'', ''last_hang'', ''exec_timeout'', ''afl_banner'', ''afl_version'', ''command_line'']"

definition float_keys :: "string list" where
  "float_keys = [''execs_per_sec'', ''bitmap_cvg'']"

definition text_keys :: "string list" where
  "text_keys = [''afl_banner'', ''afl_version'', ''command_line'']"

text \<open>The value the parser reads for a key is acceptable.\<close>

definition float_text :: "string \<Rightarrow> string \<Rightarrow> string" where
  "float_text key value = (if key = ''bitmap_cvg'' then trim_char (CHR ''%'') value else value)"

definition value_ok :: "string \<Rightarrow> string \<Rightarrow> bool" where
  "value_ok key value =
     (if key \<in> set float_keys then is_ok (parse_float (float_text key value))
      else if key \<in> set text_keys then True
      else if key \<in> set stat_keys then is_ok (parse_uint value)
      else True)"

text \<open>A line's key and value, \<open>None\<close> for a line without a colon.\<close>

definition line_entry :: "string \<Rightarrow> (string \<times> string) option" where
  "line_entry line =
     (case split_n2 (CHR '':'') line of
        key # value # _ \<Rightarrow> Some (trim_char (CHR '' '') key, trim_char (CHR '' '') value)
      | _ \<Rightarrow> None)"

definition stat_lines :: "string \<Rightarrow> string list" where
  "stat_lines stats = filter (\<lambda>l. l \<noteq> []) (split_on (CHR ''\<newline>'') stats)"

definition line_ok :: "string \<Rightarrow> bool" where
  "line_ok l = (case line_entry l of None \<Rightarrow> False | Some (k, v) \<Rightarrow> value_ok k v)"

definition entries :: "string list \<Rightarrow> (string \<times> string) list" where
  "entries ls = List.map_filter line_entry ls"

text \<open>The reference: the statistics as a function of the last value of every key.\<close>

definition uint_of :: "string option \<Rightarrow> uint64" where
  "uint_of v = (case v of None \<Rightarrow> 0 | Some s \<Rightarrow> (case parse_uint s of Inl _ \<Rightarrow> 0 | Inr x \<Rightarrow> x))"

definition float_of :: "string \<Rightarrow> string option \<Rightarrow> float64" where
  "float_of key v =
     (case v of None \<Rightarrow> 0 | Some s \<Rightarrow> (case parse_float (float_text key s) of Inl _ \<Rightarrow> 0 | Inr x \<Rightarrow> x))"

definition string_of :: "string option \<Rightarrow> string" where
  "string_of v = (case v of None \<Rightarrow> [] | Some s \<Rightarrow> s)"

definition stats_of :: "(string \<Rightarrow> string option) \<Rightarrow> FuzzerStats" where
  "stats_of m = \<lparr>
     StartTime = uint_of (m ''start_time''),
     LastUpdate = uint_of (m ''last_update''),
     FuzzerPid = uint_of (m ''fuzzer_pid''),
     CyclesDone = uint_of (m ''cycles_done''),
     ExecsDone = uint_of (m ''execs_done''),
     ExecsPerSec = float_of ''execs_per_sec'' (m ''execs_per_sec''),
     PathsTotal = uint_of (m ''paths_total''),
     PathsFavored = uint_of (m ''paths_favored''),
     PathsFound = uint_of (m ''paths_found''),
     PathsImported = uint_of (m ''paths_imported''),
     MaxDepth = uint_of (m ''max_depth''),
     CurPath = uint_of (m ''cur_path''),
     PendingFavs = uint_of (m ''pending_favs''),
     PendingTotal = uint_of (m ''pending_total''),
     VariablePaths = uint_of (m ''variable_paths''),
     BitmapCvg = float_of ''bitmap_cvg'' (m ''bitmap_cvg''),
     UniqueCrashes = uint_of (m ''unique_crashes''),
     UniqueHangs = uint_of (m ''unique_hangs''),
     LastPath = uint_of (m ''last_path''),
     LastCrash = uint_of (m ''last_crash''),
     LastHang = uint_of (m ''last_hang''),
     ExecTimeout = uint_of (m ''exec_timeout''),
     AflBanner = string_of (m ''afl_banner''),
     AflVersion = string_of (m ''afl_version''),
     CommandLine = string_of (m ''command_line'')\<rparr>"

subsection \<open>One line\<close>

definition key_index :: "string \<Rightarrow> nat" where
  "key_index k = length (takeWhile (\<lambda>x. x \<noteq> k) stat_keys)"

lemma stats_of_empty: "stats_of Map.empty = zero_stats"
  by (simp add: stats_of_def zero_stats_def uint_of_def float_of_def string_of_def)

lemmas stat_key_defs = stat_keys_def float_keys_def text_keys_def

lemmas set_field_defs = set_field_def set_uint_def set_float_def set_string_def

lemma set_field_unknown: "k \<notin> set stat_keys \<Longrightarrow> set_field k v ps = Inr ps"
  by (simp add: stat_key_defs set_field_def)

lemma value_ok_unknown: "k \<notin> set stat_keys \<Longrightarrow> value_ok k v"
  by (simp add: value_ok_def) (simp add: stat_key_defs)

lemma stats_of_cong: "(\<And>k. k \<in> set stat_keys \<Longrightarrow> m k = m' k) \<Longrightarrow> stats_of m = stats_of m'"
  by (simp add: stat_keys_def stats_of_def)

lemma stats_of_unknown: "k \<notin> set stat_keys \<Longrightarrow> stats_of (m(k \<mapsto> v)) = stats_of m"
  by (rule stats_of_cong) auto

lemma set_field_known:
  "k \<in> set stat_keys \<Longrightarrow> set_field k v (c, stats_of m) =
     (if value_ok k v then Inr (c OR push_bit (key_index k) 1, stats_of (m(k \<mapsto> v)))
      else Inl (invalid_value k (float_text k v)))"
  unfolding stat_keys_def list.set insert_iff empty_iff
  by (elim disjE, simp_all only:)
    (simp_all add: set_field_defs value_ok_def stat_key_defs key_index_def stats_of_def uint_of_def
      float_of_def string_of_def float_text_def is_ok_def split: sum.split)

text \<open>The mask after a key was seen.\<close>

definition mark :: "string \<Rightarrow> uint64 \<Rightarrow> uint64" where
  "mark k c = (if k \<in> set stat_keys then c OR push_bit (key_index k) 1 else c)"

definition line_fault :: "string \<Rightarrow> fault" where
  "line_fault l =
     (case line_entry l of
        None \<Rightarrow> Panic ''index out of range [1] with length 1''
      | Some (k, v) \<Rightarrow> invalid_value k (float_text k v))"

lemma set_field_stats_of:
  "set_field k v (c, stats_of m) =
     (if value_ok k v then Inr (mark k c, stats_of (m(k \<mapsto> v)))
      else Inl (invalid_value k (float_text k v)))"
  by (cases "k \<in> set stat_keys")
    (simp_all add: set_field_known set_field_unknown value_ok_unknown stats_of_unknown mark_def)

lemma parse_line_stats_of:
  assumes "l \<noteq> []"
  shows "parse_line l (c, stats_of m) =
    (if line_ok l
     then Inr (mark (fst (the (line_entry l))) c,
       stats_of (m(fst (the (line_entry l)) \<mapsto> snd (the (line_entry l)))))
     else Inl (line_fault l))"
  using split_n2_cases[of "CHR '':''" l] assms
  by (auto simp: parse_line_def line_ok_def line_fault_def line_entry_def set_field_stats_of)

subsection \<open>The whole file\<close>

text \<open>The first line the parser gives up on.\<close>

definition first_bad :: "string list \<Rightarrow> string option" where
  "first_bad ls = find (\<lambda>l. l \<noteq> [] \<and> \<not> line_ok l) ls"

definition file_entries :: "string list \<Rightarrow> (string \<times> string) list" where
  "file_entries ls = map (\<lambda>l. the (line_entry l)) (filter (\<lambda>l. l \<noteq> []) ls)"

lemma first_bad_Cons:
  "first_bad (l # ls) = (if l \<noteq> [] \<and> \<not> line_ok l then Some l else first_bad ls)"
  by (simp add: first_bad_def)

lemma file_entries_Cons:
  "file_entries (l # ls) = (if l = [] then file_entries ls else the (line_entry l) # file_entries ls)"
  by (simp add: file_entries_def)

lemma parse_lines_stats_of:
  "parse_lines ls (c, stats_of m) =
     (case first_bad ls of
        Some l \<Rightarrow> Inl (line_fault l)
      | None \<Rightarrow> Inr (fold mark (map fst (file_entries ls)) c, stats_of (m ++ map_of (rev (file_entries ls)))))"
proof (induction ls arbitrary: c m)
  case Nil
  then show ?case by (simp add: first_bad_def file_entries_def)
next
  case (Cons l ls)
  show ?case
  proof (cases "l = []")
    case True
    then show ?thesis using Cons[of c m]
      by (simp add: parse_line_def first_bad_Cons file_entries_Cons split: option.split)
  next
    case False
    obtain k v where "the (line_entry l) = (k, v)" by fastforce
    with False show ?thesis
      by (simp add: parse_line_stats_of Cons first_bad_Cons file_entries_Cons split: option.split)
  qed
qed

lemma stat_keys_length [simp]: "length stat_keys = 25"
  by (simp add: stat_keys_def)

lemma stat_keys_distinct: "distinct stat_keys"
  by (simp add: stat_keys_def)

lemma length_takeWhile_member: "k \<in> set xs \<Longrightarrow> length (takeWhile (\<lambda>x. x \<noteq> k) xs) < length xs"
  by (induction xs) auto

lemma key_index_less: "k \<in> set stat_keys \<Longrightarrow> key_index k < 25"
  using length_takeWhile_member[of k stat_keys] by (simp add: key_index_def)

lemma key_index_nth: "k \<in> set stat_keys \<Longrightarrow> stat_keys ! key_index k = k"
  using nth_length_takeWhile[of "\<lambda>x. x \<noteq> k" stat_keys] length_takeWhile_member[of k stat_keys]
  by (auto simp: key_index_def)

lemma bit_fold_mark:
  "bit (fold mark ks c) i \<longleftrightarrow> bit c i \<or> (\<exists>k\<in>set ks \<inter> set stat_keys. key_index k = i)"
proof (induction ks arbitrary: c)
  case Nil
  then show ?case by simp
next
  case (Cons k ks)
  have "bit (mark k c) i \<longleftrightarrow> bit c i \<or> k \<in> set stat_keys \<and> key_index k = i"
    using key_index_less[of k] by (auto simp: mark_def bit_simps)
  with Cons show ?case by auto
qed

text \<open>
  33554431 is the mask with the 25 bits of the 25 keys, so the test at the end of the loop
  succeeds exactly when every key was seen.
\<close>

lemma mask_complete: "fold mark ks 0 = 33554431 \<longleftrightarrow> set stat_keys \<subseteq> set ks"
proof -
  have m: "(33554431 :: uint64) = mask 25" by (simp add: mask_eq_exp_minus_1)
  have "fold mark ks 0 = 33554431 \<longleftrightarrow>
      (\<forall>i. (\<exists>k\<in>set ks \<inter> set stat_keys. key_index k = i) \<longleftrightarrow> i < 25)"
    unfolding m bit_eq_iff[of "fold mark ks 0"] bit_fold_mark bit_mask_iff
    by (intro all_cong1) (auto dest: key_index_less)
  also have "\<dots> \<longleftrightarrow> set stat_keys \<subseteq> set ks"
  proof
    assume L: "\<forall>i. (\<exists>k\<in>set ks \<inter> set stat_keys. key_index k = i) \<longleftrightarrow> i < 25"
    show "set stat_keys \<subseteq> set ks"
    proof
      fix k assume k: "k \<in> set stat_keys"
      with L key_index_less obtain j where "j \<in> set ks \<inter> set stat_keys" "key_index j = key_index k"
        by blast
      with k have "j = k" by (metis Int_iff key_index_nth)
      with \<open>j \<in> _\<close> show "k \<in> set ks" by simp
    qed
  next
    assume R: "set stat_keys \<subseteq> set ks"
    show "\<forall>i. (\<exists>k\<in>set ks \<inter> set stat_keys. key_index k = i) \<longleftrightarrow> i < 25"
    proof (intro allI iffI)
      fix i assume "\<exists>k\<in>set ks \<inter> set stat_keys. key_index k = i"
      then show "i < 25" using key_index_less by blast
    next
      fix i :: nat assume i: "i < 25"
      then have "stat_keys ! i \<in> set stat_keys" by simp
      moreover from this have "key_index (stat_keys ! i) = i"
        using key_index_nth key_index_less stat_keys_distinct i
        by (metis nth_eq_iff_index_eq stat_keys_length)
      ultimately show "\<exists>k\<in>set ks \<inter> set stat_keys. key_index k = i" using R by blast
    qed
  qed
  finally show ?thesis .
qed

subsection \<open>Properties\<close>

text \<open>The reference parser: look for a bad line, then for a missing key, then for the last values.\<close>

definition ParseStats_ref :: "string \<Rightarrow> FuzzerStats res" where
  "ParseStats_ref stats =
     (let ls = split_on (CHR ''\<newline>'') stats
      in case first_bad ls of
           Some l \<Rightarrow> Inl (line_fault l)
         | None \<Rightarrow>
             (if set stat_keys \<subseteq> set (map fst (file_entries ls))
              then Inr (stats_of (map_of (rev (file_entries ls))))
              else Inl (Err (ErrMsg ''Missing fields in stats''))))"

lemma ParseStats_eq_ref': "ParseStats stats = ParseStats_ref stats"
  using parse_lines_stats_of[of "split_on (CHR ''\<newline>'') stats" 0 Map.empty]
  by (auto simp: ParseStats_def ParseStats_ref_def Let_def stats_of_empty mask_complete
      split: option.split)

text \<open>
  C13: ParseStats is the reference parser. It fails at the first non-empty line without a colon
  (a panic) or with a value its key does not accept (an error naming key and value); otherwise
  it fails exactly when one of the 25 keys is missing; otherwise every field is the value of
  the last line with its key, and lines with other keys are ignored.
\<close>

theorem ParseStats_eq_ref: "ParseStats stats = ParseStats_ref stats"
  by (rule ParseStats_eq_ref')

text \<open>
  ParseStats panics exactly when the first line it gives up on has no colon.
\<close>

theorem ParseStats_panics_iff:
  "(\<exists>msg. ParseStats stats = Inl (Panic msg)) \<longleftrightarrow>
   (\<exists>l. first_bad (split_on (CHR ''\<newline>'') stats) = Some l \<and> CHR '':'' \<notin> set l)"
proof -
  have "(\<exists>msg. line_fault l = Panic msg) \<longleftrightarrow> CHR '':'' \<notin> set l" for l
    using split_n2_cases[of "CHR '':''" l]
    by (auto simp: line_fault_def line_entry_def invalid_value_def split: option.splits)
  then show ?thesis
    by (auto simp: ParseStats_eq_ref' Let_def ParseStats_ref_def split: option.splits)
qed

text \<open>The file AFL writes: one line per key, padded to 15 columns, a colon, a space, the value.\<close>

definition render_line :: "(string \<Rightarrow> string) \<Rightarrow> string \<Rightarrow> string" where
  "render_line vals k = k @ replicate (15 - length k) (CHR '' '') @ '': '' @ vals k"

definition render_stats :: "(string \<Rightarrow> string) \<Rightarrow> string" where
  "render_stats vals = concat (map (\<lambda>k. render_line vals k @ [CHR ''\<newline>'']) stat_keys)"

definition vals_ok :: "(string \<Rightarrow> string) \<Rightarrow> bool" where
  "vals_ok vals = list_all (\<lambda>k. CHR ''\<newline>'' \<notin> set (vals k) \<and> trim_char (CHR '' '') (vals k) = vals k \<and>
     value_ok k (vals k)) stat_keys"

lemma split_on_lines:
  "(\<forall>l\<in>set ls. c \<notin> set l) \<Longrightarrow> split_on c (concat (map (\<lambda>l. l @ [c]) ls)) = ls @ [[]]"
  by (induction ls) auto

lemma stat_key_chars:
  "k \<in> set stat_keys \<Longrightarrow> CHR '':'' \<notin> set k \<and> CHR ''\<newline>'' \<notin> set k \<and> k \<noteq> [] \<and> trim_char (CHR '' '') k = k"
proof -
  have "list_all (\<lambda>k. CHR '':'' \<notin> set k \<and> CHR ''\<newline>'' \<notin> set k \<and> k \<noteq> [] \<and> trim_char (CHR '' '') k = k) stat_keys"
    by code_simp
  then show "k \<in> set stat_keys \<Longrightarrow> ?thesis" by (simp add: list_all_iff)
qed

lemma render_line_entry:
  assumes "k \<in> set stat_keys" and "trim_char (CHR '' '') (vals k) = vals k"
  shows "line_entry (render_line vals k) = Some (k, vals k)"
proof -
  let ?a = "k @ replicate (15 - length k) (CHR '' '')"
  have "render_line vals k = ?a @ CHR '':'' # CHR '' '' # vals k"
    by (simp add: render_line_def)
  moreover have "CHR '':'' \<notin> set ?a" using stat_key_chars[OF assms(1)] by simp
  ultimately have "split_n2 (CHR '':'') (render_line vals k) = [?a, CHR '' '' # vals k]"
    using split_n2_some[of "CHR '':''" ?a "CHR '' '' # vals k"] by simp
  moreover have "trim_char (CHR '' '') ?a = k"
    using trim_char_spaces[of "CHR '' ''" 0 k] stat_key_chars[OF assms(1)] by simp
  moreover have "trim_char (CHR '' '') (CHR '' '' # vals k) = vals k"
    using trim_char_spaces[of "CHR '' ''" 1 "vals k" 0] assms(2) by simp
  ultimately show ?thesis by (simp add: line_entry_def)
qed

lemma parse_rendered:
  assumes "vals_ok vals"
  shows "ParseStats (render_stats vals) = Inr (stats_of (\<lambda>k. Some (vals k)))"
proof -
  let ?ls = "map (render_line vals) stat_keys"
  have ok: "line_entry (render_line vals k) = Some (k, vals k)" "value_ok k (vals k)"
    "CHR ''\<newline>'' \<notin> set (render_line vals k)" "render_line vals k \<noteq> []" if "k \<in> set stat_keys" for k
    using assms that stat_key_chars[OF that] render_line_entry[OF that, of vals]
    by (auto simp: vals_ok_def list_all_iff) (auto simp: render_line_def)
  have lines: "split_on (CHR ''\<newline>'') (render_stats vals) = ?ls @ [[]]"
    using split_on_lines[of ?ls "CHR ''\<newline>''"] ok(3) by (simp add: render_stats_def comp_def)
  have bad: "first_bad (?ls @ [[]]) = None"
    using ok by (auto simp: first_bad_def find_None_iff line_ok_def)
  have ent: "file_entries (?ls @ [[]]) = map (\<lambda>k. (k, vals k)) stat_keys"
    using ok(1,4) by (simp add: file_entries_def filter_map comp_def cong: filter_cong map_cong)
  have "map_of (rev (map (\<lambda>k. (k, vals k)) stat_keys)) k = Some (vals k)" if "k \<in> set stat_keys" for k
    using that stat_keys_distinct by (intro map_of_is_SomeI) (auto simp: comp_def rev_map[symmetric])
  then have "stats_of (map_of (rev (map (\<lambda>k. (k, vals k)) stat_keys))) = stats_of (\<lambda>k. Some (vals k))"
    by (rule stats_of_cong)
  then show ?thesis
    by (simp add: ParseStats_eq_ref' ParseStats_ref_def lines bad ent comp_def)
qed

text \<open>
  C25: Parsing the file that gives every key an acceptable value without newlines or outer
  spaces returns exactly those values.
\<close>

theorem parse_render_stats:
  assumes "vals_ok vals"
  shows "ParseStats (render_stats vals) = Inr (stats_of (\<lambda>k. Some (vals k)))"
  using assms by (rule parse_rendered)

text \<open>The statistics file of the repository's own test.\<close>

definition sample_vals :: "string \<Rightarrow> string" where
  "sample_vals k = (case map_of [
     (''start_time'', ''1457551917''),
     (''last_update'', ''1457570256''),
     (''fuzzer_pid'', ''93363''),
     (''cycles_done'', ''0''),
     (''execs_done'', ''174753''),
     (''execs_per_sec'', ''9.31''),
     (''paths_total'', ''1464''),
     (''paths_favored'', ''141''),
     (''paths_found'', ''1463''),
     (''paths_imported'', ''90''),
     (''max_depth'', ''3''),
     (''cur_path'', ''98''),
     (''pending_favs'', ''142''),
     (''pending_total'', ''1462''),
     (''variable_paths'', ''49''),
     (''bitmap_cvg'', ''4.04%''),
     (''unique_crashes'', ''59''),
     (''unique_hangs'', ''10''),
     (''last_path'', ''1457566053''),
     (''last_crash'', ''10''),
     (''last_hang'', ''1457567010''),
     (''exec_timeout'', ''160''),
     (''afl_banner'', ''fuzz''),
     (''afl_version'', ''1.96b''),
     (''command_line'', ''afl-fuzz -i input -o output -- ./fuzz'')] k of None \<Rightarrow> [] | Some v \<Rightarrow> v)"

lemma parse_render_stats_witness:
  "\<exists>st. ParseStats (render_stats sample_vals) = Inr st \<and> LastUpdate st = 1457570256 \<and>
     PathsImported st = 90 \<and> CommandLine st = ''afl-fuzz -i input -o output -- ./fuzz''"
proof -
  have "vals_ok sample_vals" by code_simp
  from parse_render_stats[OF this]
  have "ParseStats (render_stats sample_vals) = Inr (stats_of (\<lambda>k. Some (sample_vals k)))" .
  moreover have "uint_of (Some (sample_vals ''last_update'')) = 1457570256"
    "uint_of (Some (sample_vals ''paths_imported'')) = 90"
    "sample_vals ''command_line'' = ''afl-fuzz -i input -o output -- ./fuzz''" by code_simp+
  ultimately show ?thesis by (simp add: stats_of_def string_of_def)
qed

end
