(* ===== verification/AflFiles.thy ===== *)
theory AflFiles
  imports Corpus Stats
begin

text \<open>
  \<open>AflFileManager\<close> (\<open>types/files.go\<close>): where AFL's input and output directories lie below a
  base directory, and how the queue, crashes and hangs of one fuzzer are written and read.
  A path method is a pure function of the manager, an operation on files acts on the state \<open>fs\<close>.
\<close>

subsection \<open>Data\<close>

text \<open>The three corpora of a fuzzer's output directory; a nil pointer is \<open>None\<close>.\<close>

record AflOutput =
  Queue :: "InputCorpus option"
  Crashes :: "InputCorpus option"
  Hangs :: "InputCorpus option"

text \<open>The state of a fuzzer, as it is uploaded.\<close>

record State =
  Id :: string
  Stats :: FuzzerStats
  Output :: AflOutput

record AflFileManager =
  basedir :: string
  fuzzerId :: string

text \<open>The package variables \<open>Crashes\<close>, \<open>Hangs\<close> and \<open>Queue\<close>.\<close>

definition CrashesName :: string where "CrashesName = ''crashes''"
definition HangsName :: string where "HangsName = ''hangs''"
definition QueueName :: string where "QueueName = ''queue''"

definition NewAflFileManagerWithFuzzerId :: "string \<Rightarrow> string \<Rightarrow> AflFileManager" where
  "NewAflFileManagerWithFuzzerId dir fid = \<lparr>basedir = dir, fuzzerId = fid\<rparr>"

definition NewAflFileManager :: "string \<Rightarrow> AflFileManager" where
  "NewAflFileManager dir = \<lparr>basedir = dir, fuzzerId = []\<rparr>"

subsection \<open>Paths\<close>

definition InputDir :: "AflFileManager \<Rightarrow> string" where
  "InputDir m = path_join [basedir m, ''input'']"

definition OutputDirToPassIntoAfl :: "AflFileManager \<Rightarrow> string" where
  "OutputDirToPassIntoAfl m = path_join [basedir m, ''output'']"

definition OutputDir :: "AflFileManager \<Rightarrow> string" where
  "OutputDir m =
     (if fuzzerId m = [] then OutputDirToPassIntoAfl m
      else path_join [OutputDirToPassIntoAfl m, fuzzerId m])"

definition QueueDir :: "AflFileManager \<Rightarrow> string" where
  "QueueDir m = path_join [OutputDir m, QueueName]"

definition CrashesDir :: "AflFileManager \<Rightarrow> string" where
  "CrashesDir m = path_join [OutputDir m, CrashesName]"

definition HangsDir :: "AflFileManager \<Rightarrow> string" where
  "HangsDir m = path_join [OutputDir m, HangsName]"

definition FuzzerStatsPath :: "AflFileManager \<Rightarrow> string" where
  "FuzzerStatsPath m = path_join [OutputDir m, ''fuzzer_stats'']"

definition corpusDir :: "AflFileManager \<Rightarrow> string \<Rightarrow> string res" where
  "corpusDir m corpusType =
     (if corpusType = QueueName then Inr (QueueDir m)
      else if corpusType = CrashesName then Inr (CrashesDir m)
      else if corpusType = HangsName then Inr (HangsDir m)
      else Inl (Err (ErrMsg (''Unknown corpusType: '' @ corpusType))))"

text \<open>The error of the name check is assigned and never looked at.\<close>

definition InputPath :: "AflFileManager \<Rightarrow> string \<Rightarrow> string \<Rightarrow> string res" where
  "InputPath m inputType inputName =
     (case corpusDir m inputType of
        Inl e \<Rightarrow> Inl e
      | Inr inputDir \<Rightarrow>
          let err = validateInputName inputName in Inr (path_join [inputDir, inputName]))"

subsection \<open>Directories and corpora\<close>

definition MkQueueDir :: "AflFileManager \<Rightarrow> (fs, unit) go" where
  "MkQueueDir m = os_mkdir_all (QueueDir m)"

definition MkCrashesDir :: "AflFileManager \<Rightarrow> (fs, unit) go" where
  "MkCrashesDir m = os_mkdir_all (CrashesDir m)"

definition MkHangsDir :: "AflFileManager \<Rightarrow> (fs, unit) go" where
  "MkHangsDir m = os_mkdir_all (HangsDir m)"

definition MkInputDir :: "AflFileManager \<Rightarrow> (fs, unit) go" where
  "MkInputDir m = os_mkdir_all (InputDir m)"

definition MkAllOutputDirs :: "AflFileManager \<Rightarrow> (fs, unit) go" where
  "MkAllOutputDirs m = go_then (MkQueueDir m) (go_then (MkHangsDir m) (MkCrashesDir m))"

definition WriteQueue :: "AflFileManager \<Rightarrow> InputCorpus option \<Rightarrow> (fs, unit) go" where
  "WriteQueue m queue = WriteInputCorpusToFile queue (QueueDir m)"

definition WriteCrashes :: "AflFileManager \<Rightarrow> InputCorpus option \<Rightarrow> (fs, unit) go" where
  "WriteCrashes m crashes = WriteInputCorpusToFile crashes (CrashesDir m)"

definition WriteHangs :: "AflFileManager \<Rightarrow> InputCorpus option \<Rightarrow> (fs, unit) go" where
  "WriteHangs m hangs = WriteInputCorpusToFile hangs (HangsDir m)"

definition WriteInputs :: "AflFileManager \<Rightarrow> InputCorpus option \<Rightarrow> (fs, unit) go" where
  "WriteInputs m inputs = WriteInputCorpusToFile inputs (InputDir m)"

definition WriteOutput :: "AflFileManager \<Rightarrow> AflOutput \<Rightarrow> (fs, unit) go" where
  "WriteOutput m output =
     go_then (WriteQueue m (Queue output))
       (go_then (WriteCrashes m (Crashes output)) (WriteHangs m (Hangs output)))"

definition ReadQueue :: "AflFileManager \<Rightarrow> (fs, InputCorpus) go" where
  "ReadQueue m = ReadInputCorpus (QueueDir m)"

definition ReadCrashes :: "AflFileManager \<Rightarrow> (fs, InputCorpus) go" where
  "ReadCrashes m = ReadInputCorpus (CrashesDir m)"

definition ReadHangs :: "AflFileManager \<Rightarrow> (fs, InputCorpus) go" where
  "ReadHangs m = ReadInputCorpus (HangsDir m)"

definition ReadInputs :: "AflFileManager \<Rightarrow> (fs, InputCorpus) go" where
  "ReadInputs m = ReadInputCorpus (InputDir m)"

definition ReadOutput :: "AflFileManager \<Rightarrow> (fs, AflOutput) go" where
  "ReadOutput m =
     go_try (ReadQueue m) (\<lambda>queue.
       go_try (ReadCrashes m) (\<lambda>crashes.
         go_try (ReadHangs m) (\<lambda>hangs.
           go_ret \<lparr>Queue = Some queue, Crashes = Some crashes, Hangs = Some hangs\<rparr>)))"

definition ReadInput :: "AflFileManager \<Rightarrow> string \<Rightarrow> string \<Rightarrow> (fs, Input) go" where
  "ReadInput m inputType inputName =
     (case InputPath m inputType inputName of
        Inl e \<Rightarrow> go_fail e
      | Inr inputPath \<Rightarrow> readInput inputPath)"

definition ReadFuzzerStats :: "AflFileManager \<Rightarrow> (fs, FuzzerStats) go" where
  "ReadFuzzerStats m fs =
     (case fs_read_file fs (FuzzerStatsPath m) of
        Inl e \<Rightarrow> (Inl e, fs)
      | Inr buf \<Rightarrow> (ParseStats (string_of_bytes buf), fs))"

subsection \<open>Managers of a clean absolute base directory\<close>

text \<open>The manager of the fuzzer \<open>fid\<close> (or of no fuzzer) below the directory \<open>bs\<close>.\<close>

definition out_path :: "path \<Rightarrow> string \<Rightarrow> path" where
  "out_path bs fid = bs @ ''output'' # (if fid = [] then [] else [fid])"

definition mgr :: "path \<Rightarrow> string \<Rightarrow> AflFileManager" where
  "mgr bs fid = \<lparr>basedir = abs_of bs, fuzzerId = fid\<rparr>"

lemma valid_dir_names [simp]:
  "valid_name ''output''" "valid_name ''input''" "valid_name ''queue''" "valid_name ''crashes''"
  "valid_name ''hangs''" "valid_name ''fuzzer_stats''" "valid_name ''realtime-crashes''"
  "valid_name ''dict.txt''"
  by (simp_all add: valid_name_def)

lemmas corpus_names = QueueName_def CrashesName_def HangsName_def

definition fuzzer_ok :: "string \<Rightarrow> bool" where
  "fuzzer_ok fid \<longleftrightarrow> fid = [] \<or> valid_name fid"

lemma valid_out_path: "valid_names bs \<Longrightarrow> fuzzer_ok fid \<Longrightarrow> valid_names (out_path bs fid)"
  by (auto simp: out_path_def fuzzer_ok_def)

lemma OutputDirToPassIntoAfl_mgr: "valid_names bs \<Longrightarrow> OutputDirToPassIntoAfl (mgr bs fid) = abs_of (bs @ [''output''])"
  by (simp add: OutputDirToPassIntoAfl_def mgr_def)

lemma InputDir_mgr: "valid_names bs \<Longrightarrow> InputDir (mgr bs fid) = abs_of (bs @ [''input''])"
  by (simp add: InputDir_def mgr_def)

lemma OutputDir_mgr:
  "valid_names bs \<Longrightarrow> fuzzer_ok fid \<Longrightarrow> OutputDir (mgr bs fid) = abs_of (out_path bs fid)"
  using OutputDirToPassIntoAfl_mgr[of bs fid]
  by (auto simp: OutputDir_def out_path_def mgr_def fuzzer_ok_def)

lemma corpus_dirs_mgr:
  assumes "valid_names bs" and "fuzzer_ok fid"
  shows "QueueDir (mgr bs fid) = abs_of (out_path bs fid @ [''queue''])"
    and "CrashesDir (mgr bs fid) = abs_of (out_path bs fid @ [''crashes''])"
    and "HangsDir (mgr bs fid) = abs_of (out_path bs fid @ [''hangs''])"
    and "FuzzerStatsPath (mgr bs fid) = abs_of (out_path bs fid @ [''fuzzer_stats''])"
  using assms valid_out_path[OF assms]
  by (simp_all add: QueueDir_def CrashesDir_def HangsDir_def FuzzerStatsPath_def OutputDir_mgr
      corpus_names)

text \<open>Whatever the arguments, the operations keep the tree.\<close>

lemma grows_MkDirs: "within fs_grows (MkQueueDir m)" "within fs_grows (MkCrashesDir m)"
  "within fs_grows (MkHangsDir m)" "within fs_grows (MkInputDir m)"
  by (simp_all add: MkQueueDir_def MkCrashesDir_def MkHangsDir_def MkInputDir_def grows_mkdir_all)

lemma grows_MkAllOutputDirs: "within fs_grows (MkAllOutputDirs m)"
  unfolding MkAllOutputDirs_def by (intro within_then fs_grows_transp grows_MkDirs)

lemma grows_WriteCorpora: "within fs_grows (WriteQueue m c)" "within fs_grows (WriteCrashes m c)"
  "within fs_grows (WriteHangs m c)" "within fs_grows (WriteInputs m c)"
  by (simp_all add: WriteQueue_def WriteCrashes_def WriteHangs_def WriteInputs_def
      grows_WriteInputCorpusToFile)

lemma grows_WriteOutput: "within fs_grows (WriteOutput m out)"
  unfolding WriteOutput_def by (intro within_then fs_grows_transp grows_WriteCorpora)

lemma reads_ReadOutput: "reads (ReadOutput m)"
  unfolding ReadOutput_def ReadQueue_def ReadCrashes_def ReadHangs_def
  by (intro within_try within_ret reads_ReadInputCorpus eq_preorder)

subsection \<open>Making the directories\<close>

lemma fs_is_file_mkdirs: "no_file_on fs p \<Longrightarrow> fs_is_file (mkdirs p fs) q = fs_is_file fs q"
  by (auto simp: fs_is_file_def fs_lookup_mkdirs no_file_on_def list_all_iff)

lemma no_file_on_mkdirs: "no_file_on fs p \<Longrightarrow> no_file_on (mkdirs p fs) q = no_file_on fs q"
  by (simp add: no_file_on_def fs_is_file_mkdirs)

lemma dir_files_Some: "dir_files fs q n = Some b \<longleftrightarrow> fs_lookup fs (q @ [n]) = Some (File b)"
  by (auto simp: dir_files_def split: option.splits node.splits)

lemma no_file_on_lookup: "no_file_on fs p \<Longrightarrow> prefix q p \<Longrightarrow> fs_lookup fs q \<noteq> Some (File b)"
  by (force simp: no_file_on_def list_all_iff fs_is_file_def)

lemma dir_files_mkdirs:
  assumes "no_file_on fs p"
  shows "dir_files (mkdirs p fs) q = dir_files fs q"
proof -
  have "dir_files (mkdirs p fs) q n = Some b \<longleftrightarrow> dir_files fs q n = Some b" for n b
    using no_file_on_lookup[OF assms] by (auto simp: dir_files_Some fs_lookup_mkdirs)
  then show ?thesis by (metis ext option.exhaust)
qed

lemma dir_ready_mkdirs:
  "fs_wf fs \<Longrightarrow> fs_reach fs p \<Longrightarrow> no_file_on fs p \<Longrightarrow> dir_ready (mkdirs p fs) p"
  by (simp add: dir_ready_def fs_wf_mkdirs fs_reach_valid fs_lookup_mkdirs)

text \<open>The directories of the three corpora below an output directory, in the order they are made.\<close>

definition corpus_paths :: "path \<Rightarrow> path list" where
  "corpus_paths p = [p @ [''queue''], p @ [''hangs''], p @ [''crashes'']]"

text \<open>No file is where a directory has to be.\<close>

definition out_free :: "fs \<Rightarrow> path \<Rightarrow> bool" where
  "out_free fs p = list_all (no_file_on fs) (corpus_paths p)"

definition mk_out :: "path \<Rightarrow> fs \<Rightarrow> fs" where
  "mk_out p fs = fold mkdirs (corpus_paths p) fs"

definition out_ready :: "fs \<Rightarrow> path \<Rightarrow> bool" where
  "out_ready fs p = list_all (dir_ready fs) (corpus_paths p)"

lemma corpus_paths_reach: "fs_reach fs p \<Longrightarrow> q \<in> set (corpus_paths p) \<Longrightarrow> fs_reach fs q"
  by (auto simp: corpus_paths_def intro: fs_reach_append)

lemma MkAllOutputDirs_ok:
  assumes "fs_reach fs (out_path bs fid)" and "valid_names bs" and "fuzzer_ok fid"
    and "out_free fs (out_path bs fid)"
  shows "MkAllOutputDirs (mgr bs fid) fs = (Inr (), mk_out (out_path bs fid) fs)"
  using assms corpus_paths_reach[OF assms(1)]
  by (simp add: MkAllOutputDirs_def MkQueueDir_def MkHangsDir_def MkCrashesDir_def corpus_dirs_mgr
      os_mkdir_all_ok no_file_on_mkdirs out_free_def corpus_paths_def mk_out_def)

lemma fs_lookup_mk_out:
  "fs_lookup (mk_out p fs) q = (if \<exists>c\<in>set (corpus_paths p). prefix q c then Some Dir else fs_lookup fs q)"
  by (auto simp: mk_out_def corpus_paths_def fs_lookup_mkdirs)

lemma mk_out_facts:
  assumes "fs_wf fs" and "fs_reach fs p" and "out_free fs p"
  shows "fs_wf (mk_out p fs)" and "out_ready (mk_out p fs) p" and "dir_files (mk_out p fs) q = dir_files fs q"
    and "fs_reach (mk_out p fs) q = fs_reach fs q" and "fs_is_file (mk_out p fs) q = fs_is_file fs q"
proof -
  let ?c = "corpus_paths p"
  have r: "\<forall>c\<in>set ?c. fs_reach fs c" using corpus_paths_reach[OF assms(2)] by blast
  then show wf: "fs_wf (mk_out p fs)"
    using assms
    by (simp add: mk_out_def corpus_paths_def out_free_def fs_wf_mkdirs no_file_on_mkdirs fs_reach_valid)
  show "fs_reach (mk_out p fs) q = fs_reach fs q" for q
    by (simp add: mk_out_def corpus_paths_def)
  then show "out_ready (mk_out p fs) p"
    using wf r by (auto simp: out_ready_def list_all_iff dir_ready_def fs_lookup_mk_out)
  show "dir_files (mk_out p fs) q = dir_files fs q" "fs_is_file (mk_out p fs) q = fs_is_file fs q"
    using assms(3)
    by (simp_all add: mk_out_def corpus_paths_def out_free_def dir_files_mkdirs no_file_on_mkdirs
        fs_is_file_mkdirs)
qed

lemma out_ready_dirs:
  "out_ready fs p \<longleftrightarrow> dir_ready fs (p @ [''queue'']) \<and> dir_ready fs (p @ [''crashes'']) \<and>
     dir_ready fs (p @ [''hangs''])"
  by (auto simp: out_ready_def corpus_paths_def)

subsection \<open>Writing and reading an output directory\<close>

text \<open>An output none of whose corpora is nil.\<close>

definition full_output :: "Input list \<Rightarrow> Input list \<Rightarrow> Input list \<Rightarrow> AflOutput" where
  "full_output q c h =
     \<lparr>Queue = Some \<lparr>Inputs = q\<rparr>, Crashes = Some \<lparr>Inputs = c\<rparr>, Hangs = Some \<lparr>Inputs = h\<rparr>\<rparr>"

definition out_writable :: "fs \<Rightarrow> path \<Rightarrow> Input list \<Rightarrow> Input list \<Rightarrow> Input list \<Rightarrow> bool" where
  "out_writable fs p q c h \<longleftrightarrow> fs_corpora.writable fs (p @ [''queue'']) q \<and>
     fs_corpora.writable fs (p @ [''crashes'']) c \<and> fs_corpora.writable fs (p @ [''hangs'']) h"

lemma WriteOutput_ok:
  assumes m: "valid_names bs" "fuzzer_ok fid" and w: "out_writable fs (out_path bs fid) q c h"
  shows "\<exists>fs'. WriteOutput (mgr bs fid) (full_output q c h) fs = (Inr (), fs') \<and>
    fs_corpora.keeps fs fs' \<and>
    (\<forall>e. dir_files fs' e =
       (if e = out_path bs fid @ [''queue''] then stored (dir_files fs e) q
        else if e = out_path bs fid @ [''crashes''] then stored (dir_files fs e) c
        else if e = out_path bs fid @ [''hangs''] then stored (dir_files fs e) h
        else dir_files fs e))"
proof -
  let ?p = "out_path bs fid"
  let ?jobs = "[(?p @ [''queue''], q), (?p @ [''crashes''], c), (?p @ [''hangs''], h)]"
  have "WriteOutput (mgr bs fid) (full_output q c h) =
      each (\<lambda>(d, is). each (\<lambda>i. WriteInputToFile i (abs_of d)) is) ?jobs"
    by (simp add: WriteOutput_def WriteQueue_def WriteCrashes_def WriteHangs_def full_output_def
        corpus_dirs_mgr[OF m] WriteInputCorpusToFile_Some)
  moreover have "\<forall>(d, is)\<in>set ?jobs. fs_corpora.writable fs d is" "distinct (map fst ?jobs)"
    using w by (simp_all add: out_writable_def)
  ultimately show ?thesis
    using fs_corpora.write_many[of ?jobs fs] by auto
qed

lemma ReadOutput_ok:
  assumes "valid_names bs" "fuzzer_ok fid" "out_ready fs (out_path bs fid)"
  shows "ReadOutput (mgr bs fid) fs =
    (Inr \<lparr>Queue = Some (corpus_of fs (out_path bs fid @ [''queue''])),
          Crashes = Some (corpus_of fs (out_path bs fid @ [''crashes''])),
          Hangs = Some (corpus_of fs (out_path bs fid @ [''hangs'']))\<rparr>, fs)"
  using assms
  by (simp add: ReadOutput_def ReadQueue_def ReadCrashes_def ReadHangs_def corpus_dirs_mgr
      out_ready_dirs ReadInputCorpus_ok)

subsection \<open>A fresh output directory\<close>

lemma fs_lookup_below_None:
  assumes "fs_wf fs" and "fs_lookup fs p = None"
  shows "fs_lookup fs (p @ q) = None"
proof (induction q rule: rev_induct)
  case Nil
  with assms(2) show ?case by simp
next
  case (snoc n q)
  then show ?case using fs_wf_no_child[OF assms(1), of "p @ q"] by simp
qed

lemma no_file_on_append:
  assumes "no_file_on fs p" and "\<And>r. prefix r q \<Longrightarrow> \<not> fs_is_file fs (p @ r)"
  shows "no_file_on fs (p @ q)"
  using assms(2)
proof (induction q rule: rev_induct)
  case Nil
  with assms(1) show ?case by simp
next
  case (snoc n q)
  have "no_file_on fs (p @ q)" using snoc.prems by (intro snoc.IH) (simp add: prefix_snoc)
  moreover have "\<not> fs_is_file fs (p @ q @ [n])" using snoc.prems by simp
  ultimately show ?case using no_file_on_snoc[of fs "p @ q" n] by simp
qed

definition fresh_dir :: "fs \<Rightarrow> path \<Rightarrow> bool" where
  "fresh_dir fs p \<longleftrightarrow> fs_wf fs \<and> fs_reach fs p \<and> no_file_on fs p \<and> fs_lookup fs p = None"

lemma fresh_dir_below: "fresh_dir fs p \<Longrightarrow> fs_lookup fs (p @ q) = None"
  by (simp add: fresh_dir_def fs_lookup_below_None)

lemma fresh_out_free: "fresh_dir fs p \<Longrightarrow> out_free fs p"
  by (auto simp: out_free_def corpus_paths_def fs_is_file_def fresh_dir_below fresh_dir_def
      intro!: no_file_on_append split: option.splits)

lemma fresh_mk_out:
  assumes "fresh_dir fs p" and "c \<in> {''queue'', ''crashes'', ''hangs''}"
  shows "fs_entries (mk_out p fs) (p @ [c]) = []"
proof (rule fs_entries_eqI)
  fix n
  have "\<not> prefix (p @ [c, n]) d" if "d \<in> set (corpus_paths p)" for d
    using that by (auto simp: corpus_paths_def)
  then have "fs_lookup (mk_out p fs) (p @ [c, n]) = None"
    using fresh_dir_below[OF assms(1), of "[c, n]"] by (auto simp: fs_lookup_mk_out)
  then show "n \<in> set [] \<longleftrightarrow> fs_lookup (mk_out p fs) ((p @ [c]) @ [n]) \<noteq> None" by simp
qed simp_all

lemma out_writable_names:
  assumes "out_ready fs p" and "\<And>c. c \<in> {''queue'', ''crashes'', ''hangs''} \<Longrightarrow> fs_entries fs (p @ [c]) = []"
    and "names_ok q" "names_ok c" "names_ok h"
  shows "out_writable fs p q c h"
  using assms empty_no_subdir
  by (auto simp: out_writable_def out_ready_dirs intro!: names_ok_writable)

text \<open>
  Reading a corpus directory that was empty before the inputs were stored in it.
\<close>

lemma corpus_of_stored:
  assumes "dir_ready fs p" and "dir_files fs p = stored Map.empty is" and "names_ok is"
  shows "corpus_of fs p = \<lparr>Inputs = sort_key Name is\<rparr>"
  using fs_corpora.read_stored[OF assms(1,2)] assms(3)
  by (auto simp: ReadInputCorpus_ok[OF assms(1)] names_ok_def list_all_iff)

subsection \<open>Names that leave the directory\<close>

text \<open>A relative path that goes up \<open>k\<close> directories and then down along \<open>r\<close>.\<close>

definition up_path :: "nat \<Rightarrow> path \<Rightarrow> string" where
  "up_path k r = join_with slash (replicate k ''..'' @ r)"

lemma foldl_clean_up: "valid_names ds \<Longrightarrow> foldl (clean_step True) (rev ds @ st) (replicate (length ds) ''..'') = st"
proof (induction ds rule: rev_induct)
  case Nil
  then show ?case by simp
next
  case (snoc d ds)
  then have "clean_step True (d # rev ds @ st) ''..'' = rev ds @ st"
    by (simp add: clean_step_def valid_name_def)
  then show ?case using snoc by simp
qed

lemma path_join_up:
  assumes "valid_names (p @ ds)" and "valid_names r" and "r \<noteq> []"
  shows "path_join [abs_of (p @ ds), up_path (length ds) r] = abs_of (p @ r)"
proof -
  let ?ws = "replicate (length ds) ''..'' @ r"
  have ws: "\<forall>w\<in>set ?ws. slash \<notin> set w"
    using valid_names_no_slash[OF assms(2)] by auto
  have "split_on slash (join_with slash [abs_of (p @ ds), up_path (length ds) r]) =
      split_on slash (abs_of (p @ ds)) @ ?ws"
    using ws assms(3) concat_split_on_valid[of ?ws slash] split_on_join[of ?ws slash]
    by (simp add: up_path_def)
  then show ?thesis
    using assms foldl_clean_up[of ds "rev p"]
    by (simp add: path_join_def path_clean_def clean_comps_def foldl_clean_split_abs_of
        foldl_clean_valid)
qed

lemma up_path_rejected:
  assumes "k > 0" and "r \<noteq> []"
  shows "validateInputName (up_path k r) \<noteq> None"
proof -
  have "up_path k r = ''..'' @ slash # join_with slash (replicate (k - 1) ''..'' @ r)"
    using assms by (cases k) (simp_all add: up_path_def join_with_Cons)
  then show ?thesis
    unfolding validateInputName_def path_base_fixed_iff[symmetric]
    using path_base_fixed_iff[of "up_path k r"] by simp
qed

lemma corpusDir_mgr:
  assumes "valid_names bs" and "fuzzer_ok fid" and "c \<in> {''queue'', ''crashes'', ''hangs''}"
  shows "corpusDir (mgr bs fid) c = Inr (abs_of (out_path bs fid @ [c]))"
  using assms by (auto simp: corpusDir_def corpus_names corpus_dirs_mgr)

subsection \<open>Properties\<close>

text \<open>
  C9: An output directory that is not there yet: making its directories, writing the three
  corpora and reading the output back all succeed, and give the corpora that were written, each
  in name order. Nothing else of the tree changes its files.
\<close>

theorem output_roundtrip:
  assumes "valid_names bs" and "fuzzer_ok fid" and "fresh_dir fs (out_path bs fid)"
    and "names_ok q" and "names_ok c" and "names_ok h"
  shows "\<exists>fs1 fs2. MkAllOutputDirs (mgr bs fid) fs = (Inr (), fs1) \<and>
    WriteOutput (mgr bs fid) (full_output q c h) fs1 = (Inr (), fs2) \<and>
    ReadOutput (mgr bs fid) fs2 =
      (Inr (full_output (sort_key Name q) (sort_key Name c) (sort_key Name h)), fs2) \<and>
    (\<forall>d. \<not> prefix (out_path bs fid) d \<longrightarrow> dir_files fs2 d = dir_files fs d)"
proof -
  let ?p = "out_path bs fid" and ?fs1 = "mk_out (out_path bs fid) fs"
  have fr: "fs_wf fs" "fs_reach fs ?p" "out_free fs ?p"
    using assms(3) fresh_out_free by (auto simp: fresh_dir_def)
  note mk = mk_out_facts[OF fr]
  have w: "out_writable ?fs1 ?p q c h"
    using mk(2) fresh_mk_out[OF assms(3)] assms(4-6) by (intro out_writable_names) auto
  obtain fs2 where fs2: "WriteOutput (mgr bs fid) (full_output q c h) ?fs1 = (Inr (), fs2)"
    "fs_corpora.keeps ?fs1 fs2"
    "\<forall>e. dir_files fs2 e =
       (if e = ?p @ [''queue''] then stored (dir_files ?fs1 e) q
        else if e = ?p @ [''crashes''] then stored (dir_files ?fs1 e) c
        else if e = ?p @ [''hangs''] then stored (dir_files ?fs1 e) h
        else dir_files ?fs1 e)"
    using WriteOutput_ok[OF assms(1,2) w] by blast
  have ready: "out_ready fs2 ?p"
    using mk(2) fs2(2) by (simp add: out_ready_dirs fs_corpora.keeps_def)
  have empty: "dir_files ?fs1 (?p @ [k]) = Map.empty" if "k \<in> {''queue'', ''crashes'', ''hangs''}" for k
    using fresh_mk_out[OF assms(3) that] by (rule dir_files_empty)
  have "dir_files fs2 (?p @ [''queue'']) = stored Map.empty q"
    "dir_files fs2 (?p @ [''crashes'']) = stored Map.empty c"
    "dir_files fs2 (?p @ [''hangs'']) = stored Map.empty h"
    by (simp_all add: fs2(3) empty)
  then have "corpus_of fs2 (?p @ [''queue'']) = \<lparr>Inputs = sort_key Name q\<rparr>"
    "corpus_of fs2 (?p @ [''crashes'']) = \<lparr>Inputs = sort_key Name c\<rparr>"
    "corpus_of fs2 (?p @ [''hangs'']) = \<lparr>Inputs = sort_key Name h\<rparr>"
    using ready assms(4-6) by (simp_all add: out_ready_dirs corpus_of_stored)
  then have "ReadOutput (mgr bs fid) fs2 =
      (Inr (full_output (sort_key Name q) (sort_key Name c) (sort_key Name h)), fs2)"
    using ReadOutput_ok[OF assms(1,2) ready] by (simp add: full_output_def)
  moreover have "\<forall>d. \<not> prefix ?p d \<longrightarrow> dir_files fs2 d = dir_files fs d"
    using fs2(3) mk(3) by auto
  ultimately show ?thesis
    using MkAllOutputDirs_ok[OF fr(2) assms(1,2) fr(3)] fs2(1) by blast
qed

lemma output_roundtrip_witness:
  "\<exists>fs1 fs2. MkAllOutputDirs (mgr [''d''] ''f-1'') sample_fs = (Inr (), fs1) \<and>
    WriteOutput (mgr [''d''] ''f-1'')
      (full_output [sample_input ''b'' ''2'', sample_input ''a'' ''1''] [sample_input ''a'' ''x''] []) fs1 =
      (Inr (), fs2) \<and>
    ReadOutput (mgr [''d''] ''f-1'') fs2 =
      (Inr (full_output [sample_input ''a'' ''1'', sample_input ''b'' ''2''] [sample_input ''a'' ''x''] []), fs2)"
proof -
  let ?q = "[sample_input ''b'' ''2'', sample_input ''a'' ''1'']" and ?c = "[sample_input ''a'' ''x'']"
  have h: "valid_names [''d'']" "fuzzer_ok ''f-1''" "fresh_dir sample_fs (out_path [''d''] ''f-1'')"
    "names_ok ?q" "names_ok ?c" "names_ok []" by code_simp+
  have s: "sort_key Name ?q = [sample_input ''a'' ''1'', sample_input ''b'' ''2'']"
    "sort_key Name ?c = ?c" "sort_key Name ([] :: Input list) = []" by code_simp+
  show ?thesis using output_roundtrip[OF h] unfolding s by blast
qed

text \<open>
  C34: The name of an input is not confined to the corpus directory: for a name that goes up
  with dot-dot components, the name check reports an error, yet \<open>InputPath\<close> returns the path
  outside, and \<open>ReadInput\<close> returns the body of the file there.
\<close>

theorem ReadInput_escapes:
  assumes "valid_names bs" and "fuzzer_ok fid" and "t \<in> {''queue'', ''crashes'', ''hangs''}"
    and "out_path bs fid @ [t] = p @ ds" and "ds \<noteq> []" and "valid_names r" and "r \<noteq> []"
    and "fs_reach fs (p @ r)" and "fs_lookup fs (p @ r) = Some (File b)"
  shows "validateInputName (up_path (length ds) r) \<noteq> None \<and>
    InputPath (mgr bs fid) t (up_path (length ds) r) = Inr (abs_of (p @ r)) \<and>
    ReadInput (mgr bs fid) t (up_path (length ds) r) fs = (Inr \<lparr>Name = last r, Body = b\<rparr>, fs)"
proof -
  have v: "valid_names (p @ ds)"
    using valid_out_path[OF assms(1,2)] assms(3) by (auto simp flip: assms(4))
  have path: "InputPath (mgr bs fid) t (up_path (length ds) r) = Inr (abs_of (p @ r))"
    using path_join_up[OF v assms(6,7)] corpusDir_mgr[OF assms(1-3)]
    by (simp add: InputPath_def assms(4))
  have "p @ r = (p @ butlast r) @ [last r]" "valid_name (last r)"
    using assms(6,7) by (simp_all add: list_all_iff)
  then have "snd (path_split (abs_of (p @ r))) = last r"
    using path_split_snoc[of "last r" "p @ butlast r"] by simp
  then show ?thesis
    using path up_path_rejected[of "length ds" r] assms
    by (simp add: ReadInput_def readInput_def fs_read_file_reach)
qed

text \<open>The tree of the witness: a fuzzer's output below \<open>/d\<close>, and a file \<open>/etc/key\<close>.\<close>

definition secret_fs :: fs where
  "secret_fs = \<lparr>fs_cwd = [],
     fs_tree = [([''d''], Dir), ([''etc''], Dir), ([''etc'', ''key''], File (bytes_of_string ''s3''))],
     fs_denied = []\<rparr>"

lemma ReadInput_escapes_witness:
  "validateInputName ''../../../../etc/key'' \<noteq> None \<and>
   ReadInput (mgr [''d''] ''f'') ''queue'' ''../../../../etc/key'' secret_fs =
     (Inr (sample_input ''key'' ''s3''), secret_fs)"
proof -
  let ?ds = "[''d'', ''output'', ''f'', ''queue'']" and ?r = "[''etc'', ''key'']"
  have "valid_names [''d'']" "fuzzer_ok ''f''" "''queue'' \<in> {''queue'', ''crashes'', ''hangs''}"
    "out_path [''d''] ''f'' @ [''queue''] = [] @ ?ds" "?ds \<noteq> []" "valid_names ?r" "?r \<noteq> []"
    "fs_reach secret_fs ([] @ ?r)" "fs_lookup secret_fs ([] @ ?r) = Some (File (bytes_of_string ''s3''))"
    by code_simp+
  note ReadInput_escapes[OF this]
  moreover have "up_path (length ?ds) ?r = ''../../../../etc/key''" by code_simp
  ultimately show ?thesis by (simp add: sample_input_def)
qed

end
