(* ===== verification/FleetFiles.thy ===== *)
theory FleetFiles
  imports AflFiles
begin

text \<open>
  \<open>FleetFileManager\<close> (\<open>types/fleet_file_manager.go\<close>): the files of a fleet of fuzzers, on a
  client or on the server, each fuzzer's output in a directory of its own below \<open>output\<close>.
  A Go map is an association list with different keys, in the order a range loop visits it;
  theorems that speak of a map returned by the code do so through \<open>map_of\<close>, so they do not
  depend on that order. A method that \<open>AflFileManager\<close> has too gets the suffix \<open>_fleet\<close>.
\<close>

subsection \<open>Operations\<close>

record FleetFileManager =
  Basedir :: string

definition aflFileManager :: "FleetFileManager \<Rightarrow> string \<Rightarrow> AflFileManager" where
  "aflFileManager m fid = NewAflFileManagerWithFuzzerId (Basedir m) fid"

definition WriteOutput_fleet :: "FleetFileManager \<Rightarrow> string \<Rightarrow> AflOutput \<Rightarrow> (fs, unit) go" where
  "WriteOutput_fleet m fid output = WriteOutput (aflFileManager m fid) output"

definition TopLevelOutputDir :: "FleetFileManager \<Rightarrow> string" where
  "TopLevelOutputDir m = path_join [Basedir m, ''output'']"

definition MkTopLevelOutputDir :: "FleetFileManager \<Rightarrow> (fs, unit) go" where
  "MkTopLevelOutputDir m = os_mkdir_all (TopLevelOutputDir m)"

definition TopLevelInputDir :: "FleetFileManager \<Rightarrow> string" where
  "TopLevelInputDir m = path_join [Basedir m, ''input'']"

definition MkTopLevelInputDir :: "FleetFileManager \<Rightarrow> (fs, unit) go" where
  "MkTopLevelInputDir m = os_mkdir_all (TopLevelInputDir m)"

definition WriteTopLevelInput :: "FleetFileManager \<Rightarrow> Input \<Rightarrow> (fs, unit) go" where
  "WriteTopLevelInput m inp = WriteInputToFile inp (TopLevelInputDir m)"

definition FuzzerIds :: "FleetFileManager \<Rightarrow> (fs, string list) go" where
  "FuzzerIds m fs =
     (case fs_read_dir fs (TopLevelOutputDir m) of
        Inl e \<Rightarrow> (Inl e, fs)
      | Inr fileInfos \<Rightarrow> (Inr (map (\<lambda>fi. path_base (fst fi)) (filter (\<lambda>fi. snd fi = Dir) fileInfos)), fs))"

text \<open>The loop of \<open>ReadOutputs\<close> and of \<open>ReadQueues\<close>, with the map made so far.\<close>

primrec read_fleet :: "(string \<Rightarrow> (fs, 'v) go) \<Rightarrow> (string \<times> 'v) list \<Rightarrow> string list \<Rightarrow> (fs, (string \<times> 'v) list) go" where
  "read_fleet rd outputs [] = go_ret outputs"
| "read_fleet rd outputs (fid # fids) =
     go_try (rd fid) (\<lambda>v. read_fleet rd (AList.update fid v outputs) fids)"

definition ReadOutputs :: "FleetFileManager \<Rightarrow> (fs, (string \<times> AflOutput) list) go" where
  "ReadOutputs m =
     go_try (FuzzerIds m) (\<lambda>fids. read_fleet (\<lambda>fid. ReadOutput (aflFileManager m fid)) [] fids)"

definition ReadQueues :: "FleetFileManager \<Rightarrow> (fs, (string \<times> InputCorpus) list) go" where
  "ReadQueues m =
     go_try (FuzzerIds m) (\<lambda>fids. read_fleet (\<lambda>fid. ReadQueue (aflFileManager m fid)) [] fids)"

definition ReadInputs_fleet :: "FleetFileManager \<Rightarrow> (fs, InputCorpus) go" where
  "ReadInputs_fleet m = ReadInputCorpus (path_join [Basedir m, ''input''])"

definition MkAllOutputDirs_fleet :: "FleetFileManager \<Rightarrow> string \<Rightarrow> (fs, unit) go" where
  "MkAllOutputDirs_fleet m fid = MkAllOutputDirs (aflFileManager m fid)"

definition MkQueueDir_fleet :: "FleetFileManager \<Rightarrow> string \<Rightarrow> (fs, unit) go" where
  "MkQueueDir_fleet m fid = MkQueueDir (aflFileManager m fid)"

definition MkCrashesDir_fleet :: "FleetFileManager \<Rightarrow> string \<Rightarrow> (fs, unit) go" where
  "MkCrashesDir_fleet m fid = MkCrashesDir (aflFileManager m fid)"

definition WriteQueues :: "FleetFileManager \<Rightarrow> (string \<times> InputCorpus option) list \<Rightarrow> (fs, unit) go" where
  "WriteQueues m queues =
     each (\<lambda>(fid, queue). go_then (MkQueueDir_fleet m fid) (WriteQueue (aflFileManager m fid) queue)) queues"

definition ReadInput_fleet :: "FleetFileManager \<Rightarrow> string \<Rightarrow> string \<Rightarrow> string \<Rightarrow> (fs, Input) go" where
  "ReadInput_fleet m fid inputType inputName = ReadInput (aflFileManager m fid) inputType inputName"

definition InputPath_fleet :: "FleetFileManager \<Rightarrow> string \<Rightarrow> string \<Rightarrow> string \<Rightarrow> string res" where
  "InputPath_fleet m fid inputType inputName = InputPath (aflFileManager m fid) inputType inputName"

definition CrashPath :: "FleetFileManager \<Rightarrow> string \<Rightarrow> string \<Rightarrow> string res" where
  "CrashPath m fid name = InputPath_fleet m fid CrashesName name"

definition DictPath :: "FleetFileManager \<Rightarrow> string" where
  "DictPath m = path_join [Basedir m, ''dict.txt'']"

definition ReadDict :: "FleetFileManager \<Rightarrow> (fs, bytes) go" where
  "ReadDict m fs = (fs_read_file fs (DictPath m), fs)"

definition WriteDict :: "FleetFileManager \<Rightarrow> bytes \<Rightarrow> (fs, unit) go" where
  "WriteDict m dict = go_try (os_open_file False (DictPath m)) (\<lambda>f. file_write f dict)"

subsection \<open>A fleet below a clean absolute directory\<close>

definition fleet :: "path \<Rightarrow> FleetFileManager" where
  "fleet bs = \<lparr>Basedir = abs_of bs\<rparr>"

lemma aflFileManager_fleet [simp]: "aflFileManager (fleet bs) fid = mgr bs fid"
  by (simp add: aflFileManager_def fleet_def NewAflFileManagerWithFuzzerId_def mgr_def)

lemma fleet_dirs:
  assumes "valid_names bs"
  shows "TopLevelOutputDir (fleet bs) = abs_of (bs @ [''output''])"
    and "TopLevelInputDir (fleet bs) = abs_of (bs @ [''input''])"
    and "DictPath (fleet bs) = abs_of (bs @ [''dict.txt''])"
  using assms by (simp_all add: TopLevelOutputDir_def TopLevelInputDir_def DictPath_def fleet_def)

lemma out_path_snoc: "fid \<noteq> [] \<Longrightarrow> out_path bs fid = bs @ [''output'', fid]"
  by (simp add: out_path_def)

lemma reads_FuzzerIds: "reads (FuzzerIds m)"
  by (simp add: within_def FuzzerIds_def split: sum.split)

lemma reads_read_fleet: "(\<And>fid. reads (rd fid)) \<Longrightarrow> reads (read_fleet rd acc fids)"
  by (induction fids arbitrary: acc) (auto intro!: within_ret within_try)

lemma reads_ReadOutputs: "reads (ReadOutputs m)"
  unfolding ReadOutputs_def
  by (intro within_try eq_preorder reads_FuzzerIds reads_read_fleet reads_ReadOutput)

lemma reads_ReadQueues: "reads (ReadQueues m)"
  unfolding ReadQueues_def ReadQueue_def
  by (intro within_try eq_preorder reads_FuzzerIds reads_read_fleet reads_ReadInputCorpus)

lemma grows_WriteQueues: "within fs_grows (WriteQueues m qs)"
  unfolding WriteQueues_def MkQueueDir_fleet_def
  by (intro within_each fs_grows_reflp fs_grows_transp)
    (auto intro!: within_then fs_grows_transp grows_MkDirs grows_WriteCorpora)

text \<open>The fuzzers of a fleet: the directories below its output directory.\<close>

definition fleet_ids :: "fs \<Rightarrow> path \<Rightarrow> string list" where
  "fleet_ids fs bs =
     filter (\<lambda>n. fs_is_dir fs (bs @ [''output'', n])) (fs_entries fs (bs @ [''output'']))"

lemma fleet_ids_facts [simp]: "sorted (fleet_ids fs bs)" "distinct (fleet_ids fs bs)"
  using sorted_wrt_filter[of "(\<le>)" "fs_entries fs (bs @ [''output''])"]
  by (simp_all add: fleet_ids_def)

lemma fleet_ids_set: "set (fleet_ids fs bs) = {n. fs_is_dir fs (bs @ [''output'', n])}"
  by (auto simp: fleet_ids_def fs_entries_set)

lemma fleet_ids_valid: "fs_wf fs \<Longrightarrow> n \<in> set (fleet_ids fs bs) \<Longrightarrow> valid_name n"
  using fs_wf_lookup[of fs "bs @ [''output'']" n] by (auto simp: fleet_ids_set)

lemma FuzzerIds_ok:
  assumes "dir_ready fs (bs @ [''output''])"
  shows "FuzzerIds (fleet bs) fs = (Inr (fleet_ids fs bs), fs)"
proof -
  let ?o = "bs @ [''output'']"
  have v: "valid_names bs" using assms by (simp add: dir_ready_def fs_reach_def)
  have "fs_read_dir fs (abs_of ?o) = Inr (map (\<lambda>n. (n, the (fs_lookup fs (?o @ [n])))) (fs_entries fs ?o))"
    using assms by (intro fs_read_dir_reach) (auto simp: dir_ready_def)
  moreover have "map path_base (fleet_ids fs bs) = fleet_ids fs bs"
    using fleet_ids_valid[of fs _ bs] assms by (auto simp: dir_ready_def intro: map_idI)
  moreover have "filter (\<lambda>n. the (fs_lookup fs (?o @ [n])) = Dir) (fs_entries fs ?o) = fleet_ids fs bs"
    by (auto simp: fleet_ids_def fs_entries_set intro!: filter_cong)
  ultimately show ?thesis
    using v by (simp add: FuzzerIds_def fleet_dirs filter_map comp_def)
qed

lemma update_new: "k \<notin> fst ` set al \<Longrightarrow> AList.update k v al = al @ [(k, v)]"
  by (induction al) auto

lemma read_fleet_ok:
  assumes "\<And>fid. fid \<in> set fids \<Longrightarrow> rd fid fs = (Inr (f fid), fs)"
    and "distinct fids" and "set fids \<inter> fst ` set acc = {}"
  shows "read_fleet rd acc fids fs = (Inr (acc @ map (\<lambda>fid. (fid, f fid)) fids), fs)"
  using assms by (induction fids arbitrary: acc) (auto simp: update_new)

lemma read_fleet_fails:
  assumes "\<And>fid. fid \<in> set xs \<Longrightarrow> rd fid fs = (Inr (f fid), fs)" and "rd x fs = (Inl e, fs)"
  shows "read_fleet rd acc (xs @ x # ys) fs = (Inl e, fs)"
  using assms by (induction xs arbitrary: acc) auto

subsection \<open>Making directories and filling them\<close>

definition fill :: "path \<times> Input list \<Rightarrow> (fs, unit) go" where
  "fill = (\<lambda>(p, is). go_then (os_mkdir_all (abs_of p)) (each (\<lambda>i. WriteInputToFile i (abs_of p)) is))"

definition fill_ok :: "fs \<Rightarrow> path \<times> Input list \<Rightarrow> bool" where
  "fill_ok fs = (\<lambda>(p, is). fs_reach fs p \<and> no_file_on fs p \<and>
     list_all (\<lambda>i. valid_name (Name i) \<and> \<not> fs_is_dir fs (p @ [Name i])) is)"

text \<open>What filling does: \<open>ps\<close> are the directories made, \<open>body\<close> the files of each directory.\<close>

definition filled :: "fs \<Rightarrow> path set \<Rightarrow> (path \<Rightarrow> string \<Rightarrow> bytes option) \<Rightarrow> fs \<Rightarrow> bool" where
  "filled fs ps body fs' \<longleftrightarrow> fs_wf fs' \<and> fs_denied fs' = fs_denied fs \<and>
     (\<forall>d. fs_is_dir fs' d \<longleftrightarrow> fs_is_dir fs d \<or> (\<exists>p\<in>ps. prefix d p)) \<and> (\<forall>d. dir_files fs' d = body d)"

lemma fs_reach_cong: "fs_denied fs' = fs_denied fs \<Longrightarrow> fs_reach fs' p = fs_reach fs p"
  by (simp add: fs_reach_def)

lemma fill_one:
  assumes "fs_wf fs" and "fill_ok fs (p, is)"
  shows "\<exists>fs'. fill (p, is) fs = (Inr (), fs') \<and>
    filled fs {p} (\<lambda>d. if d = p then stored (dir_files fs p) is else dir_files fs d) fs'"
proof -
  let ?fs1 = "mkdirs p fs"
  from assms(2) have r: "fs_reach fs p" "no_file_on fs p"
    and i: "list_all (\<lambda>i. valid_name (Name i) \<and> \<not> fs_is_dir fs (p @ [Name i])) is"
    by (simp_all add: fill_ok_def)
  have ready: "dir_ready ?fs1 p" by (rule dir_ready_mkdirs[OF assms(1) r])
  have "fs_corpora.writable ?fs1 p is"
    using ready i by (auto simp: fs_corpora.writable_def list_all_iff fs_lookup_mkdirs)
  from fs_corpora.write_all[OF this] obtain fs' where fs':
    "each (\<lambda>i. WriteInputToFile i (abs_of p)) is ?fs1 = (Inr (), fs')"
    "fs_corpora.keeps ?fs1 fs'"
    "\<forall>e. dir_files fs' e = (if e = p then stored (dir_files ?fs1 p) is else dir_files ?fs1 e)"
    by blast
  have "within fs_grows (each (\<lambda>i. WriteInputToFile i (abs_of p)) is)"
    by (intro within_each fs_grows_reflp fs_grows_transp grows_WriteInputToFile)
  then have "fs_grows ?fs1 fs'" using fs'(1) by (rule withinD)
  then have "fs_denied fs' = fs_denied fs" by (simp add: fs_grows_def)
  moreover have "fs_wf fs'" using ready fs'(2) by (auto simp: fs_corpora.keeps_def dir_ready_def)
  moreover have "fs_is_dir fs' d \<longleftrightarrow> fs_is_dir fs d \<or> prefix d p" for d
    using fs'(2) by (cases d rule: rev_cases) (auto simp: fs_corpora.keeps_def fs_lookup_mkdirs)
  ultimately have "filled fs {p} (\<lambda>d. if d = p then stored (dir_files fs p) is else dir_files fs d) fs'"
    using fs'(3) dir_files_mkdirs[OF r(2)] by (simp add: filled_def)
  then show ?thesis
    using fs'(1) os_mkdir_all_ok[OF r] by (auto simp: fill_def)
qed

lemma no_file_on_dir_files:
  "no_file_on fs p \<longleftrightarrow> (\<forall>q n. prefix (q @ [n]) p \<longrightarrow> dir_files fs q n = None)"
proof -
  have "fs_is_file fs (q @ [n]) \<longleftrightarrow> dir_files fs q n \<noteq> None" for q n
    by (auto simp: fs_is_file_def dir_files_def split: option.splits node.splits)
  moreover have "\<not> fs_is_file fs []" by (simp add: fs_is_file_def)
  ultimately show ?thesis
    unfolding no_file_on_def list_all_iff set_prefixes_eq by (metis mem_Collect_eq rev_exhaust)
qed

text \<open>Directories at the same depth do not get in each other's way.\<close>

lemma fill_ok_after:
  assumes "filled fs {p} (\<lambda>d. if d = p then stored (dir_files fs p) is else dir_files fs d) fs'"
    and "fill_ok fs (p', is')" and "length p' = length p"
  shows "fill_ok fs' (p', is')"
proof -
  have "no_file_on fs' p'"
    using assms unfolding no_file_on_dir_files filled_def fill_ok_def
    by (auto dest!: prefix_length_le)
  moreover have "\<not> fs_is_dir fs' (p' @ [n])" if "\<not> fs_is_dir fs (p' @ [n])" for n
    using that assms(1,3) by (auto simp: filled_def dest!: prefix_length_le)
  ultimately show ?thesis
    using assms(1,2) fs_reach_cong[of fs' fs p'] by (auto simp: fill_ok_def filled_def list_all_iff)
qed

lemma fill_many:
  assumes "fs_wf fs" and "\<forall>job\<in>set jobs. fill_ok fs job \<and> length (fst job) = k"
    and "distinct (map fst jobs)"
  shows "\<exists>fs'. each fill jobs fs = (Inr (), fs') \<and>
    filled fs (fst ` set jobs)
      (\<lambda>d. case map_of jobs d of None \<Rightarrow> dir_files fs d | Some is \<Rightarrow> stored (dir_files fs d) is) fs'"
  using assms
proof (induction jobs arbitrary: fs)
  case Nil
  then show ?case by (simp add: filled_def)
next
  case (Cons job jobs)
  obtain p "is" where job: "job = (p, is)" by fastforce
  from fill_one[of fs p "is"] Cons.prems obtain fs1 where fs1: "fill job fs = (Inr (), fs1)"
    "filled fs {p} (\<lambda>d. if d = p then stored (dir_files fs p) is else dir_files fs d) fs1"
    by (auto simp: job)
  have "\<forall>job\<in>set jobs. fill_ok fs1 job \<and> length (fst job) = k"
    using fill_ok_after[OF fs1(2)] Cons.prems(2) job by auto
  moreover have "fs_wf fs1" using fs1(2) by (simp add: filled_def)
  ultimately obtain fs2 where fs2: "each fill jobs fs1 = (Inr (), fs2)"
    "filled fs1 (fst ` set jobs)
      (\<lambda>d. case map_of jobs d of None \<Rightarrow> dir_files fs1 d | Some is \<Rightarrow> stored (dir_files fs1 d) is) fs2"
    using Cons.IH[of fs1] Cons.prems(3) by auto
  have "map_of jobs p = None" using Cons.prems(3) job by (simp add: map_of_eq_None_iff)
  then have "filled fs (fst ` set (job # jobs)) (\<lambda>d. case map_of (job # jobs) d of
      None \<Rightarrow> dir_files fs d | Some is \<Rightarrow> stored (dir_files fs d) is) fs2"
    using fs1(2) fs2(2) by (auto simp: filled_def job split: option.split)
  then show ?case using fs1(1) fs2(1) by auto
qed

subsection \<open>The queues of a fleet, as a map of maps\<close>

definition queue_path :: "path \<Rightarrow> string \<Rightarrow> path" where
  "queue_path bs fid = bs @ [''output'', fid, ''queue'']"

text \<open>The abstract state: each fuzzer's queue, its bodies by name.\<close>

definition fleet_queues :: "fs \<Rightarrow> path \<Rightarrow> string \<Rightarrow> (string \<Rightarrow> bytes option) option" where
  "fleet_queues fs bs fid =
     (if fs_is_dir fs (queue_path bs fid) then Some (dir_files fs (queue_path bs fid)) else None)"

text \<open>One fuzzer's queue taken in.\<close>

definition absorb :: "(string \<Rightarrow> bytes option) option \<Rightarrow> InputCorpus \<Rightarrow> string \<Rightarrow> bytes option" where
  "absorb old c = stored (case old of None \<Rightarrow> Map.empty | Some b \<Rightarrow> b) (Inputs c)"

definition some_queues :: "(string \<times> InputCorpus) list \<Rightarrow> (string \<times> InputCorpus option) list" where
  "some_queues qs = map (\<lambda>(fid, c). (fid, Some c)) qs"

definition queues_ok :: "fs \<Rightarrow> path \<Rightarrow> (string \<times> InputCorpus) list \<Rightarrow> bool" where
  "queues_ok fs bs qs \<longleftrightarrow> distinct (map fst qs) \<and>
     list_all (\<lambda>(fid, c). valid_name fid \<and> fill_ok fs (queue_path bs fid, Inputs c)) qs"

definition queue_jobs :: "path \<Rightarrow> (string \<times> InputCorpus) list \<Rightarrow> (path \<times> Input list) list" where
  "queue_jobs bs qs = map (\<lambda>(fid, c). (queue_path bs fid, Inputs c)) qs"

lemma queue_path_simps [simp]:
  "queue_path bs f = queue_path bs g \<longleftrightarrow> f = g" "length (queue_path bs f) = length bs + 3"
  by (simp_all add: queue_path_def)

lemma queue_path_prefix: "prefix (queue_path bs f) (queue_path bs g) \<longleftrightarrow> f = g"
  by (auto simp: queue_path_def)

lemma map_of_queue_jobs: "map_of (queue_jobs bs qs) (queue_path bs fid) = map_option Inputs (map_of qs fid)"
  by (induction qs) (auto simp: queue_jobs_def)

lemma QueueDir_queue_path:
  "valid_names bs \<Longrightarrow> valid_name fid \<Longrightarrow> QueueDir (mgr bs fid) = abs_of (queue_path bs fid)"
  using out_path_snoc[of fid bs]
  by (auto simp: corpus_dirs_mgr fuzzer_ok_def queue_path_def valid_name_def)

lemma each_map: "each f (map g xs) = each (\<lambda>x. f (g x)) xs"
  by (induction xs) auto

lemma each_cong: "(\<And>x. x \<in> set xs \<Longrightarrow> f x = g x) \<Longrightarrow> each f xs = each g xs"
  by (induction xs) auto

lemma WriteQueues_fill:
  assumes "valid_names bs" and "list_all (\<lambda>(fid, c). valid_name fid) qs"
  shows "WriteQueues (fleet bs) (some_queues qs) = each fill (queue_jobs bs qs)"
  using assms
  by (auto simp: WriteQueues_def some_queues_def queue_jobs_def each_map MkQueueDir_fleet_def
      MkQueueDir_def WriteQueue_def fill_def QueueDir_queue_path list_all_iff
      WriteInputCorpusToFile_Some intro!: each_cong)

lemma WriteQueues_filled:
  assumes "valid_names bs" and "fs_wf fs" and "queues_ok fs bs qs"
  shows "\<exists>fs'. WriteQueues (fleet bs) (some_queues qs) fs = (Inr (), fs') \<and>
    filled fs (queue_path bs ` fst ` set qs)
      (\<lambda>d. case map_of (queue_jobs bs qs) d of None \<Rightarrow> dir_files fs d | Some is \<Rightarrow> stored (dir_files fs d) is) fs'"
proof -
  have "\<forall>job\<in>set (queue_jobs bs qs). fill_ok fs job \<and> length (fst job) = length bs + 3"
    using assms(3) by (auto simp: queues_ok_def queue_jobs_def list_all_iff)
  moreover have "distinct (map fst (queue_jobs bs qs))"
    using assms(3)
    by (auto simp: queues_ok_def queue_jobs_def comp_def case_prod_beta distinct_map inj_on_def)
  moreover have "fst ` set (queue_jobs bs qs) = queue_path bs ` fst ` set qs"
    by (force simp: queue_jobs_def)
  moreover have "list_all (\<lambda>(fid, c). valid_name fid) qs"
    using assms(3) by (auto simp: queues_ok_def list_all_iff)
  ultimately show ?thesis
    using fill_many[OF assms(2), of "queue_jobs bs qs" "length bs + 3"] WriteQueues_fill[OF assms(1)] by simp
qed

lemma dir_files_no_dir: "fs_wf fs \<Longrightarrow> \<not> fs_is_dir fs p \<Longrightarrow> dir_files fs p = Map.empty"
  by (auto simp: dir_files_def fs_wf_no_child)

lemma ReadQueue_queue_path:
  assumes "valid_names bs" and "valid_name fid" and "dir_ready fs (queue_path bs fid)"
  shows "ReadQueue (mgr bs fid) fs = (Inr (corpus_of fs (queue_path bs fid)), fs)"
  using assms by (simp add: ReadQueue_def QueueDir_queue_path ReadInputCorpus_ok)

text \<open>Every fuzzer of the fleet has a queue directory, as \<open>WriteQueues\<close> leaves it.\<close>

definition fleet_ready :: "fs \<Rightarrow> path \<Rightarrow> bool" where
  "fleet_ready fs bs \<longleftrightarrow> dir_ready fs (bs @ [''output'']) \<and>
     list_all (\<lambda>fid. fs_is_dir fs (queue_path bs fid)) (fleet_ids fs bs)"

lemma fleet_ready_queue:
  assumes "fleet_ready fs bs" and "fid \<in> set (fleet_ids fs bs)"
  shows "valid_name fid" and "dir_ready fs (queue_path bs fid)"
proof -
  show v: "valid_name fid"
    using assms fleet_ids_valid by (auto simp: fleet_ready_def dir_ready_def)
  then show "dir_ready fs (queue_path bs fid)"
    using assms fs_reach_append[of fs "bs @ [''output'']" "[fid, ''queue'']"]
    by (auto simp: fleet_ready_def dir_ready_def queue_path_def list_all_iff)
qed

lemma ReadQueues_ok:
  assumes "fleet_ready fs bs"
  shows "ReadQueues (fleet bs) fs =
    (Inr (map (\<lambda>fid. (fid, corpus_of fs (queue_path bs fid))) (fleet_ids fs bs)), fs)"
proof -
  have v: "valid_names bs" using assms by (simp add: fleet_ready_def dir_ready_def fs_reach_def)
  have "read_fleet (\<lambda>fid. ReadQueue (mgr bs fid)) [] (fleet_ids fs bs) fs =
      (Inr ([] @ map (\<lambda>fid. (fid, corpus_of fs (queue_path bs fid))) (fleet_ids fs bs)), fs)"
    using fleet_ready_queue[OF assms] v by (intro read_fleet_ok) (auto simp: ReadQueue_queue_path)
  then show ?thesis
    using FuzzerIds_ok[of fs bs] assms by (simp add: ReadQueues_def fleet_ready_def)
qed

lemma map_of_graph: "map_of (map (\<lambda>k. (k, f k)) ks) k = (if k \<in> set ks then Some (f k) else None)"
  by (induction ks) auto

lemma fleet_ready_ids:
  assumes "fleet_ready fs bs"
  shows "fid \<in> set (fleet_ids fs bs) \<longleftrightarrow> fs_is_dir fs (queue_path bs fid)"
proof
  assume "fs_is_dir fs (queue_path bs fid)"
  moreover have "fs_wf fs" using assms by (simp add: fleet_ready_def dir_ready_def)
  ultimately show "fid \<in> set (fleet_ids fs bs)"
    using fs_wf_lookup[of fs "bs @ [''output'', fid]" "''queue''"]
    by (simp add: fleet_ids_set queue_path_def)
qed (use assms in \<open>auto simp: fleet_ready_def list_all_iff\<close>)

text \<open>Writing queues gives the map a fleet it can read, and keeps a fleet readable.\<close>

lemma WriteQueues_ready:
  assumes "valid_names bs" and "fs_wf fs" and "queues_ok fs bs qs"
    and "fleet_ready fs bs \<or> (fresh_dir fs (bs @ [''output'']) \<and> qs \<noteq> [])"
    and "WriteQueues (fleet bs) (some_queues qs) fs = (Inr (), fs')"
  shows "fleet_ready fs' bs"
proof -
  have f: "filled fs (queue_path bs ` fst ` set qs)
      (\<lambda>d. case map_of (queue_jobs bs qs) d of None \<Rightarrow> dir_files fs d | Some is \<Rightarrow> stored (dir_files fs d) is) fs'"
    using WriteQueues_filled[OF assms(1-3)] assms(5) by auto
  have dirs: "fs_is_dir fs' d \<longleftrightarrow> fs_is_dir fs d \<or> (\<exists>g\<in>fst ` set qs. prefix d (queue_path bs g))" for d
    using f by (auto simp: filled_def)
  have "fs_reach fs (bs @ [''output''])"
    using assms(4) by (auto simp: fleet_ready_def dir_ready_def fresh_dir_def)
  moreover have "fs_is_dir fs' (bs @ [''output''])"
    using assms(4)
  proof
    assume "fresh_dir fs (bs @ [''output'']) \<and> qs \<noteq> []"
    then obtain g where "g \<in> fst ` set qs" by (cases qs) auto
    then show ?thesis using dirs by (auto simp: queue_path_def)
  qed (auto simp: dirs fleet_ready_def)
  ultimately have "dir_ready fs' (bs @ [''output''])"
    using f fs_reach_cong[of fs' fs] by (simp add: filled_def dir_ready_def)
  moreover have "fs_is_dir fs' (queue_path bs fid)" if "fs_is_dir fs' (bs @ [''output'', fid])" for fid
    using that unfolding dirs
  proof
    assume d: "fs_is_dir fs (bs @ [''output'', fid])"
    then have "\<not> fresh_dir fs (bs @ [''output''])"
      using fresh_dir_below[of fs "bs @ [''output'']" "[fid]"] by auto
    then show "fs_is_dir fs (queue_path bs fid) \<or> (\<exists>g\<in>fst ` set qs. prefix (queue_path bs fid) (queue_path bs g))"
      using assms(4) d by (auto simp: fleet_ready_def list_all_iff fleet_ids_set)
  qed (auto simp: queue_path_def)
  ultimately show ?thesis by (simp add: fleet_ready_def list_all_iff fleet_ids_set)
qed

subsection \<open>Reading every output\<close>

lemma ReadInputCorpus_not_dir:
  assumes "fs_reach fs p" and "\<not> fs_is_dir fs p"
  shows "\<exists>e. ReadInputCorpus (abs_of p) fs = (Inl (Err e), fs)"
proof -
  have "\<exists>e. fs_read_dir fs (abs_of p) = Inl (Err e)"
    using assms by (auto simp: fs_read_dir_def split: option.split node.split)
  then show ?thesis by (auto simp: ReadInputCorpus_def)
qed

text \<open>A fuzzer's output can be read exactly when all its three corpora are directories.\<close>

lemma ReadOutput_not_ready:
  assumes "valid_names bs" and "fuzzer_ok fid" and "fs_wf fs" and "fs_reach fs (out_path bs fid)"
    and "\<not> out_ready fs (out_path bs fid)"
  shows "\<exists>e. ReadOutput (mgr bs fid) fs = (Inl (Err e), fs)"
proof -
  have step: "ReadInputCorpus (abs_of (out_path bs fid @ [c])) fs =
        (Inr (corpus_of fs (out_path bs fid @ [c])), fs) \<and> dir_ready fs (out_path bs fid @ [c]) \<or>
      (\<exists>e. ReadInputCorpus (abs_of (out_path bs fid @ [c])) fs = (Inl (Err e), fs))"
    if "valid_name c" for c
  proof (cases "fs_is_dir fs (out_path bs fid @ [c])")
    case True
    then have "dir_ready fs (out_path bs fid @ [c])"
      using assms(3) fs_reach_append[OF assms(4), of "[c]"] that by (simp add: dir_ready_def)
    then show ?thesis by (simp add: ReadInputCorpus_ok)
  next
    case False
    then show ?thesis
      using ReadInputCorpus_not_dir fs_reach_append[OF assms(4), of "[c]"] that by auto
  qed
  show ?thesis
    using step[of "''queue''"] step[of "''crashes''"] step[of "''hangs''"] assms(5)
    by (auto simp: ReadOutput_def ReadQueue_def ReadCrashes_def ReadHangs_def
        corpus_dirs_mgr[OF assms(1,2)] out_ready_dirs)
qed

definition output_of :: "fs \<Rightarrow> path \<Rightarrow> AflOutput" where
  "output_of fs p = \<lparr>Queue = Some (corpus_of fs (p @ [''queue''])),
     Crashes = Some (corpus_of fs (p @ [''crashes''])), Hangs = Some (corpus_of fs (p @ [''hangs'']))\<rparr>"

lemma fleet_id_facts:
  assumes "dir_ready fs (bs @ [''output''])" and "fid \<in> set (fleet_ids fs bs)"
  shows "valid_names bs" and "fuzzer_ok fid" and "fs_reach fs (out_path bs fid)"
proof -
  have v: "valid_name fid" using assms fleet_ids_valid by (auto simp: dir_ready_def)
  then show "fuzzer_ok fid" by (simp add: fuzzer_ok_def)
  show "valid_names bs" using assms by (simp add: dir_ready_def fs_reach_def)
  show "fs_reach fs (out_path bs fid)"
    using v assms(1) fs_reach_append[of fs "bs @ [''output'']" "[fid]"]
    by (auto simp: dir_ready_def out_path_def valid_name_def)
qed

lemma ReadOutputs_all_ready:
  assumes "dir_ready fs (bs @ [''output''])"
    and "\<forall>fid\<in>set (fleet_ids fs bs). out_ready fs (out_path bs fid)"
  shows "ReadOutputs (fleet bs) fs =
    (Inr (map (\<lambda>fid. (fid, output_of fs (out_path bs fid))) (fleet_ids fs bs)), fs)"
proof -
  have "read_fleet (\<lambda>fid. ReadOutput (mgr bs fid)) [] (fleet_ids fs bs) fs =
      (Inr ([] @ map (\<lambda>fid. (fid, output_of fs (out_path bs fid))) (fleet_ids fs bs)), fs)"
    using assms(2) fleet_id_facts[OF assms(1)]
    by (intro read_fleet_ok) (auto simp: ReadOutput_ok output_of_def)
  then show ?thesis using FuzzerIds_ok[OF assms(1)] by (simp add: ReadOutputs_def)
qed

lemma ReadOutputs_one_missing:
  assumes "dir_ready fs (bs @ [''output''])" and "fid \<in> set (fleet_ids fs bs)"
    and "\<not> out_ready fs (out_path bs fid)"
  shows "\<exists>e. ReadOutputs (fleet bs) fs = (Inl (Err e), fs)"
proof -
  from assms(2,3) obtain xs x ys where split: "fleet_ids fs bs = xs @ x # ys"
    "\<forall>y\<in>set xs. out_ready fs (out_path bs y)" "\<not> out_ready fs (out_path bs x)"
    using split_list_first_prop[of "fleet_ids fs bs" "\<lambda>x. \<not> out_ready fs (out_path bs x)"] by blast
  note facts = fleet_id_facts[OF assms(1), unfolded split(1)]
  have "fs_wf fs" using assms(1) by (simp add: dir_ready_def)
  then obtain e where e: "ReadOutput (mgr bs x) fs = (Inl (Err e), fs)"
    using ReadOutput_not_ready[of bs x fs] facts[of x] split(3) by auto
  have "ReadOutput (mgr bs y) fs = (Inr (output_of fs (out_path bs y)), fs)" if "y \<in> set xs" for y
    using that facts[of y] split(2) by (simp add: ReadOutput_ok output_of_def)
  then have "read_fleet (\<lambda>fid. ReadOutput (mgr bs fid)) [] (fleet_ids fs bs) fs = (Inl (Err e), fs)"
    unfolding split(1) using e by (intro read_fleet_fails)
  then show ?thesis using FuzzerIds_ok[OF assms(1)] by (simp add: ReadOutputs_def)
qed

lemma ReadQueues_one_missing:
  assumes "dir_ready fs (bs @ [''output''])" and "fid \<in> set (fleet_ids fs bs)"
    and "\<not> fs_is_dir fs (queue_path bs fid)"
  shows "\<exists>e. ReadQueues (fleet bs) fs = (Inl (Err e), fs)"
proof -
  let ?bad = "\<lambda>x. \<not> fs_is_dir fs (queue_path bs x)"
  from assms(2,3) obtain xs x ys where split: "fleet_ids fs bs = xs @ x # ys"
    "\<forall>y\<in>set xs. \<not> ?bad y" "?bad x"
    using split_list_first_prop[of "fleet_ids fs bs" ?bad] by blast
  have wf: "fs_wf fs" and v: "valid_names bs" using assms(1) by (auto simp: dir_ready_def fs_reach_def)
  have name: "valid_name y" if "y \<in> set (fleet_ids fs bs)" for y using fleet_ids_valid[OF wf that] .
  have reach: "fs_reach fs (queue_path bs y)" if "y \<in> set (fleet_ids fs bs)" for y
    using assms(1) name[OF that] fs_reach_append[of fs "bs @ [''output'']" "[y, ''queue'']"]
    by (simp add: dir_ready_def queue_path_def)
  have x: "x \<in> set (fleet_ids fs bs)" and xs: "set xs \<subseteq> set (fleet_ids fs bs)" by (auto simp: split(1))
  obtain e where e: "ReadQueue (mgr bs x) fs = (Inl (Err e), fs)"
    using ReadInputCorpus_not_dir[OF reach[OF x] split(3)] QueueDir_queue_path[OF v name[OF x]]
    by (auto simp: ReadQueue_def)
  have ok: "ReadQueue (mgr bs y) fs = (Inr (corpus_of fs (queue_path bs y)), fs)" if "y \<in> set xs" for y
    using that xs split(2) v wf name reach by (intro ReadQueue_queue_path) (auto simp: dir_ready_def)
  have "read_fleet (\<lambda>fid. ReadQueue (mgr bs fid)) [] (fleet_ids fs bs) fs = (Inl (Err e), fs)"
    unfolding split(1) using ok e by (intro read_fleet_fails)
  then show ?thesis using FuzzerIds_ok[OF assms(1)] by (simp add: ReadQueues_def)
qed

text \<open>Any queues with usable names fit in a work directory without output.\<close>

lemma fresh_queues_ok:
  assumes "fresh_dir fs (bs @ [''output''])" and "distinct (map fst qs)"
    and "\<forall>(fid, c)\<in>set qs. valid_name fid \<and> (\<forall>i\<in>set (Inputs c). valid_name (Name i))"
  shows "queues_ok fs bs qs"
proof -
  have below: "fs_lookup fs (bs @ ''output'' # r) = None" for r
    using fresh_dir_below[OF assms(1), of r] by simp
  have "fs_reach fs (queue_path bs fid)" "no_file_on fs (queue_path bs fid)" if "valid_name fid" for fid
    using that assms(1) fs_reach_append[of fs "bs @ [''output'']" "[fid, ''queue'']"]
      no_file_on_append[of fs "bs @ [''output'']" "[fid, ''queue'']"]
    by (auto simp: fresh_dir_def queue_path_def fs_is_file_def below)
  moreover have "fs_lookup fs (queue_path bs fid @ [n]) = None" for fid n
    using below[of "[fid, ''queue'', n]"] by (simp add: queue_path_def)
  ultimately show ?thesis
    using assms(2,3) by (auto simp: queues_ok_def list_all_iff fill_ok_def)
qed

lemma WriteQueues_merges:
  assumes "valid_names bs" and "fs_wf fs" and "queues_ok fs bs qs"
  shows "\<exists>fs'. WriteQueues (fleet bs) (some_queues qs) fs = (Inr (), fs') \<and>
    (\<forall>fid. fleet_queues fs' bs fid = (case map_of qs fid of
        None \<Rightarrow> fleet_queues fs bs fid
      | Some c \<Rightarrow> Some (absorb (fleet_queues fs bs fid) c)))"
proof -
  from WriteQueues_filled[OF assms] obtain fs' where
    w: "WriteQueues (fleet bs) (some_queues qs) fs = (Inr (), fs')" and
    f: "filled fs (queue_path bs ` fst ` set qs)
      (\<lambda>d. case map_of (queue_jobs bs qs) d of None \<Rightarrow> dir_files fs d | Some is \<Rightarrow> stored (dir_files fs d) is) fs'"
    by blast
  have dir: "fs_is_dir fs' (queue_path bs fid) \<longleftrightarrow> fs_is_dir fs (queue_path bs fid) \<or> fid \<in> fst ` set qs" for fid
    using f by (auto simp: filled_def queue_path_prefix)
  have files: "dir_files fs' (queue_path bs fid) = (case map_of qs fid of
      None \<Rightarrow> dir_files fs (queue_path bs fid)
    | Some c \<Rightarrow> stored (dir_files fs (queue_path bs fid)) (Inputs c))" for fid
    using f by (auto simp: filled_def map_of_queue_jobs split: option.split)
  have "fleet_queues fs' bs fid = (case map_of qs fid of
      None \<Rightarrow> fleet_queues fs bs fid
    | Some c \<Rightarrow> Some (absorb (fleet_queues fs bs fid) c))" for fid
  proof (cases "map_of qs fid")
    case None
    then have "fid \<notin> fst ` set qs" by (simp add: map_of_eq_None_iff)
    then show ?thesis using None dir files by (simp add: fleet_queues_def)
  next
    case (Some c)
    then have "fid \<in> fst ` set qs" using map_of_SomeD by force
    then show ?thesis
      using Some dir files dir_files_no_dir[OF assms(2)] by (simp add: fleet_queues_def absorb_def)
  qed
  with w show ?thesis by blast
qed

subsection \<open>Properties\<close>

text \<open>
  C10: \<open>WriteQueues\<close> implements the map update it stands for: every fuzzer in the argument gets
  its queue merged with what it had, and the queue of every other fuzzer is left alone. The
  result does not depend on the order in which the range loop visits the map.
\<close>

theorem WriteQueues_refines:
  assumes "valid_names bs" and "fs_wf fs" and "queues_ok fs bs qs"
  shows "\<exists>fs'. WriteQueues (fleet bs) (some_queues qs) fs = (Inr (), fs') \<and>
    (\<forall>fid. fleet_queues fs' bs fid = (case map_of qs fid of
        None \<Rightarrow> fleet_queues fs bs fid
      | Some c \<Rightarrow> Some (absorb (fleet_queues fs bs fid) c)))"
  using assms by (rule WriteQueues_merges)

lemma WriteQueues_refines_witness:
  "\<exists>fs'. WriteQueues (fleet [''d'']) [(''f'', Some \<lparr>Inputs = [sample_input ''a'' ''1'']\<rparr>)] sample_fs = (Inr (), fs') \<and>
     fleet_queues fs' [''d''] ''f'' = Some [''a'' \<mapsto> bytes_of_string ''1''] \<and>
     fleet_queues fs' [''d''] ''g'' = None"
proof -
  let ?qs = "[(''f'', \<lparr>Inputs = [sample_input ''a'' ''1'']\<rparr>)]"
  have h: "valid_names [''d'']" "fs_wf sample_fs" "queues_ok sample_fs [''d''] ?qs" by code_simp+
  have e: "fleet_queues sample_fs [''d''] ''f'' = None" "fleet_queues sample_fs [''d''] ''g'' = None"
    by (simp_all add: fleet_queues_def queue_path_def sample_fs_def fs_lookup_def)
  have a: "absorb None \<lparr>Inputs = [sample_input ''a'' ''1'']\<rparr> = [''a'' \<mapsto> bytes_of_string ''1'']"
    by (simp add: absorb_def stored_def sample_input_def old_body_def)
  obtain fs' where fs': "WriteQueues (fleet [''d'']) (some_queues ?qs) sample_fs = (Inr (), fs')"
    "\<forall>fid. fleet_queues fs' [''d''] fid = (case map_of ?qs fid of
        None \<Rightarrow> fleet_queues sample_fs [''d''] fid
      | Some c \<Rightarrow> Some (absorb (fleet_queues sample_fs [''d''] fid) c))"
    using WriteQueues_refines[OF h] by blast
  have "fleet_queues fs' [''d''] ''f'' = Some [''a'' \<mapsto> bytes_of_string ''1'']"
    "fleet_queues fs' [''d''] ''g'' = None"
    using fs'(2) by (simp_all add: e a)
  then show ?thesis using fs'(1) by (auto simp: some_queues_def)
qed

text \<open>
  C15: The queues of a cluster survive a synchronisation: queues written to a work directory
  that has no output yet are what \<open>ReadQueues\<close> returns from it, one entry per fuzzer, the
  inputs of each in name order.
\<close>

theorem queues_roundtrip:
  assumes "valid_names bs" and "fresh_dir fs (bs @ [''output''])" and "qs \<noteq> []"
    and "distinct (map fst qs)" and "\<forall>(fid, c)\<in>set qs. valid_name fid \<and> names_ok (Inputs c)"
  shows "\<exists>fs' m. WriteQueues (fleet bs) (some_queues qs) fs = (Inr (), fs') \<and>
    ReadQueues (fleet bs) fs' = (Inr m, fs') \<and> distinct (map fst m) \<and>
    map_of m = (\<lambda>fid. map_option (\<lambda>c. \<lparr>Inputs = sort_key Name (Inputs c)\<rparr>) (map_of qs fid))"
proof -
  have below: "fs_lookup fs (bs @ ''output'' # r) = None" for r
    using fresh_dir_below[OF assms(2), of r] by simp
  have wf: "fs_wf fs" using assms(2) by (simp add: fresh_dir_def)
  have ok: "queues_ok fs bs qs"
    using assms(4,5) by (intro fresh_queues_ok[OF assms(2)]) (auto simp: names_ok_def list_all_iff)
  from WriteQueues_filled[OF assms(1) wf ok] obtain fs' where
    w: "WriteQueues (fleet bs) (some_queues qs) fs = (Inr (), fs')" and
    f: "filled fs (queue_path bs ` fst ` set qs)
      (\<lambda>d. case map_of (queue_jobs bs qs) d of None \<Rightarrow> dir_files fs d | Some is \<Rightarrow> stored (dir_files fs d) is) fs'"
    by blast
  have ready: "fleet_ready fs' bs"
    using WriteQueues_ready[OF assms(1) wf ok _ w] assms(2,3) by blast
  let ?m = "map (\<lambda>fid. (fid, corpus_of fs' (queue_path bs fid))) (fleet_ids fs' bs)"
  have none: "fs_lookup fs (queue_path bs fid) = None" for fid
    by (simp add: queue_path_def below)
  have "map_of ?m fid = map_option (\<lambda>c. \<lparr>Inputs = sort_key Name (Inputs c)\<rparr>) (map_of qs fid)" for fid
  proof (cases "map_of qs fid")
    case None
    then have "fid \<notin> set (fleet_ids fs' bs)"
      using f none[of fid] unfolding fleet_ready_ids[OF ready]
      by (auto simp: filled_def queue_path_prefix map_of_eq_None_iff)
    then show ?thesis using None by (simp add: map_of_graph)
  next
    case (Some c)
    then have q: "(fid, c) \<in> set qs" by (rule map_of_SomeD)
    then have i: "fid \<in> set (fleet_ids fs' bs)"
      using f unfolding fleet_ready_ids[OF ready] by (force simp: filled_def queue_path_prefix)
    have "dir_files fs (queue_path bs fid) = Map.empty"
      by (rule dir_files_no_dir[OF wf]) (simp add: none)
    then have "dir_files fs' (queue_path bs fid) = stored Map.empty (Inputs c)"
      using f Some by (simp add: filled_def map_of_queue_jobs)
    moreover have "names_ok (Inputs c)" using assms(5) q by auto
    ultimately have "corpus_of fs' (queue_path bs fid) = \<lparr>Inputs = sort_key Name (Inputs c)\<rparr>"
      using fleet_ready_queue(2)[OF ready i] by (intro corpus_of_stored)
    then show ?thesis using Some i by (simp add: map_of_graph)
  qed
  then show ?thesis
    using w ReadQueues_ok[OF ready] by (auto simp: comp_def)
qed

lemma queues_roundtrip_witness:
  "\<exists>fs' m. WriteQueues (fleet [''d''])
      [(''g'', Some \<lparr>Inputs = [sample_input ''b'' ''2'', sample_input ''a'' ''1'']\<rparr>), (''f'', Some \<lparr>Inputs = []\<rparr>)] sample_fs =
      (Inr (), fs') \<and> ReadQueues (fleet [''d'']) fs' = (Inr m, fs') \<and>
    map_of m ''g'' = Some \<lparr>Inputs = [sample_input ''a'' ''1'', sample_input ''b'' ''2'']\<rparr> \<and>
    map_of m ''f'' = Some \<lparr>Inputs = []\<rparr> \<and> map_of m ''d'' = None"
proof -
  let ?qs = "[(''g'', \<lparr>Inputs = [sample_input ''b'' ''2'', sample_input ''a'' ''1'']\<rparr>), (''f'', \<lparr>Inputs = []\<rparr>)]"
  have h: "valid_names [''d'']" "fresh_dir sample_fs ([''d''] @ [''output''])" "?qs \<noteq> []"
    "distinct (map fst ?qs)" by code_simp+
  have n: "\<forall>(fid, c)\<in>set ?qs. valid_name fid \<and> names_ok (Inputs c)" by code_simp
  have s: "sort_key Name [sample_input ''b'' ''2'', sample_input ''a'' ''1''] =
    [sample_input ''a'' ''1'', sample_input ''b'' ''2'']" by code_simp
  show ?thesis using queues_roundtrip[OF h n] s by (auto simp: some_queues_def)
qed

text \<open>
  C26: \<open>ReadOutputs\<close> is all or nothing: it returns the output of every fuzzer directory if each
  has its queue, crashes and hangs directories, and if a single one lacks any of them it returns
  an error and no output at all.
\<close>

theorem ReadOutputs_all_or_nothing:
  assumes "dir_ready fs (bs @ [''output''])"
  shows "if \<forall>fid\<in>set (fleet_ids fs bs). out_ready fs (out_path bs fid)
    then ReadOutputs (fleet bs) fs =
      (Inr (map (\<lambda>fid. (fid, output_of fs (out_path bs fid))) (fleet_ids fs bs)), fs)
    else (\<exists>e. ReadOutputs (fleet bs) fs = (Inl (Err e), fs))"
  using ReadOutputs_all_ready[OF assms] ReadOutputs_one_missing[OF assms] by auto

text \<open>A fleet of two fuzzers, one of which has only a queue: what a downloader leaves.\<close>

definition partial_fs :: fs where
  "partial_fs = \<lparr>fs_cwd = [],
     fs_tree = [([''d''], Dir), ([''d'', ''output''], Dir),
       ([''d'', ''output'', ''f''], Dir), ([''d'', ''output'', ''f'', ''queue''], Dir),
       ([''d'', ''output'', ''f'', ''crashes''], Dir), ([''d'', ''output'', ''f'', ''hangs''], Dir),
       ([''d'', ''output'', ''g''], Dir), ([''d'', ''output'', ''g'', ''queue''], Dir)],
     fs_denied = []\<rparr>"

lemma ReadOutputs_all_or_nothing_witness:
  "\<exists>e. ReadOutputs (fleet [''d'']) partial_fs = (Inl (Err e), partial_fs)"
proof -
  have h: "dir_ready partial_fs ([''d''] @ [''output''])" by code_simp
  have "\<not> (\<forall>fid\<in>set (fleet_ids partial_fs [''d'']). out_ready partial_fs (out_path [''d''] fid))"
    by code_simp
  then show ?thesis using ReadOutputs_all_or_nothing[OF h] by simp
qed

text \<open>
  A dictionary written by a client is read back only if no longer dictionary was there:
  \<open>WriteDict\<close> does not truncate the file.
\<close>

theorem dict_roundtrip:
  assumes "dir_ready fs bs" and "\<not> fs_is_dir fs (bs @ [''dict.txt''])"
  shows "\<exists>fs'. WriteDict (fleet bs) d fs = (Inr (), fs') \<and>
    ReadDict (fleet bs) fs' = (Inr (overlay d (old_body (dir_files fs bs ''dict.txt''))), fs') \<and>
    (\<forall>q n. (q, n) \<noteq> (bs, ''dict.txt'') \<longrightarrow> dir_files fs' q n = dir_files fs q n)"
proof -
  let ?i = "\<lparr>Name = ''dict.txt'', Body = d\<rparr>"
  let ?fs = "store_input bs ?i fs"
  have v: "valid_names bs" using assms(1) by (simp add: dir_ready_def fs_reach_def)
  have "WriteDict (fleet bs) d = WriteInputToFile ?i (abs_of bs)"
    using v by (simp add: WriteDict_def WriteInputToFile_def fleet_dirs)
  then have "WriteDict (fleet bs) d fs = (Inr (), ?fs)"
    using WriteInputToFile_ok[of fs bs ?i] assms by simp
  moreover have "dir_ready ?fs bs" using dir_ready_store[of fs bs bs ?i] assms by simp
  then have "fs_read_file ?fs (abs_of (bs @ [''dict.txt''])) =
      Inr (overlay d (old_body (dir_files fs bs ''dict.txt'')))"
    by (intro fs_read_file_reach dir_ready_entry) (simp_all add: store_input_def)
  ultimately show ?thesis
    using v by (auto simp: ReadDict_def fleet_dirs dir_files_store)
qed

lemma dict_roundtrip_witness:
  "\<exists>fs'. WriteDict (fleet [''d'']) (bytes_of_string ''kw'') sample_fs = (Inr (), fs') \<and>
     ReadDict (fleet [''d'']) fs' = (Inr (bytes_of_string ''kw''), fs')"
proof -
  have h: "dir_ready sample_fs [''d'']" "\<not> fs_is_dir sample_fs ([''d''] @ [''dict.txt''])" by code_simp+
  have "dir_files sample_fs [''d''] ''dict.txt'' = None"
    by (simp add: dir_files_def sample_fs_def fs_lookup_def)
  then show ?thesis
    using dict_roundtrip[OF h, of "bytes_of_string ''kw''"] by (auto simp: old_body_def)
qed

end
