(* ===== verification/Metrics.thy ===== *)
theory Metrics
  imports FleetFiles
begin

text \<open>
  Metrics and error reports (\<open>types/metrics.go\<close>) and the world the programs act on. The metrics
  and the error-tracking services are external: what leaves the process is the list of events, in
  order, and what the metrics library answers is a part of the world, \<open>w_report\<close>: for a sample it
  returns nothing when it delivered it, and otherwise the sample it had built and its error.
  The S3 client is external too: its state and its two calls are parts of the world.
  \<open>PutObject\<close> gets the bucket, the key and the open file it is to read; \<open>ListObjectsPages\<close> gets
  the bucket and the prefix and gives the keys of every page it hands to the callback, and its
  error.
\<close>

datatype metric_kind = Counter | Gauge

type_synonym tags = "(string \<times> string) list"

record SSFSample =
  SampleName :: string
  SampleValue :: float32
  SampleTags :: tags

datatype event =
    Submitted metric_kind string float32 tags
  | Captured goerr tags

record 's3 world =
  w_fs :: fs
  w_events :: "event list"
  w_report :: "metric_kind \<Rightarrow> string \<Rightarrow> float32 \<Rightarrow> tags \<Rightarrow> (SSFSample \<times> goerr) option"
  w_s3 :: 's3
  w_put_object :: "string \<Rightarrow> string \<Rightarrow> node \<Rightarrow> 's3 \<Rightarrow> goerr option \<times> 's3"
  w_list_pages :: "string \<Rightarrow> string \<Rightarrow> 's3 \<Rightarrow> string list list \<times> goerr option"

type_synonym ('s3, 'z, 'a) wgo = "(('s3, 'z) world_scheme, 'a) go"

text \<open>A file operation, in the world.\<close>

definition on_fs :: "(fs, 'a) go \<Rightarrow> ('s3, 'z, 'a) wgo" where
  "on_fs m w = (case m (w_fs w) of (r, f) \<Rightarrow> (r, w\<lparr>w_fs := f\<rparr>))"

definition emit :: "event \<Rightarrow> ('s3, 'z, unit) wgo" where
  "emit e w = (Inr (), w\<lparr>w_events := w_events w @ [e]\<rparr>)"

subsection \<open>Formatting\<close>

definition fraction_digits :: "int \<Rightarrow> string" where
  "fraction_digits n = (let d = format_int n in replicate (6 - length d) CHR ''0'' @ d)"

text \<open>
  \<open>fmt.Sprintf("%f", v)\<close> for a \<open>float32\<close>: six decimals of its exact value, to nearest even.
\<close>

definition fmt_f :: "float32 \<Rightarrow> string" where
  "fmt_f v =
     (let n = uint v; neg = (n \<ge> 2 ^ 31); b = n mod 2 ^ 31; ex = b div 2 ^ 23; fr = b mod 2 ^ 23;
          m = (if ex = 0 then fr else fr + 2 ^ 23); e = (if ex = 0 then - 149 else ex - 150);
          q = div_half_even (m * 2 ^ nat e * 1000000) (2 ^ nat (- e))
      in if b > f32_inf then ''NaN''
         else if b = f32_inf then (if neg then ''-Inf'' else ''+Inf'')
         else (if neg then ''-'' else []) @ format_int (q div 1000000) @ ''.'' @ fraction_digits (q mod 1000000))"

subsection \<open>Submitting a metric\<close>

text \<open>
  The sample keeps the caller's map as its tags, and what a failed submission adds to them stays in that map: the result
  of \<open>submitMetric\<close> is the caller's map after the call. A caller that passes a map of its own for
  every sample does not see it; the poller of the metrics passes one map several times.
\<close>

definition submitMetric :: "metric_kind \<Rightarrow> string \<Rightarrow> float32 \<Rightarrow> tags \<Rightarrow> ('s3, 'z, tags) wgo" where
  "submitMetric kind name v ts w =
     (case w_report w kind name v ts of
        None \<Rightarrow> go_then (emit (Submitted kind name v ts)) (go_ret ts) w
      | Some (metric, err) \<Rightarrow>
          (let tags = AList.update ''metric_value'' (fmt_f (SampleValue metric))
             (AList.update ''metric_name'' (SampleName metric) (SampleTags metric))
           in go_then (emit (Captured err tags)) (go_ret tags) w))"

definition SubmitMetricCount :: "string \<Rightarrow> float32 \<Rightarrow> tags \<Rightarrow> ('s3, 'z, unit) wgo" where
  "SubmitMetricCount name v ts = go_try (submitMetric Counter name v ts) (\<lambda>_. go_ret ())"

definition SubmitMetricGauge :: "string \<Rightarrow> float32 \<Rightarrow> tags \<Rightarrow> ('s3, 'z, unit) wgo" where
  "SubmitMetricGauge name v ts = go_try (submitMetric Gauge name v ts) (\<lambda>_. go_ret ())"

text \<open>The same call for a caller that uses its map again.\<close>

definition SubmitMetricGauge_shared :: "string \<Rightarrow> float32 \<Rightarrow> tags \<Rightarrow> ('s3, 'z, tags) wgo" where
  "SubmitMetricGauge_shared name v ts = submitMetric Gauge name v ts"

definition CaptureError :: "goerr \<Rightarrow> tags \<Rightarrow> ('s3, 'z, unit) wgo" where
  "CaptureError err ts = emit (Captured err ts)"

subsection \<open>Events leave the files alone\<close>

lemma emit_ok: "emit e w = (Inr (), w\<lparr>w_events := w_events w @ [e]\<rparr>)"
  by (simp add: emit_def)

text \<open>The event a submitted metric leaves.\<close>

definition metric_event :: "('s3, 'z) world_scheme \<Rightarrow> metric_kind \<Rightarrow> string \<Rightarrow> float32 \<Rightarrow> tags \<Rightarrow> event" where
  "metric_event w kind name v ts =
     (case w_report w kind name v ts of
        None \<Rightarrow> Submitted kind name v ts
      | Some (metric, err) \<Rightarrow> Captured err
          (AList.update ''metric_value'' (fmt_f (SampleValue metric))
            (AList.update ''metric_name'' (SampleName metric) (SampleTags metric))))"

definition tags_after :: "('s3, 'z) world_scheme \<Rightarrow> metric_kind \<Rightarrow> string \<Rightarrow> float32 \<Rightarrow> tags \<Rightarrow> tags" where
  "tags_after w kind name v ts =
     (case w_report w kind name v ts of
        None \<Rightarrow> ts
      | Some (metric, err) \<Rightarrow> AList.update ''metric_value'' (fmt_f (SampleValue metric))
          (AList.update ''metric_name'' (SampleName metric) (SampleTags metric)))"

lemma submitMetric_eq:
  "submitMetric kind name v ts w =
     (Inr (tags_after w kind name v ts), w\<lparr>w_events := w_events w @ [metric_event w kind name v ts]\<rparr>)"
  by (auto simp: submitMetric_def metric_event_def tags_after_def emit_ok Let_def split: option.split)

lemma SubmitMetricGauge_shared_ok:
  "SubmitMetricGauge_shared n v ts w =
     (Inr (tags_after w Gauge n v ts), w\<lparr>w_events := w_events w @ [metric_event w Gauge n v ts]\<rparr>)"
  by (simp add: SubmitMetricGauge_shared_def submitMetric_eq)

lemma Submit_ok [go_simps]:
  "SubmitMetricCount n v ts w = (Inr (), w\<lparr>w_events := w_events w @ [metric_event w Counter n v ts]\<rparr>)"
  "SubmitMetricGauge n v ts w = (Inr (), w\<lparr>w_events := w_events w @ [metric_event w Gauge n v ts]\<rparr>)"
  "CaptureError err ts w = (Inr (), w\<lparr>w_events := w_events w @ [Captured err ts]\<rparr>)"
  by (simp_all add: SubmitMetricCount_def SubmitMetricGauge_def CaptureError_def submitMetric_eq emit_ok)

lemma metric_event_more [simp]:
  "metric_event (w\<lparr>w_events := es\<rparr>) = metric_event w" "metric_event (w\<lparr>w_fs := f\<rparr>) = metric_event w"
  by (simp_all add: metric_event_def fun_eq_iff)

lemma tags_after_more [simp]: "tags_after (w\<lparr>w_events := es\<rparr>) = tags_after w"
  by (simp add: tags_after_def fun_eq_iff)

lemma on_fs_Inr [simp]: "m (w_fs w) = (Inr x, f) \<Longrightarrow> on_fs m w = (Inr x, w\<lparr>w_fs := f\<rparr>)"
  by (simp add: on_fs_def)

lemma on_fs_Inl [simp]: "m (w_fs w) = (Inl e, f) \<Longrightarrow> on_fs m w = (Inl e, w\<lparr>w_fs := f\<rparr>)"
  by (simp add: on_fs_def)

lemma on_fs_same [simp]: "m (w_fs w) = (r, w_fs w) \<Longrightarrow> on_fs m w = (r, w)"
  by (simp add: on_fs_def)

lemma errs_on_fs: "errs m \<Longrightarrow> errs (on_fs m)"
  by (auto simp: errs_def on_fs_def split: prod.splits)

subsection \<open>What every operation keeps\<close>

text \<open>
  Files and directories stay, whatever becomes of their contents, and the part of the state that is
  not the world's is as before.
\<close>

definition world_grows :: "('s3, 'z) world_scheme \<Rightarrow> ('s3, 'z) world_scheme \<Rightarrow> bool" where
  "world_grows w w' \<longleftrightarrow> fs_grows (w_fs w) (w_fs w') \<and> world.more w' = world.more w"

lemma world_grows_preorder [simp]: "reflp world_grows" "transp world_grows"
  using reflpD[OF fs_grows_reflp] transpD[OF fs_grows_transp]
  by (auto intro!: reflpI transpI simp: world_grows_def)

lemma world_grows_refl [simp]: "world_grows w w"
  by (simp add: reflpD)

lemma grows_on_fs: "within fs_grows m \<Longrightarrow> within world_grows (on_fs m)"
  by (auto simp: within_def on_fs_def world_grows_def split: prod.split) (metis snd_conv)

lemma grows_on_fs_reads: "reads m \<Longrightarrow> within world_grows (on_fs m)"
  using reflpD[OF fs_grows_reflp] by (auto intro: grows_on_fs within_mono)

lemma grows_submit:
  "within world_grows (SubmitMetricCount n v ts)" "within world_grows (SubmitMetricGauge n v ts)"
  "within world_grows (CaptureError e ts)"
  using reflpD[OF fs_grows_reflp] by (simp_all add: within_def Submit_ok world_grows_def)

lemma grows_pure: "within world_grows (\<lambda>w. (r, w))"
  by (simp add: within_def)

end
