(* ===== verification/Config.thy ===== *)
theory Config
  imports GoPath
begin

text \<open>
  Configuration (\<open>types/config.go\<close>): the records of the server's, the fuzzers' and the client's
  settings, and their validation. Validation updates the record through a pointer, so it is a
  state-passing function; a failed one leaves what it changed before. A \<open>time.Duration\<close> is an
  integer number of nanoseconds. \<open>os.Getwd\<close> and \<open>runtime.NumCPU\<close> are arguments.
\<close>

record DiskArchiveConfig =
  ConfDstRoot :: string

record S3ArchiveConfig =
  RootKey :: string
  ConfBucketName :: string
  AwsRegion :: string
  IsLocal :: bool

record ArchiveConfig =
  ArchiveType :: string
  ArchiveInterval :: int
  ConfDisk :: DiskArchiveConfig
  ConfS3 :: S3ArchiveConfig

record FuzzerConfig =
  UseBinary :: bool
  UseDict :: bool
  SyncInterval :: int
  Command :: "string list"
  MemLimitMb :: int
  TimeoutMs :: int

record ServerConfig =
  Port :: int
  Workdir :: string
  BinaryPath :: string
  MetricsReportInterval :: int
  ConfFuzzer :: FuzzerConfig
  ConfArchive :: ArchiveConfig

record ClientConfig =
  ServerAddress :: string
  Parallelism :: int

subsection \<open>The server's configuration\<close>

text \<open>\<open>filepath.Abs\<close>, with the result of \<open>os.Getwd\<close>.\<close>

definition filepath_abs :: "string res \<Rightarrow> string \<Rightarrow> string res" where
  "filepath_abs getwd s =
     (if is_abs s then Inr (path_clean s)
      else case getwd of Inl e \<Rightarrow> Inl e | Inr wd \<Rightarrow> Inr (path_join [wd, s]))"

definition set_dst_root :: "string \<Rightarrow> ServerConfig \<Rightarrow> ServerConfig" where
  "set_dst_root d r =
     r\<lparr>ConfArchive := (ConfArchive r)\<lparr>ConfDisk := (ConfDisk (ConfArchive r))\<lparr>ConfDstRoot := d\<rparr>\<rparr>\<rparr>"

definition makePathsAbsolute :: "string res \<Rightarrow> (ServerConfig, unit) go" where
  "makePathsAbsolute getwd =
     go_then
       (\<lambda>r. if ArchiveType (ConfArchive r) = ''disk''
            then case filepath_abs getwd (ConfDstRoot (ConfDisk (ConfArchive r))) of
                   Inl e \<Rightarrow> (Inl e, r)
                 | Inr absDst \<Rightarrow> (Inr (), set_dst_root absDst r)
            else (Inr (), r))
       (\<lambda>r. if Workdir r \<noteq> []
            then case filepath_abs getwd (Workdir r) of
                   Inl e \<Rightarrow> (Inl e, r)
                 | Inr workdir \<Rightarrow> (Inr (), r\<lparr>Workdir := workdir\<rparr>)
            else (Inr (), r))"

definition check_archive :: "ArchiveConfig \<Rightarrow> unit res" where
  "check_archive a =
     (if ArchiveType a = ''disk'' then
        (if ConfDstRoot (ConfDisk a) = [] then Inl (Fatal ''Must specify dst_root if archiving to disk!'')
         else Inr ())
      else if ArchiveType a = ''s3'' then
        (if RootKey (ConfS3 a) = [] then Inl (Err (ErrMsg ''Must specify root_key if archiving to S3!''))
         else if ConfBucketName (ConfS3 a) = [] then Inl (Err (ErrMsg ''Must specify bucket_name if archiving to S3!''))
         else if AwsRegion (ConfS3 a) = [] then Inl (Err (ErrMsg ''Must specify aws_region if archiving to S3!''))
         else Inr ())
      else if ArchiveType a = [] then Inr ()
      else Inl (Fatal (''Unrecognized archive type: '' @ ArchiveType a)))"

definition check_server :: "ServerConfig \<Rightarrow> unit res" where
  "check_server r =
     (if Workdir r = [] then Inl (Err (ErrMsg ''Must specify workdir!''))
      else if UseBinary (ConfFuzzer r) \<and> length (Command (ConfFuzzer r)) > 0
        then Inl (Err (ErrMsg ''Can only specify target_command if binary_path is not set''))
      else check_archive (ConfArchive r))"

definition ValidateConfig_server :: "string res \<Rightarrow> (ServerConfig, unit) go" where
  "ValidateConfig_server getwd = go_then (makePathsAbsolute getwd) (\<lambda>r. (check_server r, r))"

subsection \<open>The client's configuration\<close>

definition httpPrefix :: string where "httpPrefix = ''http://''"

definition canonicalizeServerAddress :: "ClientConfig \<Rightarrow> ClientConfig" where
  "canonicalizeServerAddress r =
     (if \<not> prefix httpPrefix (ServerAddress r) then r\<lparr>ServerAddress := httpPrefix @ ServerAddress r\<rparr>
      else r)"

definition setDefaultParallelism :: "int \<Rightarrow> ClientConfig \<Rightarrow> ClientConfig" where
  "setDefaultParallelism numCPU r = (if Parallelism r = - 1 then r\<lparr>Parallelism := numCPU\<rparr> else r)"

definition ValidateConfig_client :: "int \<Rightarrow> (ClientConfig, unit) go" where
  "ValidateConfig_client numCPU r =
     (let r' = setDefaultParallelism numCPU (canonicalizeServerAddress r)
      in (if ServerAddress r' = [] then Inl (Err (ErrMsg ''Must specify server_address'')) else Inr (), r'))"

subsection \<open>Lemmas\<close>

lemma is_abs_clean: "is_abs s \<Longrightarrow> is_abs (path_clean s)"
  by (simp add: path_clean_def unparse_def) (simp add: is_abs_def)

lemma is_abs_nonempty: "is_abs s \<Longrightarrow> s \<noteq> []"
  by (auto simp: is_abs_def)

lemma filepath_abs_is_abs:
  assumes "filepath_abs (Inr (abs_of cs)) s = Inr t"
  shows "is_abs t"
proof (cases "is_abs s")
  case True
  with assms show ?thesis by (auto simp: filepath_abs_def is_abs_clean)
next
  case False
  with assms have "t = path_clean (join_with slash [abs_of cs, s])"
    by (simp add: filepath_abs_def path_join_def)
  moreover have "is_abs (join_with slash [abs_of cs, s])" by (simp add: is_abs_def unparse_def)
  ultimately show ?thesis by (simp only: is_abs_clean)
qed

lemma filepath_abs_total: "\<exists>t. filepath_abs (Inr wd) s = Inr t"
  by (simp add: filepath_abs_def)

lemma filepath_abs_path_abs: "filepath_abs (Inr (abs_of cs)) s = Inr (path_abs (abs_of cs) s)"
  by (simp add: filepath_abs_def path_abs_def)

lemma path_abs_is_abs: "is_abs (path_abs (abs_of cs) s)"
  using filepath_abs_is_abs[OF filepath_abs_path_abs] .

text \<open>With a known working directory making the paths absolute succeeds.\<close>

lemma makePathsAbsolute_eq:
  "makePathsAbsolute (Inr (abs_of cs)) r = (Inr (),
     r\<lparr>Workdir := (if Workdir r = [] then [] else path_abs (abs_of cs) (Workdir r)),
       ConfArchive := (ConfArchive r)\<lparr>ConfDisk := \<lparr>ConfDstRoot =
         (if ArchiveType (ConfArchive r) = ''disk''
          then path_abs (abs_of cs) (ConfDstRoot (ConfDisk (ConfArchive r)))
          else ConfDstRoot (ConfDisk (ConfArchive r)))\<rparr>\<rparr>\<rparr>)"
  by (cases "Workdir r = []")
    (simp_all add: makePathsAbsolute_def filepath_abs_path_abs go_then_def go_try_def set_dst_root_def)

subsection \<open>Properties\<close>

text \<open>
  C35: What validating a server configuration gives, and what it makes of it. The work directory, if there is one,
  and the destination of a disk archive become absolute paths below the current directory, and nothing else
  changes, whether the validation passes or not. It fails, in this order, without a work directory, with both a
  binary and a command, with an archive on S3 that lacks the root key, the bucket or the region, and
  ends the process for an unknown type of archive; otherwise it passes. So the check for an empty disk destination
  never fires: an empty one has become the current directory.
\<close>

theorem ValidateConfig_server_iff:
  assumes "valid_names cs"
  shows "ValidateConfig_server (Inr (abs_of cs)) r =
      (if Workdir r = [] then Inl (Err (ErrMsg ''Must specify workdir!''))
       else if UseBinary (ConfFuzzer r) \<and> Command (ConfFuzzer r) \<noteq> []
         then Inl (Err (ErrMsg ''Can only specify target_command if binary_path is not set''))
       else if ArchiveType (ConfArchive r) = [] \<or> ArchiveType (ConfArchive r) = ''disk'' then Inr ()
       else if ArchiveType (ConfArchive r) \<noteq> ''s3''
         then Inl (Fatal (''Unrecognized archive type: '' @ ArchiveType (ConfArchive r)))
       else if RootKey (ConfS3 (ConfArchive r)) = [] then Inl (Err (ErrMsg ''Must specify root_key if archiving to S3!''))
       else if ConfBucketName (ConfS3 (ConfArchive r)) = []
         then Inl (Err (ErrMsg ''Must specify bucket_name if archiving to S3!''))
       else if AwsRegion (ConfS3 (ConfArchive r)) = [] then Inl (Err (ErrMsg ''Must specify aws_region if archiving to S3!''))
       else Inr (),
       r\<lparr>Workdir := (if Workdir r = [] then [] else path_abs (abs_of cs) (Workdir r)),
         ConfArchive := (ConfArchive r)\<lparr>ConfDisk := \<lparr>ConfDstRoot =
           (if ArchiveType (ConfArchive r) = ''disk''
            then path_abs (abs_of cs) (ConfDstRoot (ConfDisk (ConfArchive r)))
            else ConfDstRoot (ConfDisk (ConfArchive r)))\<rparr>\<rparr>\<rparr>) \<and>
    (\<forall>s. is_abs (path_abs (abs_of cs) s)) \<and> path_abs (abs_of cs) [] = abs_of cs"
proof -
  have ne: "path_abs (abs_of cs) s \<noteq> []" for s using path_abs_is_abs is_abs_nonempty by blast
  have "path_abs (abs_of cs) [] = abs_of cs"
    using assms path_clean_abs_of_slash[OF assms] by (simp add: path_abs_def is_abs_def path_join_def)
  then show ?thesis
    using path_abs_is_abs ne by (simp add: ValidateConfig_server_def makePathsAbsolute_eq check_server_def check_archive_def)
qed

lemma ValidateConfig_server_iff_witness:
  "ValidateConfig_server (Inr ''/w'')
      \<lparr>Port = 1414, Workdir = ''x'', BinaryPath = [], MetricsReportInterval = 0,
       ConfFuzzer = \<lparr>UseBinary = False, UseDict = False, SyncInterval = 0, Command = [''t''], MemLimitMb = 0, TimeoutMs = 0\<rparr>,
       ConfArchive = \<lparr>ArchiveType = ''disk'', ArchiveInterval = 0, ConfDisk = \<lparr>ConfDstRoot = []\<rparr>,
         ConfS3 = \<lparr>RootKey = [], ConfBucketName = [], AwsRegion = [], IsLocal = False\<rparr>\<rparr>\<rparr> =
    (Inr (), \<lparr>Port = 1414, Workdir = ''/w/x'', BinaryPath = [], MetricsReportInterval = 0,
       ConfFuzzer = \<lparr>UseBinary = False, UseDict = False, SyncInterval = 0, Command = [''t''], MemLimitMb = 0, TimeoutMs = 0\<rparr>,
       ConfArchive = \<lparr>ArchiveType = ''disk'', ArchiveInterval = 0, ConfDisk = \<lparr>ConfDstRoot = ''/w''\<rparr>,
         ConfS3 = \<lparr>RootKey = [], ConfBucketName = [], AwsRegion = [], IsLocal = False\<rparr>\<rparr>\<rparr>)"
proof -
  have v: "valid_names [''w'']" by code_simp
  have e: "abs_of [''w''] = ''/w''" "path_abs ''/w'' ''x'' = ''/w/x''" "path_abs ''/w'' [] = ''/w''" by code_simp+
  show ?thesis
    using ValidateConfig_server_iff[OF v, of
      "\<lparr>Port = 1414, Workdir = ''x'', BinaryPath = [], MetricsReportInterval = 0,
       ConfFuzzer = \<lparr>UseBinary = False, UseDict = False, SyncInterval = 0, Command = [''t''], MemLimitMb = 0, TimeoutMs = 0\<rparr>,
       ConfArchive = \<lparr>ArchiveType = ''disk'', ArchiveInterval = 0, ConfDisk = \<lparr>ConfDstRoot = []\<rparr>,
         ConfS3 = \<lparr>RootKey = [], ConfBucketName = [], AwsRegion = [], IsLocal = False\<rparr>\<rparr>\<rparr>"]
    by (simp add: e)
qed

text \<open>
  Validating a client configuration never fails, not even for an empty server address, which
  becomes the bare scheme; the address then has the scheme exactly once more than it lacked it,
  the parallelism is -1 no longer (for a machine with a CPU), and validating again changes nothing.
\<close>

theorem ValidateConfig_client_total:
  assumes "0 < numCPU"
  shows "\<exists>r'. ValidateConfig_client numCPU r = (Inr (), r') \<and> prefix httpPrefix (ServerAddress r') \<and>
    (ServerAddress r' = ServerAddress r \<or> ServerAddress r' = httpPrefix @ ServerAddress r) \<and>
    Parallelism r' = (if Parallelism r = - 1 then numCPU else Parallelism r) \<and>
    Parallelism r' \<noteq> - 1 \<and> ValidateConfig_client numCPU r' = (Inr (), r')"
proof -
  have "httpPrefix \<noteq> []" by (simp add: httpPrefix_def)
  with assms show ?thesis
    by (auto simp: ValidateConfig_client_def setDefaultParallelism_def canonicalizeServerAddress_def
        Let_def prefix_def)
qed

lemma ValidateConfig_client_total_witness:
  "\<exists>r'. ValidateConfig_client 8 \<lparr>ServerAddress = [], Parallelism = - 1\<rparr> = (Inr (), r') \<and>
     Parallelism r' = 8 \<and> prefix httpPrefix (ServerAddress r')"
proof -
  have "(0::int) < 8" by simp
  from ValidateConfig_client_total[OF this, of "\<lparr>ServerAddress = [], Parallelism = - 1\<rparr>"]
  show ?thesis by auto
qed

end
