(* ===== verification/Archiver.thy ===== *)
theory Archiver
  imports Metrics Config
begin

text \<open>
  Archiving (\<open>server/archiver.go\<close>): manifests of what to copy where, the three archivers
  (none, local disk, S3), and the walk that lists every file below a directory. The methods of the
  \<open>Archiver\<close> interface are functions over the datatype of its three implementations.
  The locale \<open>archive_store\<close> is the contract of an archiver that copies files; the disk archiver
  is shown to keep it, entry by entry of a manifest.
\<close>

subsection \<open>Archivers\<close>

record DiskArchiver =
  DstRoot :: string

record S3Archiver =
  bucketName :: string
  rootKey :: string

datatype Archiver = NullArchiver | Disk DiskArchiver | S3 S3Archiver

definition archiveOne_disk :: "DiskArchiver \<Rightarrow> string \<Rightarrow> string \<Rightarrow> (fs, unit) go" where
  "archiveOne_disk a absSrcPath relDstPath =
     (let absDstPath = path_join [DstRoot a, relDstPath]
      in go_then (os_mkdir_all (path_dir absDstPath))
           (go_try (os_open absSrcPath) (\<lambda>srcFd.
              go_try (os_open_file True absDstPath) (\<lambda>dstFd. io_copy dstFd srcFd))))"

definition LsDstFiles_disk :: "DiskArchiver \<Rightarrow> string \<Rightarrow> (fs, string list) go" where
  "LsDstFiles_disk a dstSubRoot fs =
     (let dstFullRoot = path_join [DstRoot a, dstSubRoot]
      in case fs_stat fs dstFullRoot of
           Inl (Err e) \<Rightarrow> if is_not_exist e then (Inr [], fs) else (Inl (Err e), fs)
         | Inl e \<Rightarrow> (Inl e, fs)
         | Inr _ \<Rightarrow> (case fs_read_dir fs dstFullRoot of
             Inl e \<Rightarrow> (Inl e, fs)
           | Inr fileInfos \<Rightarrow>
               (Inr (map (\<lambda>fi. path_base (fst fi)) (filter (\<lambda>fi. snd fi \<noteq> Dir) fileInfos)), fs)))"

definition DescribeDstLoc_disk :: "DiskArchiver \<Rightarrow> string \<Rightarrow> string" where
  "DescribeDstLoc_disk a dstRelPath = path_join [DstRoot a, dstRelPath]"

definition NewDiskArchiver :: "ArchiveConfig \<Rightarrow> (fs, DiskArchiver) go" where
  "NewDiskArchiver config =
     (let dstRoot = ConfDstRoot (ConfDisk config)
      in go_then (os_mkdir_all dstRoot) (go_ret \<lparr>DstRoot = dstRoot\<rparr>))"

definition dstKey :: "S3Archiver \<Rightarrow> string \<Rightarrow> string" where
  "dstKey a dstRelPath = path_join [rootKey a, dstRelPath]"

definition PutObject :: "string \<Rightarrow> string \<Rightarrow> path \<Rightarrow> ('s3, 'z, unit) wgo" where
  "PutObject bucket key fd w =
     (case w_put_object w bucket key (case fs_lookup (w_fs w) fd of None \<Rightarrow> Dir | Some n \<Rightarrow> n) (w_s3 w) of
        (None, s3) \<Rightarrow> (Inr (), w\<lparr>w_s3 := s3\<rparr>)
      | (Some e, s3) \<Rightarrow> (Inl (Err e), w\<lparr>w_s3 := s3\<rparr>))"

definition archiveOne_s3 :: "S3Archiver \<Rightarrow> string \<Rightarrow> string \<Rightarrow> ('s3, 'z, unit) wgo" where
  "archiveOne_s3 a absSrcPath relDstPath =
     go_try (on_fs (os_open absSrcPath)) (\<lambda>srcFd.
       PutObject (bucketName a) (dstKey a relDstPath) srcFd)"

definition LsDstFiles_s3 :: "S3Archiver \<Rightarrow> string \<Rightarrow> ('s3, 'z, string list) wgo" where
  "LsDstFiles_s3 a relDstRoot w =
     (let fullPrefix = path_join [rootKey a, relDstRoot]
      in case w_list_pages w (bucketName a) fullPrefix (w_s3 w) of (pages, err) \<Rightarrow>
        (case collect (\<lambda>key w. (or_fatal (path_rel relDstRoot key), w)) (concat pages) w of
           (Inl e, w') \<Rightarrow> (Inl e, w')
         | (Inr filenames, w') \<Rightarrow>
             (case err of Some e \<Rightarrow> (Inl (Err e), w') | None \<Rightarrow> (Inr filenames, w'))))"

text \<open>\<open>URL.String\<close> for a URL with scheme s3, no host and the given path.\<close>

definition hex_upper :: "int \<Rightarrow> char" where
  "hex_upper d = char_of (if d < 10 then 48 + d else 55 + d)"

definition path_unescaped :: "char \<Rightarrow> bool" where
  "path_unescaped c =
     (let n = of_char c :: int
      in 97 \<le> n \<and> n \<le> 122 \<or> 65 \<le> n \<and> n \<le> 90 \<or> 48 \<le> n \<and> n \<le> 57 \<or> c \<in> set ''-_.~$&+,/:;=@'')"

definition escape_path :: "string \<Rightarrow> string" where
  "escape_path s =
     (if s = ''*'' then s
      else concat (map (\<lambda>c. if path_unescaped c then [c]
        else [CHR ''%'', hex_upper (of_char c div 16), hex_upper (of_char c mod 16)]) s))"

definition s3_url :: "string \<Rightarrow> string" where
  "s3_url p = ''s3:'' @ (if p = [] then [] else ''//'' @ escape_path p)"

text \<open>
  What the server asks of its surroundings when it starts: the environment variables, \<open>session.NewSession\<close> for a
  region (nothing, or the error at which \<open>session.Must\<close> panics), and \<open>net.Listen\<close> on an address (nothing when it
  listens, or its error).
\<close>

record surroundings =
  Getenv :: "string \<Rightarrow> string"
  NewSession :: "string \<Rightarrow> goerr option"
  Listen :: "string \<Rightarrow> goerr option"

definition NewS3Archiver :: "ArchiveConfig \<Rightarrow> surroundings \<Rightarrow> S3Archiver res" where
  "NewS3Archiver config env =
     (if IsLocal (ConfS3 config) \<and> Getenv env ''AWS_ACCESS_KEY_ID'' = [] then Inl (Fatal ''log.Fatal'')
      else case NewSession env (AwsRegion (ConfS3 config)) of
          Some _ \<Rightarrow> Inl (Panic ''session.Must'')
        | None \<Rightarrow> Inr \<lparr>bucketName = ConfBucketName (ConfS3 config), rootKey = RootKey (ConfS3 config)\<rparr>)"

text \<open>The methods of the interface.\<close>

definition archiveOne :: "Archiver \<Rightarrow> string \<Rightarrow> string \<Rightarrow> ('s3, 'z, unit) wgo" where
  "archiveOne a absSrcPath relDstPath =
     (case a of
        NullArchiver \<Rightarrow> go_ret ()
      | Disk d \<Rightarrow> on_fs (archiveOne_disk d absSrcPath relDstPath)
      | S3 s \<Rightarrow> archiveOne_s3 s absSrcPath relDstPath)"

definition LsDstFiles :: "Archiver \<Rightarrow> string \<Rightarrow> ('s3, 'z, string list) wgo" where
  "LsDstFiles a relDstRoot =
     (case a of
        NullArchiver \<Rightarrow> go_ret []
      | Disk d \<Rightarrow> on_fs (LsDstFiles_disk d relDstRoot)
      | S3 s \<Rightarrow> LsDstFiles_s3 s relDstRoot)"

definition DescribeDstRoot :: "Archiver \<Rightarrow> string" where
  "DescribeDstRoot a =
     (case a of NullArchiver \<Rightarrow> [] | Disk d \<Rightarrow> DstRoot d
      | S3 s \<Rightarrow> s3_url (path_join [bucketName s, rootKey s]))"

definition DescribeDstLoc :: "Archiver \<Rightarrow> string \<Rightarrow> string" where
  "DescribeDstLoc a relDstPath =
     (case a of NullArchiver \<Rightarrow> [] | Disk d \<Rightarrow> DescribeDstLoc_disk d relDstPath
      | S3 s \<Rightarrow> s3_url (path_join [bucketName s, dstKey s relDstPath]))"

subsection \<open>Manifests\<close>

record ManifestEntry =
  src :: string
  dst :: string

record Manifest =
  srcRoot :: string
  entries :: "ManifestEntry list"

text \<open>
  \<open>filepath.Walk\<close>: the callback sees the directory before its entries, the entries in name
  order, and no node information when the lookup failed. The fuel bounds the depth of the tree.
\<close>

primrec fold_res :: "('x \<Rightarrow> 'a \<Rightarrow> 'a res) \<Rightarrow> 'x list \<Rightarrow> 'a \<Rightarrow> 'a res" where
  "fold_res f [] a = Inr a"
| "fold_res f (x # xs) a = (case f x a of Inl e \<Rightarrow> Inl e | Inr b \<Rightarrow> fold_res f xs b)"

primrec walk :: "nat \<Rightarrow> (string \<Rightarrow> node option \<Rightarrow> 'a \<Rightarrow> 'a res) \<Rightarrow> fs \<Rightarrow> string \<Rightarrow> node \<Rightarrow> 'a \<Rightarrow> 'a res" where
  "walk 0 f fs path info a = Inl (Panic ''walk: out of fuel'')"
| "walk (Suc k) f fs path info a =
     (case f path (Some info) a of
        Inl e \<Rightarrow> Inl e
      | Inr b \<Rightarrow>
          (if info \<noteq> Dir then Inr b
           else case fs_read_dir fs path of
             Inl _ \<Rightarrow> Inr b
           | Inr names \<Rightarrow>
               fold_res (\<lambda>(n, _) a.
                 let filename = path_join [path, n]
                 in case fs_stat fs filename of
                      Inl _ \<Rightarrow> f filename None a
                    | Inr fileInfo \<Rightarrow> walk k f fs filename fileInfo a) names b))"

definition path_walk :: "fs \<Rightarrow> string \<Rightarrow> (string \<Rightarrow> node option \<Rightarrow> 'a \<Rightarrow> 'a res) \<Rightarrow> 'a \<Rightarrow> 'a res" where
  "path_walk fs root f a =
     (case fs_stat fs root of
        Inl _ \<Rightarrow> f root None a
      | Inr info \<Rightarrow> walk (Suc (length (fs_tree fs))) f fs root info a)"

text \<open>The callback of \<open>newSimpleManifest\<close>: a method call on a nil \<open>info\<close> panics.\<close>

definition manifest_visit :: "string \<Rightarrow> string \<Rightarrow> string \<Rightarrow> node option \<Rightarrow> Manifest \<Rightarrow> Manifest res" where
  "manifest_visit root dstSubRoot absSrcPath info manifest =
     (case info of
        None \<Rightarrow> Inl nil_deref
      | Some Dir \<Rightarrow> Inr manifest
      | Some (File _) \<Rightarrow> (case path_rel root absSrcPath of
          Inl _ \<Rightarrow> Inr manifest
        | Inr relSrcPath \<Rightarrow>
            let relDstRoot = path_join [dstSubRoot, relSrcPath]
            in Inr (manifest\<lparr>entries := entries manifest @ [\<lparr>src = relSrcPath, dst = relDstRoot\<rparr>]\<rparr>)))"

definition newSimpleManifest :: "string \<Rightarrow> string \<Rightarrow> (fs, Manifest) go" where
  "newSimpleManifest root dstSubRoot fs =
     (path_walk fs root (manifest_visit root dstSubRoot) \<lparr>srcRoot = root, entries = []\<rparr>, fs)"

definition archive_entry :: "Archiver \<Rightarrow> string \<Rightarrow> ManifestEntry \<Rightarrow> ('s3, 'z, unit) wgo" where
  "archive_entry a root entry w =
     (let absSrcPath = path_join [root, src entry]; relDstPath = dst entry
      in case archiveOne a absSrcPath relDstPath w of
           (Inl (Err err), w') \<Rightarrow>
             go_then (SubmitMetricCount ''archive_one.fail'' (f32_of_uint 1) [(''srcRoot'', root)])
               (CaptureError err [(''dst'', dst entry), (''src'', src entry), (''srcRoot'', root)]) w'
         | (Inl e, w') \<Rightarrow> (Inl e, w')
         | (Inr _, w') \<Rightarrow>
             SubmitMetricCount ''archive_one.success'' (f32_of_uint 1) [(''srcRoot'', root)] w')"

definition ArchiveManifest :: "Archiver \<Rightarrow> Manifest \<Rightarrow> ('s3, 'z, unit) wgo" where
  "ArchiveManifest a manifest =
     go_then (SubmitMetricCount ''archive_manifest'' (f32_of_uint (of_nat (length (entries manifest))))
               [(''root'', srcRoot manifest)])
       (each (archive_entry a (srcRoot manifest)) (entries manifest))"

definition ArchiveToNamedDir :: "Archiver \<Rightarrow> string \<Rightarrow> string \<Rightarrow> ('s3, 'z, unit) wgo" where
  "ArchiveToNamedDir a absSrcPath dstSubRoot =
     go_try (on_fs (newSimpleManifest absSrcPath dstSubRoot)) (\<lambda>manifest. ArchiveManifest a manifest)"

text \<open>\<open>ts\<close> is what \<open>getTimestamp\<close> returns.\<close>

definition archiveToTimestampedDir :: "Archiver \<Rightarrow> string \<Rightarrow> int \<Rightarrow> ('s3, 'z, unit) wgo" where
  "archiveToTimestampedDir a absSrcPath ts = ArchiveToNamedDir a absSrcPath (format_int ts)"

text \<open>
  The ticks of \<open>ArchiveToTimestampedDirsForever\<close>, at the given times. Its ticker needs a positive interval; that it panics
  without one is the rule \<open>no_ticker\<close> of \<open>ServerRun\<close>.
\<close>

definition archive_ticks :: "Archiver \<Rightarrow> string \<Rightarrow> int list \<Rightarrow> ('s3, 'z, unit) wgo" where
  "archive_ticks a absSrcPath tss =
     each (\<lambda>ts. go_catch (archiveToTimestampedDir a absSrcPath ts) (\<lambda>err. CaptureError err [])) tss"

subsection \<open>Archiving removes nothing\<close>

lemma grows_archiveOne_disk: "within fs_grows (archiveOne_disk a x y)"
  unfolding archiveOne_disk_def Let_def by (intro within_then within_try fs_grows_rules)

lemma grows_PutObject: "within world_grows (PutObject b k fd)"
  using reflpD[OF fs_grows_reflp]
  by (auto simp: within_def PutObject_def world_grows_def split: prod.split option.split)

lemma grows_archiveOne: "within world_grows (archiveOne a x y)"
  by (auto simp: archiveOne_def archiveOne_s3_def split: Archiver.split
      intro!: within_ret within_try grows_on_fs grows_archiveOne_disk grows_PutObject fs_grows_rules)

lemma grows_archive_entry: "within world_grows (archive_entry a root e)"
  unfolding within_def
proof
  fix w :: "('s3, 'z) world_scheme"
  obtain r w1 where r: "archiveOne a (path_join [root, src e]) (dst e) w = (r, w1)" by fastforce
  have "world_grows w w1" using grows_archiveOne r by (rule withinD)
  then show "world_grows w (snd (archive_entry a root e w))"
    using r by (auto simp: archive_entry_def Submit_ok world_grows_def split: sum.split fault.split)
qed

lemma grows_ArchiveManifest: "within world_grows (ArchiveManifest a m)"
  unfolding ArchiveManifest_def by (intro within_rules world_grows_preorder grows_submit grows_archive_entry)

lemma collect_reads: "snd (collect (\<lambda>x s. (g x, s)) xs s) = s"
  by (rule reads_state, intro within_collect eq_preorder) (simp add: within_def)

lemma grows_LsDstFiles: "within world_grows (LsDstFiles a x)"
proof -
  have "reads (LsDstFiles_disk d x)" for d
    by (auto simp: within_def LsDstFiles_disk_def Let_def split: sum.split fault.split)
  moreover have "reads (LsDstFiles_s3 s x)" for s
    unfolding within_def
  proof
    fix w :: "('s3, 'z) world_scheme"
    have "snd (collect (\<lambda>key w. (or_fatal (path_rel x key), w)) ks w) = w" for ks by (rule collect_reads)
    then show "w = snd (LsDstFiles_s3 s x w)"
      by (auto simp: LsDstFiles_s3_def Let_def split: sum.split option.split prod.split) (metis snd_conv)+
  qed
  ultimately show ?thesis
    by (auto simp: LsDstFiles_def split: Archiver.split intro!: within_ret grows_on_fs_reads
        within_mono[where Q = world_grows])
qed

lemma grows_archive_ticks: "within world_grows (archive_ticks a root tss)"
proof -
  have "reads (newSimpleManifest root d)" for d by (simp add: within_def newSimpleManifest_def)
  then have "within world_grows (archiveToTimestampedDir a root ts)" for ts
    unfolding archiveToTimestampedDir_def ArchiveToNamedDir_def
    by (intro within_try world_grows_preorder grows_on_fs_reads grows_ArchiveManifest)
  then show ?thesis
    unfolding archive_ticks_def by (intro within_rules world_grows_preorder grows_submit)
qed

subsection \<open>The files below a directory\<close>

text \<open>The files at or below \<open>p\<close>, as paths relative to it, in the order of the walk.\<close>

primrec files_below :: "nat \<Rightarrow> fs \<Rightarrow> path \<Rightarrow> path list" where
  "files_below 0 fs p = []"
| "files_below (Suc k) fs p =
     (case fs_lookup fs p of
        None \<Rightarrow> []
      | Some (File _) \<Rightarrow> [[]]
      | Some Dir \<Rightarrow> concat (map (\<lambda>n. map (Cons n) (files_below k fs (p @ [n]))) (fs_entries fs p)))"

lemma fs_lookup_prefix: "fs_wf fs \<Longrightarrow> fs_lookup fs (p @ r) = Some n \<Longrightarrow> \<exists>m. fs_lookup fs p = Some m"
  using fs_lookup_below_None[of fs p r] by (cases "fs_lookup fs p") auto

lemma fs_is_file_iff: "fs_is_file fs p \<longleftrightarrow> (\<exists>b. fs_lookup fs p = Some (File b))"
  by (auto simp: fs_is_file_def split: option.splits node.splits)

lemma fs_depth:
  assumes "fs_wf fs" and "fs_lookup fs p \<noteq> None"
  shows "length p \<le> length (fs_tree fs)"
proof -
  have "q \<in> fst ` set (fs_tree fs)" if "prefix q p" "q \<noteq> []" for q
  proof -
    have "fs_lookup fs q \<noteq> None"
      using that fs_lookup_prefix[OF assms(1), of q] assms(2) by (auto simp: prefix_def)
    with that(2) show ?thesis by (simp add: fs_lookup_def map_of_eq_None_iff)
  qed
  then have "set (tl (prefixes p)) \<subseteq> fst ` set (fs_tree fs)"
    by (cases p) auto
  then have "card (set (tl (prefixes p))) \<le> card (fst ` set (fs_tree fs))"
    by (intro card_mono) auto
  moreover have "card (set (tl (prefixes p))) = length p"
    using distinct_card[OF distinct_tl[OF distinct_prefixes], of p] by simp
  ultimately show ?thesis
    using card_length[of "map fst (fs_tree fs)"] by simp
qed

definition deep_enough :: "nat \<Rightarrow> fs \<Rightarrow> path \<Rightarrow> bool" where
  "deep_enough k fs p \<longleftrightarrow> (\<forall>r. fs_lookup fs (p @ r) \<noteq> None \<longrightarrow> length r < k)"

lemma deep_enough_tree: "fs_wf fs \<Longrightarrow> deep_enough (Suc (length (fs_tree fs))) fs p"
  using fs_depth[of fs "p @ r" for r] by (force simp: deep_enough_def)

lemma deep_enough_Suc: "deep_enough (Suc k) fs p \<Longrightarrow> deep_enough k fs (p @ [n])"
  by (force simp: deep_enough_def)

lemma deep_enough_0: "deep_enough 0 fs p \<Longrightarrow> fs_lookup fs p = None"
  by (auto simp: deep_enough_def dest: spec[of _ "[]"])

lemma files_below_set:
  assumes "fs_wf fs" and "deep_enough k fs p"
  shows "set (files_below k fs p) = {r. fs_is_file fs (p @ r)}"
  using assms(2)
proof (induction k arbitrary: p)
  case 0
  then show ?case
    using fs_lookup_below_None[OF assms(1) deep_enough_0] by (auto simp: fs_is_file_def)
next
  case (Suc k)
  note IH = Suc.IH[OF deep_enough_Suc[OF Suc.prems]]
  show ?case
  proof (cases "fs_is_dir fs p")
    case True
    have eq: "fs_is_file fs (p @ r) \<longleftrightarrow> (\<exists>n r'. r = n # r' \<and> n \<in> set (fs_entries fs p) \<and> fs_is_file fs ((p @ [n]) @ r'))" for r
    proof (cases r)
      case Nil
      with True show ?thesis by (simp add: fs_is_file_def)
    next
      case (Cons n r')
      have "n \<in> set (fs_entries fs p)" if "fs_is_file fs (p @ n # r')"
        using that fs_lookup_prefix[OF assms(1), of "p @ [n]" r']
        by (auto simp: fs_is_file_iff fs_entries_set)
      with Cons show ?thesis by auto
    qed
    show ?thesis
    proof (rule set_eqI)
      fix r
      have "r \<in> set (files_below (Suc k) fs p) \<longleftrightarrow>
          (\<exists>n r'. r = n # r' \<and> n \<in> set (fs_entries fs p) \<and> fs_is_file fs ((p @ [n]) @ r'))"
        using True IH by auto
      with eq[of r] show "r \<in> set (files_below (Suc k) fs p) \<longleftrightarrow> r \<in> {r. fs_is_file fs (p @ r)}"
        by simp
    qed
  next
    case False
    then have "fs_lookup fs (p @ r) = None" if "r \<noteq> []" for r
      using that fs_wf_no_child[OF assms(1)] fs_lookup_below_None[OF assms(1), of "p @ [hd r]" "tl r"]
      by (cases r) auto
    then have "fs_is_file fs (p @ r) \<longleftrightarrow> r = [] \<and> fs_is_file fs p" for r
      by (cases "r = []") (auto simp: fs_is_file_def)
    then show ?thesis
      using False by (auto simp: fs_is_file_def split: option.splits node.splits)
  qed
qed

lemma files_below_distinct: "distinct (files_below k fs p)"
proof (induction k arbitrary: p)
  case 0
  then show ?case by simp
next
  case (Suc k)
  have "distinct (concat (map (\<lambda>n. map (Cons n) (files_below k fs (p @ [n]))) ns))" if "distinct ns" for ns
    using that by (induction ns) (auto simp: Suc.IH distinct_map)
  then show ?case by (auto split: option.split node.split)
qed

definition manifest_entry :: "string \<Rightarrow> path \<Rightarrow> ManifestEntry" where
  "manifest_entry dstSubRoot r =
     \<lparr>src = join_with slash r, dst = path_join [dstSubRoot, join_with slash r]\<rparr>"

lemma fold_res_entries:
  assumes "\<And>x m. x \<in> set xs \<Longrightarrow> f x m = Inr (m\<lparr>entries := entries m @ g x\<rparr>)"
  shows "fold_res f xs m = Inr (m\<lparr>entries := entries m @ concat (map g xs)\<rparr>)"
  using assms by (induction xs arbitrary: m) auto

lemma walk_manifest:
  assumes wf: "fs_wf fs" and root: "fs_reach fs root" "fs_is_dir fs root"
    and "fs_lookup fs (root @ q) = Some info" and "deep_enough k fs (root @ q)"
  shows "walk k (manifest_visit (abs_of root) sub) fs (abs_of (root @ q)) info m =
    Inr (m\<lparr>entries := entries m @ map (\<lambda>r. manifest_entry sub (q @ r)) (files_below k fs (root @ q))\<rparr>)"
  using assms(4,5)
proof (induction k arbitrary: q info m)
  case 0
  then show ?case using deep_enough_0 by fastforce
next
  case (Suc k)
  have vq: "valid_names q" if "fs_lookup fs (root @ q) \<noteq> None" for q
    using that
  proof (induction q rule: rev_induct)
    case Nil
    then show ?case by simp
  next
    case (snoc n q)
    then obtain m where m: "fs_lookup fs ((root @ q) @ [n]) = Some m" by auto
    from fs_wf_lookup[OF wf m] snoc.IH show ?case by auto
  qed
  have q: "valid_names q" using vq Suc.prems(1) by simp
  have vr: "valid_names root" using root(1) by (rule fs_reach_valid)
  show ?case
  proof (cases info)
    case (File b)
    with Suc.prems(1) root(2) have "q \<noteq> []" by auto
    then have "path_rel (abs_of root) (abs_of (root @ q)) = Inr (join_with slash q)"
      using vr q by (simp add: path_rel_abs_of)
    then show ?thesis
      using File Suc.prems(1) by (simp add: manifest_visit_def manifest_entry_def Let_def)
  next
    case Dir
    let ?f = "\<lambda>(n, _ :: node) a.
      let filename = path_join [abs_of (root @ q), n]
      in case fs_stat fs filename of
           Inl _ \<Rightarrow> manifest_visit (abs_of root) sub filename None a
         | Inr fileInfo \<Rightarrow> walk k (manifest_visit (abs_of root) sub) fs filename fileInfo a"
    let ?names = "map (\<lambda>n. (n, the (fs_lookup fs ((root @ q) @ [n])))) (fs_entries fs (root @ q))"
    let ?g = "\<lambda>x. map (\<lambda>r. manifest_entry sub ((q @ [fst x]) @ r)) (files_below k fs ((root @ q) @ [fst x]))"
    have reach: "fs_reach fs (root @ q)" using root(1) q by (rule fs_reach_append)
    have step: "?f x m = Inr (m\<lparr>entries := entries m @ ?g x\<rparr>)" if "x \<in> set ?names" for x m
    proof -
      obtain n i where x: "x = (n, i)" by fastforce
      with that obtain c where c: "fs_lookup fs (root @ q @ [n]) = Some c"
        by (auto simp: fs_entries_set)
      then have n: "valid_name n" using vq[of "q @ [n]"] by simp
      have "fs_stat fs (abs_of (root @ q @ [n])) = Inr c"
        using reach n c fs_reach_append[of fs "root @ q" "[n]"] by (simp add: fs_stat_reach)
      then show ?thesis
        using Suc.IH[of "q @ [n]" c m] deep_enough_Suc[OF Suc.prems(2), of n] c x n q vr by simp
    qed
    have "fs_read_dir fs (abs_of (root @ q)) = Inr ?names"
      using reach Dir Suc.prems(1) by (simp add: fs_read_dir_reach)
    then have "walk (Suc k) (manifest_visit (abs_of root) sub) fs (abs_of (root @ q)) info m =
        fold_res ?f ?names m"
      using Dir by (simp add: manifest_visit_def)
    also have "\<dots> = Inr (m\<lparr>entries := entries m @ concat (map ?g ?names)\<rparr>)"
      using step by (rule fold_res_entries)
    finally show ?thesis
      using Dir Suc.prems(1) by (simp add: map_concat comp_def)
  qed
qed

text \<open>The manifest of a directory, without fuel.\<close>

definition all_files :: "fs \<Rightarrow> path \<Rightarrow> path list" where
  "all_files fs p = files_below (Suc (length (fs_tree fs))) fs p"

lemma all_files_set: "fs_wf fs \<Longrightarrow> set (all_files fs p) = {r. fs_is_file fs (p @ r)}"
  using files_below_set[OF _ deep_enough_tree] by (simp add: all_files_def del: files_below.simps)

lemma all_files_distinct [simp]: "distinct (all_files fs p)"
  using files_below_distinct by (simp add: all_files_def del: files_below.simps)

lemma newSimpleManifest_ok:
  assumes "dir_ready fs root"
  shows "newSimpleManifest (abs_of root) sub fs =
    (Inr \<lparr>srcRoot = abs_of root, entries = map (manifest_entry sub) (all_files fs root)\<rparr>, fs)"
proof -
  have h: "fs_wf fs" "fs_reach fs root" "fs_is_dir fs root" using assms by (simp_all add: dir_ready_def)
  then have "fs_lookup fs (root @ []) = Some Dir" "deep_enough (Suc (length (fs_tree fs))) fs (root @ [])"
    using deep_enough_tree by simp_all
  from walk_manifest[OF h this] h show ?thesis
    by (simp add: newSimpleManifest_def path_walk_def fs_stat_reach all_files_def
        del: walk.simps files_below.simps)
qed

subsection \<open>Copying one file on disk\<close>

lemma path_join_rel:
  "valid_names p \<Longrightarrow> valid_names r \<Longrightarrow> r \<noteq> [] \<Longrightarrow> path_join [abs_of p, join_with slash r] = abs_of (p @ r)"
  using path_join_up[of p "[]" r] by (simp add: up_path_def)

text \<open>The file at a path, if a file is there.\<close>

definition file_at :: "fs \<Rightarrow> path \<Rightarrow> bytes option" where
  "file_at fs p = (case fs_lookup fs p of Some (File b) \<Rightarrow> Some b | _ \<Rightarrow> None)"

lemma file_at_Some: "file_at fs p = Some b \<longleftrightarrow> fs_lookup fs p = Some (File b)"
  by (auto simp: file_at_def split: option.splits node.splits)

lemma not_prefix_butlast: "p \<noteq> [] \<Longrightarrow> \<not> prefix p (butlast p)"
  by (cases p rule: rev_cases) (auto dest!: prefix_length_le)

definition disk_fits :: "path \<Rightarrow> fs \<Rightarrow> path \<Rightarrow> bool" where
  "disk_fits dr fs rd \<longleftrightarrow> fs_wf fs \<and> fs_reach fs dr \<and> valid_names rd \<and> rd \<noteq> [] \<and>
     no_file_on fs (butlast (dr @ rd)) \<and> \<not> fs_is_dir fs (dr @ rd)"

definition fs_copy :: "path \<Rightarrow> bytes \<Rightarrow> fs \<Rightarrow> fs" where
  "fs_copy p b fs = fs_put p (File b) (mkdirs (butlast p) fs)"

lemma fs_lookup_copy:
  "p \<noteq> [] \<Longrightarrow> fs_lookup (fs_copy p b fs) q =
     (if q = p then Some (File b) else if prefix q (butlast p) then Some Dir else fs_lookup fs q)"
  by (simp add: fs_copy_def fs_lookup_put fs_lookup_mkdirs)

lemma fs_copy_denied [simp]: "fs_denied (fs_copy p b fs) = fs_denied fs"
  by (simp add: fs_copy_def)

lemma file_at_copy:
  "no_file_on fs (butlast p) \<Longrightarrow> p \<noteq> [] \<Longrightarrow>
   file_at (fs_copy p b fs) q = (if q = p then Some b else file_at fs q)"
  using no_file_on_lookup[of fs "butlast p" q]
  by (auto simp: file_at_def fs_lookup_copy split: option.split node.split)

lemma fs_wf_copy:
  assumes "disk_fits dr fs rd"
  shows "fs_wf (fs_copy (dr @ rd) b fs)"
proof -
  let ?p = "dr @ rd"
  have h: "fs_wf fs" "valid_names ?p" "rd \<noteq> []" "no_file_on fs (butlast ?p)" "\<not> fs_is_dir fs ?p"
    using assms by (auto simp: disk_fits_def fs_reach_def)
  then have v: "valid_names (butlast ?p)" by (auto simp: list_all_iff dest: in_set_butlastD)
  have "\<not> prefix ?p (butlast ?p)" using h(3) by (intro not_prefix_butlast) simp
  then show ?thesis
    using h fs_wf_mkdirs[OF h(1) v h(4)] unfolding fs_copy_def
    by (intro fs_wf_put_file) (auto simp: fs_lookup_mkdirs)
qed

lemma archiveOne_disk_ok:
  assumes fits: "disk_fits dr fs rd" and x: "fs_reach fs x" "file_at fs x = Some b"
    and "x \<noteq> dr @ rd"
  shows "archiveOne_disk \<lparr>DstRoot = abs_of dr\<rparr> (abs_of x) (join_with slash rd) fs =
    (Inr (), fs_copy (dr @ rd) b fs)"
proof -
  let ?y = "dr @ rd" and ?d = "dr @ butlast rd"
  let ?fs1 = "mkdirs ?d fs"
  have h: "fs_reach fs dr" "valid_names rd" "rd \<noteq> []" "no_file_on fs ?d" "\<not> fs_is_dir fs ?y"
    using fits by (auto simp: disk_fits_def butlast_append)
  have v: "valid_names (butlast rd)" "valid_name (last rd)"
    using h(2,3) by (auto simp: list_all_iff dest: in_set_butlastD)
  have y: "?y = ?d @ [last rd]" using h(3) by simp
  have reach: "fs_reach fs ?d" "fs_reach fs ?y"
    using h(1,2) v(1) by (simp_all add: fs_reach_append)
  have join: "path_join [abs_of dr, join_with slash rd] = abs_of ?y"
    using h(1-3) by (intro path_join_rel) (simp_all add: fs_reach_valid)
  have dir: "path_dir (abs_of ?y) = abs_of ?d"
    using v path_dir_snoc[of ?d "last rd"] fs_reach_valid[OF reach(1)] unfolding y by blast
  have src: "fs_lookup ?fs1 x = Some (File b)"
    using x(2) no_file_on_lookup[OF h(4), of x] by (auto simp: file_at_Some fs_lookup_mkdirs)
  have "\<not> prefix ?y ?d" using h(3) not_prefix_butlast[of ?y] by (simp add: butlast_append)
  then have y1: "fs_lookup ?fs1 ?y = fs_lookup fs ?y" by (simp add: fs_lookup_mkdirs)
  have opened: "os_open_file True (abs_of ?y) ?fs1 = (Inr ?y, fs_put ?y (File []) ?fs1)"
  proof (cases "fs_lookup fs ?y")
    case None
    then show ?thesis
      using os_open_file_new[of ?fs1 ?d "last rd" True] reach y1 y by (simp add: fs_lookup_mkdirs)
  next
    case (Some m)
    with h(5) obtain c where "fs_lookup ?fs1 ?y = Some (File c)" using y1 by (cases m) auto
    then show ?thesis using os_open_file_old[of ?fs1 ?y c True] reach(2) by simp
  qed
  have "io_copy ?y x (fs_put ?y (File []) ?fs1) = (Inr (), fs_put ?y (File b) ?fs1)"
    using src assms(4) h(3) by (simp add: io_copy_def file_write_def)
  moreover have "os_open (abs_of x) ?fs1 = (Inr x, ?fs1)"
    using src x(1) by (intro os_open_reach) simp_all
  moreover have "os_mkdir_all (abs_of ?d) fs = (Inr (), ?fs1)"
    by (rule os_mkdir_all_ok[OF reach(1) h(4)])
  ultimately show ?thesis
    using opened h(3) by (simp add: archiveOne_disk_def join dir fs_copy_def butlast_append)
qed

subsection \<open>The contract of an archive that copies files\<close>

text \<open>
  \<open>copy x y\<close> copies the source \<open>x\<close> to the destination \<open>y\<close>; \<open>source\<close> and \<open>held\<close> are what is
  at the source and in the archive. \<open>fits\<close> says that the archive can take a file there, \<open>apart\<close>
  that two destinations do not stand in each other's way, \<open>away\<close> that writing the destination
  does not touch the source.
\<close>

locale archive_store =
  fixes copy :: "'x \<Rightarrow> 'y \<Rightarrow> ('s, unit) go"
    and source :: "'s \<Rightarrow> 'x \<Rightarrow> bytes option"
    and held :: "'s \<Rightarrow> 'y \<Rightarrow> bytes option"
    and fits :: "'s \<Rightarrow> 'y \<Rightarrow> bool"
    and apart :: "'y \<Rightarrow> 'y \<Rightarrow> bool"
    and away :: "'x \<Rightarrow> 'y \<Rightarrow> bool"
  assumes copy_ok: "source s x = Some b \<Longrightarrow> fits s y \<Longrightarrow> away x y \<Longrightarrow> \<exists>s'. copy x y s = (Inr (), s')"
    and copy_held: "source s x = Some b \<Longrightarrow> fits s y \<Longrightarrow> away x y \<Longrightarrow> copy x y s = (Inr (), s') \<Longrightarrow>
      held s' = (held s)(y \<mapsto> b)"
    and copy_fits: "source s x = Some b \<Longrightarrow> fits s y \<Longrightarrow> away x y \<Longrightarrow> copy x y s = (Inr (), s') \<Longrightarrow>
      fits s z \<Longrightarrow> apart y z \<Longrightarrow> fits s' z"
    and copy_source: "source s x = Some b \<Longrightarrow> fits s y \<Longrightarrow> away x y \<Longrightarrow> copy x y s = (Inr (), s') \<Longrightarrow>
      away x' y \<Longrightarrow> source s' x' = source s x'"
    and apart_irrefl: "\<not> apart y y"
begin

fun all_apart :: "'y list \<Rightarrow> bool" where
  "all_apart [] = True"
| "all_apart (y # ys) = ((\<forall>z\<in>set ys. apart y z) \<and> all_apart ys)"

lemma all_apartI:
  "distinct ys \<Longrightarrow> (\<And>y z. y \<in> set ys \<Longrightarrow> z \<in> set ys \<Longrightarrow> y \<noteq> z \<Longrightarrow> apart y z) \<Longrightarrow> all_apart ys"
  by (induction ys) auto

text \<open>Copying every job of a list leaves each destination with its source, and nothing else changed.\<close>

lemma copy_all:
  assumes "\<forall>j\<in>set jobs. source s (fst j) \<noteq> None \<and> fits s (snd j)"
    and "\<forall>i\<in>set jobs. \<forall>j\<in>set jobs. away (fst i) (snd j)"
    and "all_apart (map snd jobs)"
  shows "\<exists>s'. each (\<lambda>j. copy (fst j) (snd j)) jobs s = (Inr (), s') \<and>
    (\<forall>z. held s' z = (case map_of (map (\<lambda>j. (snd j, fst j)) jobs) z of
       None \<Rightarrow> held s z | Some x \<Rightarrow> source s x)) \<and>
    (\<forall>x'. (\<forall>j\<in>set jobs. away x' (snd j)) \<longrightarrow> source s' x' = source s x')"
  using assms
proof (induction jobs arbitrary: s)
  case Nil
  then show ?case by simp
next
  case (Cons job jobs)
  let ?x = "fst job" and ?y = "snd job"
  from Cons.prems(1) obtain b where b: "source s ?x = Some b" and f: "fits s ?y" by auto
  have a: "away ?x ?y" using Cons.prems(2) by simp
  obtain s1 where s1: "copy ?x ?y s = (Inr (), s1)" using copy_ok[OF b f a] by blast
  note held1 = copy_held[OF b f a s1] and src1 = copy_source[OF b f a s1]
  have prem: "\<forall>j\<in>set jobs. source s1 (fst j) \<noteq> None \<and> fits s1 (snd j)"
    using Cons.prems copy_fits[OF b f a s1] src1 by auto
  from Cons.IH[OF prem] Cons.prems(2,3) obtain s2 where
    s2: "each (\<lambda>j. copy (fst j) (snd j)) jobs s1 = (Inr (), s2)"
    "\<forall>z. held s2 z = (case map_of (map (\<lambda>j. (snd j, fst j)) jobs) z of
       None \<Rightarrow> held s1 z | Some x \<Rightarrow> source s1 x)"
    "\<forall>x'. (\<forall>j\<in>set jobs. away x' (snd j)) \<longrightarrow> source s2 x' = source s1 x'"
    by auto
  have new: "map_of (map (\<lambda>j. (snd j, fst j)) jobs) ?y = None"
    using Cons.prems(3) apart_irrefl by (fastforce simp: map_of_eq_None_iff)
  have "held s2 z = (case map_of (map (\<lambda>j. (snd j, fst j)) (job # jobs)) z of
       None \<Rightarrow> held s z | Some x \<Rightarrow> source s x)" for z
  proof (cases "map_of (map (\<lambda>j. (snd j, fst j)) jobs) z")
    case None
    then show ?thesis using s2(2) held1 b by simp
  next
    case (Some x')
    then have "\<exists>j\<in>set jobs. fst j = x'" by (auto dest!: map_of_SomeD)
    then have "source s1 x' = source s x'" using src1[of x'] Cons.prems(2) by auto
    then show ?thesis using Some s2(2) new by auto
  qed
  moreover have "source s2 x' = source s x'" if "\<forall>j\<in>set (job # jobs). away x' (snd j)" for x'
    using that s2(3) src1 by simp
  moreover have "each (\<lambda>j. copy (fst j) (snd j)) (job # jobs) s = (Inr (), s2)"
    using s1 s2(1) by simp
  ultimately show ?case by blast
qed

end

subsection \<open>The disk archiver keeps it\<close>

definition disk_at :: "path \<Rightarrow> Archiver" where
  "disk_at dr = Disk \<lparr>DstRoot = abs_of dr\<rparr>"

definition rel_entry :: "path \<Rightarrow> path \<Rightarrow> ManifestEntry" where
  "rel_entry r rd = \<lparr>src = join_with slash r, dst = join_with slash rd\<rparr>"

text \<open>The content of a source the archiver can read.\<close>

definition readable :: "path \<Rightarrow> fs \<Rightarrow> path \<Rightarrow> bytes option" where
  "readable sr fs r =
     (if fs_wf fs \<and> fs_reach fs sr \<and> valid_names r \<and> r \<noteq> [] then file_at fs (sr @ r) else None)"

lemma readable_Some:
  "readable sr fs r = Some b \<longleftrightarrow>
     fs_wf fs \<and> fs_reach fs sr \<and> valid_names r \<and> r \<noteq> [] \<and> file_at fs (sr @ r) = Some b"
  by (auto simp: readable_def)

lemma archive_entry_disk:
  assumes "readable sr (w_fs w) r = Some b" and "disk_fits dr (w_fs w) rd" and "sr @ r \<noteq> dr @ rd"
  shows "\<exists>ev. archive_entry (disk_at dr) (abs_of sr) (rel_entry r rd) w =
    (Inr (), w\<lparr>w_fs := fs_copy (dr @ rd) b (w_fs w), w_events := w_events w @ [ev]\<rparr>)"
proof -
  have h: "fs_reach (w_fs w) sr" "valid_names r" "r \<noteq> []" "file_at (w_fs w) (sr @ r) = Some b"
    using assms(1) by (simp_all add: readable_Some)
  have join: "path_join [abs_of sr, join_with slash r] = abs_of (sr @ r)"
    using h by (intro path_join_rel) (simp_all add: fs_reach_valid)
  have reach: "fs_reach (w_fs w) (sr @ r)" using h by (simp add: fs_reach_append)
  have "archiveOne (disk_at dr) (abs_of (sr @ r)) (join_with slash rd) w =
      (Inr (), w\<lparr>w_fs := fs_copy (dr @ rd) b (w_fs w)\<rparr>)"
    using archiveOne_disk_ok[OF assms(2) reach h(4) assms(3)] by (simp add: archiveOne_def disk_at_def)
  then show ?thesis
    by (auto simp: archive_entry_def rel_entry_def join Submit_ok)
qed

lemma disk_fits_copy:
  assumes "disk_fits dr fs y" and "disk_fits dr fs z" and "\<not> prefix y z" and "\<not> prefix z y"
  shows "disk_fits dr (fs_copy (dr @ y) b fs) z"
proof -
  have y: "dr @ y \<noteq> []" "no_file_on fs (butlast (dr @ y))" using assms(1) by (auto simp: disk_fits_def)
  have z: "z \<noteq> []" "no_file_on fs (butlast (dr @ z))" "\<not> fs_is_dir fs (dr @ z)"
    using assms(2) by (auto simp: disk_fits_def)
  have bz: "prefix q (butlast p) \<Longrightarrow> prefix q p" for q p :: path
    by (metis append_butlast_last_id butlast.simps(1) prefix_prefix)
  have "\<not> fs_is_file (fs_copy (dr @ y) b fs) q" if "prefix q (butlast (dr @ z))" for q
  proof -
    have "q \<noteq> dr @ y" using that assms(3) bz[of q "dr @ z"] by auto
    then show ?thesis
      using z(2) that y by (auto simp: fs_is_file_def fs_lookup_copy no_file_on_def list_all_iff)
  qed
  moreover have "\<not> fs_is_dir (fs_copy (dr @ y) b fs) (dr @ z)"
    using z(3) assms(4) y(1) bz[of "dr @ z" "dr @ y"] by (auto simp: fs_lookup_copy)
  ultimately show ?thesis
    using assms(2) fs_wf_copy[OF assms(1), of b] fs_reach_cong[of "fs_copy (dr @ y) b fs" fs dr]
    by (auto simp: disk_fits_def no_file_on_def list_all_iff)
qed

lemma readable_copy:
  assumes "disk_fits dr fs rd" and "sr @ r \<noteq> dr @ rd"
  shows "readable sr (fs_copy (dr @ rd) b fs) r = readable sr fs r"
proof -
  have "fs_wf fs" "no_file_on fs (butlast (dr @ rd))" "dr @ rd \<noteq> []"
    using assms(1) by (auto simp: disk_fits_def)
  then show ?thesis
    using assms fs_wf_copy[OF assms(1), of b] fs_reach_cong[of "fs_copy (dr @ rd) b fs" fs sr]
    by (simp add: readable_def file_at_copy)
qed

interpretation disk_archive: archive_store
  "\<lambda>r rd. archive_entry (disk_at dr) (abs_of sr) (rel_entry r rd)"
  "\<lambda>w. readable sr (w_fs w)" "\<lambda>w rd. file_at (w_fs w) (dr @ rd)" "\<lambda>w. disk_fits dr (w_fs w)"
  "\<lambda>y z. \<not> prefix y z \<and> \<not> prefix z y" "\<lambda>r rd. sr @ r \<noteq> dr @ rd"
  for sr dr
proof unfold_locales
  fix w w' :: "('a, 'b) world_scheme" and r y z r' b
  assume a: "readable sr (w_fs w) r = Some b" "disk_fits dr (w_fs w) y" "sr @ r \<noteq> dr @ y"
  note ok = archive_entry_disk[OF a]
  then show "\<exists>w'. archive_entry (disk_at dr) (abs_of sr) (rel_entry r y) w = (Inr (), w')" by blast
  assume "archive_entry (disk_at dr) (abs_of sr) (rel_entry r y) w = (Inr (), w')"
  then have w': "w_fs w' = fs_copy (dr @ y) b (w_fs w)" using ok by auto
  have y: "no_file_on (w_fs w) (butlast (dr @ y))" "dr @ y \<noteq> []"
    using a(2) by (auto simp: disk_fits_def)
  show "(\<lambda>rd. file_at (w_fs w') (dr @ rd)) = (\<lambda>rd. file_at (w_fs w) (dr @ rd))(y \<mapsto> b)"
    by (auto simp: w' file_at_copy[OF y])
  show "disk_fits dr (w_fs w') z" if "disk_fits dr (w_fs w) z" "\<not> prefix y z \<and> \<not> prefix z y"
    using disk_fits_copy[OF a(2) that(1)] that(2) by (simp add: w')
  show "readable sr (w_fs w') r' = readable sr (w_fs w) r'" if "sr @ r' \<noteq> dr @ y"
    using readable_copy[OF a(2) that] by (simp add: w')
qed auto

subsection \<open>Archiving a manifest\<close>

lemma ArchiveManifest_disk:
  assumes "\<forall>j\<in>set jobs. readable sr (w_fs w) (fst j) \<noteq> None \<and> disk_fits dr (w_fs w) (snd j)"
    and "\<forall>i\<in>set jobs. \<forall>j\<in>set jobs. sr @ fst i \<noteq> dr @ snd j"
    and "distinct (map snd jobs)"
    and "\<forall>i\<in>set jobs. \<forall>j\<in>set jobs. prefix (snd i) (snd j) \<longrightarrow> snd i = snd j"
  shows "\<exists>w'. ArchiveManifest (disk_at dr)
      \<lparr>srcRoot = abs_of sr, entries = map (\<lambda>j. rel_entry (fst j) (snd j)) jobs\<rparr> w = (Inr (), w') \<and>
    (\<forall>z. file_at (w_fs w') (dr @ z) = (case map_of (map (\<lambda>j. (snd j, fst j)) jobs) z of
       None \<Rightarrow> file_at (w_fs w) (dr @ z) | Some x \<Rightarrow> readable sr (w_fs w) x)) \<and>
    (\<forall>r. (\<forall>j\<in>set jobs. sr @ r \<noteq> dr @ snd j) \<longrightarrow> readable sr (w_fs w') r = readable sr (w_fs w) r)"
proof -
  let ?m = "\<lparr>srcRoot = abs_of sr, entries = map (\<lambda>j. rel_entry (fst j) (snd j)) jobs\<rparr>"
  define w1 where "w1 = snd (SubmitMetricCount ''archive_manifest''
    (f32_of_uint (of_nat (length (entries ?m)))) [(''root'', srcRoot ?m)] w)"
  have fs: "w_fs w1 = w_fs w" by (simp add: w1_def Submit_ok)
  have start: "ArchiveManifest (disk_at dr) ?m w =
      each (\<lambda>j. archive_entry (disk_at dr) (abs_of sr) (rel_entry (fst j) (snd j))) jobs w1"
    by (simp add: ArchiveManifest_def w1_def Submit_ok each_map go_then_def go_try_def)
  have "disk_archive.all_apart (map snd jobs)"
    using assms(3,4) by (intro disk_archive.all_apartI) (auto, metis snd_conv)
  with disk_archive.copy_all[of jobs sr w1 dr] assms(1,2) show ?thesis
    unfolding start fs by blast
qed

text \<open>The archivers fail with an error value only, and leave the events and the reporter alone.\<close>

definition same_log :: "('s3, 'z) world_scheme \<Rightarrow> ('s3, 'z) world_scheme \<Rightarrow> bool" where
  "same_log w w' \<longleftrightarrow> w_events w' = w_events w \<and> w_report w' = w_report w"

lemma same_log_preorder [simp]: "reflp same_log" "transp same_log"
  by (auto intro: reflpI transpI simp: same_log_def)

lemma same_log_on_fs: "within same_log (on_fs m)"
  by (simp add: within_def on_fs_def same_log_def split: prod.split)

lemma archiveOne_log: "within same_log (archiveOne a x y)"
proof -
  have "within same_log (PutObject b k fd)" for b k fd
    by (auto simp: within_def PutObject_def same_log_def split: prod.split option.split)
  then show ?thesis
    by (auto simp: archiveOne_def archiveOne_s3_def same_log_on_fs split: Archiver.split
        intro!: within_ret within_try)
qed

lemma archiveOne_errs: "errs (archiveOne a x y)"
proof -
  have "errs (PutObject b k fd)" for b k fd
    by (auto simp: errs_def PutObject_def split: prod.splits option.splits)
  then show ?thesis
    by (auto simp: archiveOne_def archiveOne_s3_def archiveOne_disk_def Let_def split: Archiver.split
        intro!: errs_rules errs_on_fs errs_calls)
qed

text \<open>
  What archiving a manifest does to the files and to S3, without what it logs: each entry in order, the failures
  left behind; with the result of each.
\<close>

primrec archive_all :: "Archiver \<Rightarrow> string \<Rightarrow> ManifestEntry list \<Rightarrow> ('s3, 'z) world_scheme \<Rightarrow>
    unit res list \<times> ('s3, 'z) world_scheme" where
  "archive_all a root [] w = ([], w)"
| "archive_all a root (entry # es) w =
     (let (r, w1) = archiveOne a (path_join [root, src entry]) (dst entry) w; (rs, w2) = archive_all a root es w1
      in (r # rs, w2))"

text \<open>What one entry logs when the metrics service takes everything.\<close>

definition entry_log :: "string \<Rightarrow> ManifestEntry \<Rightarrow> unit res \<Rightarrow> event list" where
  "entry_log root entry r =
     (case r of
        Inr _ \<Rightarrow> [Submitted Counter ''archive_one.success'' (f32_of_uint 1) [(''srcRoot'', root)]]
      | Inl (Err err) \<Rightarrow> [Submitted Counter ''archive_one.fail'' (f32_of_uint 1) [(''srcRoot'', root)],
          Captured err [(''dst'', dst entry), (''src'', src entry), (''srcRoot'', root)]]
      | Inl _ \<Rightarrow> [])"

text \<open>The archivers do not look at the log.\<close>

lemma archiveOne_logged:
  "archiveOne a x y (w\<lparr>w_events := es\<rparr>) = (case archiveOne a x y w of (r, w') \<Rightarrow> (r, w'\<lparr>w_events := es\<rparr>))"
  by (auto simp: archiveOne_def archiveOne_s3_def PutObject_def on_fs_def go_try_def go_ret_def
      split: Archiver.split prod.split sum.split option.split)

lemma archive_entries_logged:
  assumes "w_report w = (\<lambda>_ _ _ _. None)" and "archive_all a root es w = (rs, w2)"
  shows "each (archive_entry a root) es (w\<lparr>w_events := evs\<rparr>) =
    (Inr (), w2\<lparr>w_events := evs @ concat (map2 (entry_log root) es rs)\<rparr>)"
  using assms
proof (induction es arbitrary: w evs rs)
  case Nil
  then show ?case by simp
next
  case (Cons e es)
  obtain r w1 where r: "archiveOne a (path_join [root, src e]) (dst e) w = (r, w1)" by fastforce
  obtain rs' where rs: "archive_all a root es w1 = (rs', w2)" "rs = r # rs'"
    using Cons.prems(2) r by (auto simp: Let_def split: prod.splits)
  have w1: "w_report w1 = (\<lambda>_ _ _ _. None)"
    using withinD[OF archiveOne_log r] Cons.prems(1) by (simp add: same_log_def)
  have "archive_entry a root e (w\<lparr>w_events := evs\<rparr>) = (Inr (), w1\<lparr>w_events := evs @ entry_log root e r\<rparr>)"
  proof (cases r)
    case (Inl f)
    with r obtain g where "f = Err g" using errsD[OF archiveOne_errs, of a] by blast
    with Inl r w1 show ?thesis
      by (simp add: archive_entry_def Let_def archiveOne_logged Submit_ok metric_event_def entry_log_def)
  next
    case (Inr u)
    with r w1 show ?thesis
      by (simp add: archive_entry_def Let_def archiveOne_logged Submit_ok metric_event_def entry_log_def)
  qed
  with Cons.IH[OF w1 rs(1), of "evs @ entry_log root e r"] rs(2) show ?case by simp
qed

lemma archive_all_errs: "archive_all a root es w = (rs, w2) \<Longrightarrow>
  length rs = length es \<and> (\<forall>r\<in>set rs. r = Inr () \<or> (\<exists>err. r = Inl (Err err)))"
proof (induction es arbitrary: w rs)
  case (Cons e es)
  obtain r w1 where r: "archiveOne a (path_join [root, src e]) (dst e) w = (r, w1)" by fastforce
  obtain rs' where rs: "archive_all a root es w1 = (rs', w2)" "rs = r # rs'"
    using Cons.prems r by (auto simp: Let_def split: prod.splits)
  have "r = Inr () \<or> (\<exists>err. r = Inl (Err err))"
    using errsD[OF archiveOne_errs, of a] r by (cases r) auto
  then show ?case using Cons.IH[OF rs(1)] rs(2) by simp
qed simp

subsection \<open>A snapshot of a directory\<close>

lemma path_join_relative:
  assumes "valid_name n" and "valid_names r" and "r \<noteq> []"
  shows "path_join [n, join_with slash r] = join_with slash (n # r)"
proof -
  have "split_on slash (join_with slash [n, join_with slash r]) = n # r"
    using assms concat_split_on_valid[OF valid_names_no_slash[OF assms(2)]]
    by (simp add: split_on_join) (simp add: valid_name_def)
  moreover have "\<not> is_abs (n @ s)" for s
    using assms(1) by (cases n) (auto simp: is_abs_def valid_name_def)
  moreover have "n \<noteq> []" using assms(1) by (simp add: valid_name_def)
  ultimately show ?thesis
    using assms by (simp add: path_join_def path_clean_def unparse_def)
qed

lemma file_no_prefix:
  assumes "fs_wf fs" and "fs_is_file fs (p @ a)" and "fs_is_file fs (p @ b)" and "prefix a b"
  shows "a = b"
proof (rule ccontr)
  assume "a \<noteq> b"
  with assms(4) obtain c d where b: "b = a @ c # d"
    by (metis append.right_neutral neq_Nil_conv prefixE)
  have "fs_lookup fs (p @ a @ [c]) = None"
    using fs_wf_no_child[OF assms(1), of "p @ a" c] assms(2) by (auto simp: fs_is_file_iff)
  then show False
    using fs_lookup_below_None[OF assms(1), of "p @ a @ [c]" d] assms(3) b
    by (auto simp: fs_is_file_iff)
qed

lemma wf_names: "fs_wf fs \<Longrightarrow> valid_names p \<Longrightarrow> fs_lookup fs (p @ r) = Some n \<Longrightarrow> valid_names r"
proof (induction r arbitrary: n rule: rev_induct)
  case Nil
  then show ?case by simp
next
  case (snoc c r)
  from fs_wf_lookup[of fs "p @ r" c] snoc show ?case by auto
qed

lemma valid_format_int: "valid_name (format_int ts)"
proof -
  have d: "is_digit c" if "0 \<le> n" "c \<in> set (dec_digits n)" for n c using that by (rule dec_digits_chars)
  have "\<not> is_digit slash" "\<not> is_digit (CHR 0x00)" "\<not> is_digit (CHR ''.'')"
    by (simp_all add: is_digit_def)
  then have v: "slash \<notin> set (dec_digits n)" "CHR 0x00 \<notin> set (dec_digits n)" "CHR ''.'' \<notin> set (dec_digits n)"
    if "0 \<le> n" for n using d[OF that] by blast+
  have "dec_digits n \<noteq> ''.''" "dec_digits n \<noteq> ''..''" if "0 \<le> n" for n
    using v(3)[OF that] by auto
  then show ?thesis
    using v by (auto simp: valid_name_def format_int_def)
qed

lemma manifest_entry_rel:
  "valid_name t \<Longrightarrow> valid_names r \<Longrightarrow> r \<noteq> [] \<Longrightarrow> manifest_entry t r = rel_entry r (t # r)"
  by (simp add: manifest_entry_def rel_entry_def path_join_relative)

subsection \<open>Properties\<close>

text \<open>
  C24: The manifest of a directory lists every file below it exactly once, in the order of the walk, with its path
  relative to the directory and the same path below the destination; for a directory that does
  not exist the callback dereferences a nil node and panics. This is for a directory that the process may use
  with everything in it; the walk is not fatal at a directory that is there and cannot be listed, but
  skips it, which is not the case considered here.
\<close>

theorem newSimpleManifest_complete:
  assumes "fs_wf fs" and "fs_reach fs root" and "\<not> fs_is_file fs root"
  shows "newSimpleManifest (abs_of root) sub fs =
      (if fs_is_dir fs root
       then Inr \<lparr>srcRoot = abs_of root, entries = map (manifest_entry sub) (all_files fs root)\<rparr>
       else Inl nil_deref, fs) \<and>
    distinct (all_files fs root) \<and> set (all_files fs root) = {r. fs_is_file fs (root @ r)}"
proof (cases "fs_lookup fs root")
  case None
  then show ?thesis
    using assms(2) all_files_set[OF assms(1)]
    by (simp add: newSimpleManifest_def path_walk_def fs_stat_reach manifest_visit_def)
next
  case (Some m)
  then have "fs_is_dir fs root" using assms(3) by (cases m) (auto simp: fs_is_file_iff)
  then show ?thesis
    using newSimpleManifest_ok[of fs root sub] assms(1,2) all_files_set[OF assms(1)]
    by (simp add: dir_ready_def)
qed

lemma newSimpleManifest_complete_witness:
  "newSimpleManifest ''/etc'' ''ts'' secret_fs =
     (Inr \<lparr>srcRoot = ''/etc'', entries = [\<lparr>src = ''key'', dst = ''ts/key''\<rparr>]\<rparr>, secret_fs)"
proof -
  have h: "fs_wf secret_fs" "fs_reach secret_fs [''etc'']" "\<not> fs_is_file secret_fs [''etc'']" by code_simp+
  have "map (manifest_entry ''ts'') (all_files secret_fs [''etc'']) = [\<lparr>src = ''key'', dst = ''ts/key''\<rparr>]"
    "fs_is_dir secret_fs [''etc'']" "abs_of [''etc''] = ''/etc''" by code_simp+
  then show ?thesis using newSimpleManifest_complete[OF h, of "''ts''"] by simp
qed

text \<open>
  Archiving a file to local disk makes the missing directories and leaves in the archive
  exactly the source's bytes, whatever the destination held; every other file is unchanged.
\<close>

theorem archiveOne_disk_exact:
  assumes "disk_fits dr fs rd" and "fs_reach fs x" and "file_at fs x = Some b" and "x \<noteq> dr @ rd"
  shows "\<exists>fs'. archiveOne_disk \<lparr>DstRoot = abs_of dr\<rparr> (abs_of x) (join_with slash rd) fs = (Inr (), fs') \<and>
    fs_wf fs' \<and> (\<forall>p. file_at fs' p = (if p = dr @ rd then Some b else file_at fs p)) \<and>
    (\<forall>p. prefix p (butlast (dr @ rd)) \<longrightarrow> fs_is_dir fs' p)"
proof -
  have y: "no_file_on fs (butlast (dr @ rd))" "dr @ rd \<noteq> []" using assms(1) by (auto simp: disk_fits_def)
  have "fs_is_dir (fs_copy (dr @ rd) b fs) p" if "prefix p (butlast (dr @ rd))" for p
    using that not_prefix_butlast[OF y(2)] y(2) by (auto simp: fs_lookup_copy)
  then show ?thesis
    using archiveOne_disk_ok[OF assms] fs_wf_copy[OF assms(1), of b] file_at_copy[OF y, of b] by auto
qed

lemma archiveOne_disk_exact_witness:
  "\<exists>fs'. archiveOne_disk \<lparr>DstRoot = ''/d''\<rparr> ''/etc/key'' ''r/key'' secret_fs = (Inr (), fs') \<and>
     file_at fs' [''d'', ''r'', ''key''] = Some (bytes_of_string ''s3'') \<and> fs_is_dir fs' [''d'', ''r'']"
proof -
  have h: "disk_fits [''d''] secret_fs [''r'', ''key'']" "fs_reach secret_fs [''etc'', ''key'']"
    "file_at secret_fs [''etc'', ''key''] = Some (bytes_of_string ''s3'')"
    "[''etc'', ''key''] \<noteq> [''d''] @ [''r'', ''key'']" by code_simp+
  have e: "abs_of [''d''] = ''/d''" "abs_of [''etc'', ''key''] = ''/etc/key''"
    "join_with slash [''r'', ''key''] = ''r/key''" by code_simp+
  from archiveOne_disk_exact[OF h] obtain fs' where
    "archiveOne_disk \<lparr>DstRoot = ''/d''\<rparr> ''/etc/key'' ''r/key'' secret_fs = (Inr (), fs')"
    "\<forall>p. file_at fs' p = (if p = [''d''] @ [''r'', ''key''] then Some (bytes_of_string ''s3'') else file_at secret_fs p)"
    "\<forall>p. prefix p (butlast ([''d''] @ [''r'', ''key''])) \<longrightarrow> fs_is_dir fs' p"
    unfolding e by blast
  then show ?thesis by simp
qed

text \<open>
  C27: Archiving never fails and never stops early: for every archiver, manifest and state the call succeeds, and it
  has archived each entry of the manifest in order, the failed ones included, on the files and objects as the
  ones before have left them. The log gets the number of entries and then for each entry the
  outcome it had: a success when it was archived, and a failure with the error and the entry's
  paths when archiving it gave that error.
\<close>

theorem ArchiveManifest_reports_every_entry:
  assumes "w_report w = (\<lambda>_ _ _ _. None)"
  shows "\<exists>rs w2. archive_all a (srcRoot m) (entries m) w = (rs, w2) \<and> length rs = length (entries m) \<and>
    (\<forall>r\<in>set rs. r = Inr () \<or> (\<exists>err. r = Inl (Err err))) \<and>
    ArchiveManifest a m w = (Inr (), w2\<lparr>w_events := w_events w @
      Submitted Counter ''archive_manifest'' (f32_of_uint (of_nat (length (entries m)))) [(''root'', srcRoot m)]
      # concat (map2 (entry_log (srcRoot m)) (entries m) rs)\<rparr>)"
proof -
  let ?e = "Submitted Counter ''archive_manifest'' (f32_of_uint (of_nat (length (entries m)))) [(''root'', srcRoot m)]"
  obtain rs w2 where rs: "archive_all a (srcRoot m) (entries m) w = (rs, w2)" by fastforce
  have "ArchiveManifest a m w = each (archive_entry a (srcRoot m)) (entries m) (w\<lparr>w_events := w_events w @ [?e]\<rparr>)"
    using assms by (simp add: ArchiveManifest_def Submit_ok metric_event_def)
  with archive_entries_logged[OF assms rs] archive_all_errs[OF rs] rs show ?thesis by simp
qed

text \<open>A world around a file system, with no S3 objects and a metrics service that takes everything.\<close>

definition world_of :: "fs \<Rightarrow> unit world" where
  "world_of fs = \<lparr>w_fs = fs, w_events = [], w_report = (\<lambda>_ _ _ _. None), w_s3 = (),
     w_put_object = (\<lambda>_ _ _ s. (None, s)), w_list_pages = (\<lambda>_ _ _. ([], None))\<rparr>"

lemma ArchiveManifest_reports_every_entry_witness:
  "\<exists>w'. ArchiveManifest (disk_at [''d'']) \<lparr>srcRoot = ''/x'', entries = [\<lparr>src = ''a'', dst = ''b''\<rparr>]\<rparr>
      (world_of secret_fs) = (Inr (), w') \<and>
    (\<exists>err. w_events w' = [Submitted Counter ''archive_manifest'' (f32_of_uint 1) [(''root'', ''/x'')],
       Submitted Counter ''archive_one.fail'' (f32_of_uint 1) [(''srcRoot'', ''/x'')],
       Captured err [(''dst'', ''b''), (''src'', ''a''), (''srcRoot'', ''/x'')]])"
proof -
  let ?m = "\<lparr>srcRoot = ''/x'', entries = [\<lparr>src = ''a'', dst = ''b''\<rparr>]\<rparr>"
  have "w_report (world_of secret_fs) = (\<lambda>_ _ _ _. None)" by (simp add: world_of_def)
  from ArchiveManifest_reports_every_entry[OF this, of "disk_at [''d'']" ?m] obtain rs w2 where
    r: "archive_all (disk_at [''d'']) ''/x'' (entries ?m) (world_of secret_fs) = (rs, w2)" and
    a: "ArchiveManifest (disk_at [''d'']) ?m (world_of secret_fs) = (Inr (), w2\<lparr>w_events := w_events (world_of secret_fs) @
      Submitted Counter ''archive_manifest'' (f32_of_uint (of_nat (length (entries ?m)))) [(''root'', ''/x'')]
      # concat (map2 (entry_log ''/x'') (entries ?m) rs)\<rparr>)"
    by auto
  have d: "disk_at [''d''] = Disk \<lparr>DstRoot = ''/d''\<rparr>" by code_simp
  have "case fst (archiveOne_disk \<lparr>DstRoot = ''/d''\<rparr> (path_join [''/x'', ''a'']) ''b'' secret_fs) of
      Inl (Err _) \<Rightarrow> True | _ \<Rightarrow> False" by code_simp
  then obtain err where "fst (archiveOne_disk \<lparr>DstRoot = ''/d''\<rparr> (path_join [''/x'', ''a'']) ''b'' secret_fs) = Inl (Err err)"
    by (auto split: sum.splits fault.splits)
  then have "rs = [Inl (Err err)]"
    using r by (auto simp: archiveOne_def on_fs_def world_of_def d split: prod.splits)
  then show ?thesis using a by (simp add: entry_log_def world_of_def)
qed

lemma map_of_stamped: "map_of (map (\<lambda>r. (t # r, r)) L) (t # r) = (if r \<in> set L then Some r else None)"
  by (induction L) auto

text \<open>Below a fresh directory named by a time, there is room for everything.\<close>

lemma fresh_fits:
  assumes "fs_wf fs" and "fs_reach fs dr" and "fresh_dir fs (dr @ [t])" and "valid_name t"
    and "valid_names r" and "r \<noteq> []"
  shows "disk_fits dr fs (t # r)"
proof -
  have below: "fs_lookup fs (dr @ t # q) = None" for q
    using fresh_dir_below[OF assms(3), of q] by simp
  have "no_file_on fs ((dr @ [t]) @ butlast r)"
    using assms(3) no_file_on_append[of fs "dr @ [t]" "butlast r"]
    by (simp add: fresh_dir_def fs_is_file_def below)
  moreover have "butlast (dr @ t # r) = (dr @ [t]) @ butlast r"
    using assms(6) by (simp add: butlast_append)
  ultimately show ?thesis
    using assms by (simp add: disk_fits_def below)
qed

text \<open>A snapshot, with the files of its source directory as the jobs of its manifest.\<close>

lemma archive_stamped:
  assumes "dir_ready (w_fs w) sr" and "fs_reach (w_fs w) dr"
    and "fresh_dir (w_fs w) (dr @ [format_int ts])"
  shows "\<exists>w'. archiveToTimestampedDir (disk_at dr) (abs_of sr) ts w = (Inr (), w') \<and>
    (\<forall>z. file_at (w_fs w') (dr @ z) =
      (case map_of (map (\<lambda>r. (format_int ts # r, r)) (all_files (w_fs w) sr)) z of
         None \<Rightarrow> file_at (w_fs w) (dr @ z) | Some x \<Rightarrow> readable sr (w_fs w) x))"
proof -
  let ?fs = "w_fs w" and ?t = "format_int ts"
  let ?L = "all_files ?fs sr"
  let ?jobs = "map (\<lambda>r. (r, ?t # r)) ?L"
  have wf: "fs_wf ?fs" and sr: "fs_reach ?fs sr" "fs_is_dir ?fs sr"
    using assms(1) by (simp_all add: dir_ready_def)
  have L: "r \<in> set ?L \<longleftrightarrow> fs_is_file ?fs (sr @ r)" for r using all_files_set[OF wf] by simp
  have r: "valid_names r \<and> r \<noteq> []" if "fs_is_file ?fs (sr @ r)" for r
    using that wf_names[OF wf fs_reach_valid[OF sr(1)]] sr(2) by (auto simp: fs_is_file_iff)
  have below: "fs_lookup ?fs (dr @ ?t # q) = None" for q
    using fresh_dir_below[OF assms(3), of q] by simp
  have fits: "disk_fits dr ?fs (?t # r)" if "fs_is_file ?fs (sr @ r)" for r
    using fresh_fits[OF wf assms(2,3) valid_format_int] r[OF that] by blast
  have read: "readable sr ?fs r = file_at ?fs (sr @ r)" if "fs_is_file ?fs (sr @ r)" for r
    using r[OF that] wf sr(1) by (simp add: readable_def)
  have 1: "\<forall>j\<in>set ?jobs. readable sr ?fs (fst j) \<noteq> None \<and> disk_fits dr ?fs (snd j)"
    using L read fits by (auto simp: fs_is_file_iff file_at_Some)
  have 2: "\<forall>i\<in>set ?jobs. \<forall>j\<in>set ?jobs. sr @ fst i \<noteq> dr @ snd j"
    using L below by (auto simp: fs_is_file_iff)
  have 3: "distinct (map snd ?jobs)" by (simp add: comp_def distinct_map)
  have 4: "\<forall>i\<in>set ?jobs. \<forall>j\<in>set ?jobs. prefix (snd i) (snd j) \<longrightarrow> snd i = snd j"
    using L file_no_prefix[OF wf] by auto
  have m: "map (\<lambda>j. rel_entry (fst j) (snd j)) ?jobs = map (manifest_entry ?t) ?L"
    using L r by (auto simp: manifest_entry_rel valid_format_int)
  have jobs: "map (\<lambda>j. (snd j, fst j)) ?jobs = map (\<lambda>r. (?t # r, r)) ?L" by simp
  show ?thesis
    using ArchiveManifest_disk[OF 1 2 3 4] newSimpleManifest_ok[OF assms(1)]
    unfolding m jobs by (auto simp: archiveToTimestampedDir_def ArchiveToNamedDir_def)
qed

text \<open>
  C14: A timestamped archive on local disk is a snapshot: if the directory of that timestamp is
  not there yet, the archive then has below it exactly the files of the source directory, with
  their contents, and the archives of other timestamps are unchanged. This holds also when the
  archive lies inside the directory that is archived.
\<close>

theorem archive_snapshot:
  assumes "dir_ready (w_fs w) sr" and "fs_reach (w_fs w) dr"
    and "fresh_dir (w_fs w) (dr @ [format_int ts])"
  shows "\<exists>w'. archiveToTimestampedDir (disk_at dr) (abs_of sr) ts w = (Inr (), w') \<and>
    (\<forall>r. file_at (w_fs w') (dr @ [format_int ts] @ r) = file_at (w_fs w) (sr @ r)) \<and>
    (\<forall>z. \<not> prefix [format_int ts] z \<longrightarrow> file_at (w_fs w') (dr @ z) = file_at (w_fs w) (dr @ z))"
proof -
  let ?fs = "w_fs w" and ?t = "format_int ts"
  let ?L = "all_files ?fs sr"
  have wf: "fs_wf ?fs" and sr: "fs_reach ?fs sr" "fs_is_dir ?fs sr"
    using assms(1) by (simp_all add: dir_ready_def)
  have L: "r \<in> set ?L \<longleftrightarrow> fs_is_file ?fs (sr @ r)" for r using all_files_set[OF wf] by simp
  obtain w' where res: "archiveToTimestampedDir (disk_at dr) (abs_of sr) ts w = (Inr (), w')"
    and held: "file_at (w_fs w') (dr @ z) = (case map_of (map (\<lambda>r. (?t # r, r)) ?L) z of
       None \<Rightarrow> file_at ?fs (dr @ z) | Some x \<Rightarrow> readable sr ?fs x)" for z
    using archive_stamped[OF assms] by blast
  have new: "file_at (w_fs w') (dr @ ?t # r) = file_at ?fs (sr @ r)" for r
  proof (cases "fs_is_file ?fs (sr @ r)")
    case True
    then have "valid_names r" "r \<noteq> []"
      using wf_names[OF wf fs_reach_valid[OF sr(1)]] sr(2) by (auto simp: fs_is_file_iff)
    then show ?thesis
      using True L[of r] wf sr(1) by (simp add: held map_of_stamped readable_def)
  next
    case False
    then have "file_at ?fs (sr @ r) = None"
      by (auto simp: file_at_def fs_is_file_def split: option.split node.split)
    moreover have "file_at ?fs (dr @ ?t # r) = None"
      using fresh_dir_below[OF assms(3), of r] by (simp add: file_at_def)
    ultimately show ?thesis using False L[of r] by (simp add: held map_of_stamped)
  qed
  have old: "file_at (w_fs w') (dr @ z) = file_at ?fs (dr @ z)" if "\<not> prefix [?t] z" for z
  proof -
    have "map_of (map (\<lambda>r. (?t # r, r)) ?L) z = None"
      using that by (auto simp: map_of_eq_None_iff)
    then show ?thesis by (simp add: held)
  qed
  show ?thesis using res new old by auto
qed

text \<open>The archive of the witness: \<open>/etc\<close> is archived into \<open>/d\<close> at time 17.\<close>

lemma archive_snapshot_witness:
  "\<exists>w'. archiveToTimestampedDir (disk_at [''d'']) ''/etc'' 17 (world_of secret_fs) = (Inr (), w') \<and>
     file_at (w_fs w') [''d'', ''17'', ''key''] = Some (bytes_of_string ''s3'')"
proof -
  let ?w = "world_of secret_fs"
  have f: "w_fs ?w = secret_fs" by (simp add: world_of_def)
  have h: "dir_ready (w_fs ?w) [''etc'']" "fs_reach (w_fs ?w) [''d'']"
    "fresh_dir (w_fs ?w) ([''d''] @ [format_int 17])" unfolding f by code_simp+
  have e: "abs_of [''etc''] = ''/etc''" "format_int 17 = ''17''"
    "file_at secret_fs ([''etc''] @ [''key'']) = Some (bytes_of_string ''s3'')" by code_simp+
  from archive_snapshot[OF h] obtain w' where
    w': "archiveToTimestampedDir (disk_at [''d'']) ''/etc'' 17 ?w = (Inr (), w')"
    "\<forall>r. file_at (w_fs w') ([''d''] @ [''17''] @ r) = file_at secret_fs ([''etc''] @ r)"
    unfolding f e by blast
  from w'(2) have "file_at (w_fs w') [''d'', ''17'', ''key''] = Some (bytes_of_string ''s3'')"
    using e(3) by (auto dest: spec[of _ "[''key'']"])
  with w'(1) show ?thesis by blast
qed

end
