(* ===== verification/NodesModel.thy ===== *)
theory NodesModel
  imports Metrics
begin

text \<open>
  The server's table of clients (\<open>server/nodes.go\<close>), the reaper that culls inactive ones
  (\<open>server/reaper.go\<close>) and the poller that reports their statistics
  (\<open>server/metrics_poller.go\<close>), each call taken as one atomic step; the theory
  \<open>NodesLocks\<close> is about the locks. A map is an association list in the order a range loop
  visits it. A \<open>time.Time\<close> is the number of nanoseconds since 1970, as an integer.
\<close>

subsection \<open>The table\<close>

record Nodes =
  NodeStats :: "(string \<times> FuzzerStats) list"
  updates :: "(string \<times> int) list"

text \<open>The part of the server's state the table lives in.\<close>

record 's3 node_world = "'s3 world" +
  nodes :: Nodes

definition newNodes :: Nodes where
  "newNodes = \<lparr>NodeStats = [], updates = []\<rparr>"

definition setStats :: "string \<Rightarrow> FuzzerStats \<Rightarrow> int \<Rightarrow> (('s3, 'z) node_world_scheme, unit) go" where
  "setStats nodeId stats now w =
     (let n1 = (nodes w)\<lparr>NodeStats := AList.update nodeId stats (NodeStats (nodes w))\<rparr>;
          n2 = n1\<lparr>updates := AList.update nodeId now (updates n1)\<rparr>
      in (Inr (), w\<lparr>nodes := n2\<rparr>))"

definition deleteNode :: "string \<Rightarrow> (('s3, 'z) node_world_scheme, unit) go" where
  "deleteNode nodeId w =
     (let n1 = (nodes w)\<lparr>NodeStats := AList.delete nodeId (NodeStats (nodes w))\<rparr>;
          n2 = n1\<lparr>updates := AList.delete nodeId (updates n1)\<rparr>
      in SubmitMetricCount ''reaped'' (f32_of_uint 1) [(''id'', nodeId)] (w\<lparr>nodes := n2\<rparr>))"

subsection \<open>The reaper\<close>

text \<open>The zero \<open>time.Time\<close>, January 1 of the year 1: what a map gives for an absent key.\<close>

definition zero_time :: int where "zero_time = - 62135596800 * 1000000000"

definition last_update :: "Nodes \<Rightarrow> string \<Rightarrow> int" where
  "last_update n nodeId = (case map_of (updates n) nodeId of None \<Rightarrow> zero_time | Some t \<Rightarrow> t)"

definition cleanUpOldNodes :: "int \<Rightarrow> int \<Rightarrow> (('s3, 'z) node_world_scheme, unit) go" where
  "cleanUpOldNodes interval now w =
     each (\<lambda>nodeId w.
         if last_update (nodes w) nodeId + interval < now then deleteNode nodeId w else (Inr (), w))
       (map fst (NodeStats (nodes w))) w"

text \<open>The ticks of \<open>run\<close>, at the given times.\<close>

definition reaper_ticks :: "int \<Rightarrow> int list \<Rightarrow> (('s3, 'z) node_world_scheme, unit) go" where
  "reaper_ticks interval nows = each (cleanUpOldNodes interval) nows"

subsection \<open>The metrics poller\<close>

text \<open>The samples of one node share one map of tags.\<close>

definition log_node :: "uint64 \<Rightarrow> string \<times> FuzzerStats \<Rightarrow> (('s3, 'z) world_scheme, unit) go" where
  "log_node timeNow = (\<lambda>(fuzzerID, stats).
     let tags = [(''fuzzer_id'', fuzzerID)];
         secsSinceLastUpdate = timeNow - LastUpdate stats;
         secsSinceLastPath = LastUpdate stats - LastPath stats
     in go_try (SubmitMetricGauge_shared ''fuzzer.execs_per_sec'' (f32_of_f64 (ExecsPerSec stats)) tags) (\<lambda>tags.
        go_try (SubmitMetricGauge_shared ''fuzzer.secs_since_last_update'' (f32_of_uint secsSinceLastUpdate) tags) (\<lambda>tags.
        go_try
          (if LastPath stats > 0
           then SubmitMetricGauge_shared ''fuzzer.secs_since_last_path'' (f32_of_uint secsSinceLastPath) tags
           else go_ret tags) (\<lambda>tags.
        go_try (SubmitMetricGauge_shared ''fuzzer.paths_total'' (f32_of_uint (PathsTotal stats)) tags) (\<lambda>_.
        go_ret ())))))"

text \<open>\<open>now\<close> is \<open>time.Now().Unix()\<close>, an \<open>int64\<close>.\<close>

definition logMetrics :: "int \<Rightarrow> (('s3, 'z) node_world_scheme, unit) go" where
  "logMetrics now w = each (log_node (of_int now)) (NodeStats (nodes w)) w"

text \<open>The ticks of \<open>run\<close>, at the given times.\<close>

definition poller_ticks :: "int list \<Rightarrow> (('s3, 'z) node_world_scheme, unit) go" where
  "poller_ticks nows = each logMetrics nows"

subsection \<open>Invariant\<close>

text \<open>Every node has one entry in each map, and the same nodes are in both.\<close>

definition nodes_wf :: "Nodes \<Rightarrow> bool" where
  "nodes_wf n \<longleftrightarrow> distinct (map fst (NodeStats n)) \<and> distinct (map fst (updates n)) \<and>
     set (map fst (NodeStats n)) = set (map fst (updates n))"

lemma nodes_wf_new: "nodes_wf newNodes"
  by (simp add: nodes_wf_def newNodes_def)

lemma setStats_ok:
  "setStats i st t w = (Inr (), w\<lparr>nodes := \<lparr>NodeStats = AList.update i st (NodeStats (nodes w)),
     updates = AList.update i t (updates (nodes w))\<rparr>\<rparr>)"
  by (simp add: setStats_def Let_def)

lemma nodes_wf_set:
  "nodes_wf n \<Longrightarrow> nodes_wf \<lparr>NodeStats = AList.update i st (NodeStats n), updates = AList.update i t (updates n)\<rparr>"
  by (auto simp: nodes_wf_def distinct_update dom_update)

text \<open>The table without the nodes that have expired at \<open>now\<close>.\<close>

definition expired :: "int \<Rightarrow> int \<Rightarrow> Nodes \<Rightarrow> string \<Rightarrow> bool" where
  "expired interval now n i \<longleftrightarrow> last_update n i + interval < now"

definition without :: "string set \<Rightarrow> Nodes \<Rightarrow> Nodes" where
  "without S n = \<lparr>NodeStats = filter (\<lambda>(i, _). i \<notin> S) (NodeStats n),
     updates = filter (\<lambda>(i, _). i \<notin> S) (updates n)\<rparr>"

definition reaped_event :: "('s3, 'z) world_scheme \<Rightarrow> string \<Rightarrow> event" where
  "reaped_event w i = metric_event w Counter ''reaped'' (f32_of_uint 1) [(''id'', i)]"

lemma delete_filter: "AList.delete i al = filter (\<lambda>(j, _). j \<noteq> i) al"
  by (auto simp: AList.delete_eq intro!: filter_cong)

lemma without_without: "without S (without T n) = without (S \<union> T) n"
  by (auto simp: without_def intro!: filter_cong)

lemma without_empty [simp]: "without {} n = n"
  by (cases n) (simp add: without_def case_prod_beta)

lemma deleteNode_ok:
  "deleteNode i w = (Inr (), w\<lparr>nodes := without {i} (nodes w), w_events := w_events w @ [reaped_event w i]\<rparr>)"
  by (simp add: deleteNode_def Let_def Submit_ok without_def delete_filter reaped_event_def metric_event_def)

lemma map_of_without: "map_of (filter (\<lambda>(j, _). j \<notin> S) al) i = (if i \<in> S then None else map_of al i)"
  by (induction al) auto

lemma NodeStats_without: "map_of (NodeStats (without S n)) i = (if i \<in> S then None else map_of (NodeStats n) i)"
  by (simp add: without_def map_of_without)

lemma last_update_without: "i \<notin> S \<Longrightarrow> last_update (without S n) i = last_update n i"
  by (simp add: last_update_def without_def map_of_without)

lemma nodes_wf_without: "nodes_wf n \<Longrightarrow> nodes_wf (without S n)"
  by (force simp: nodes_wf_def without_def distinct_map_filter)

text \<open>What one clean-up does.\<close>

lemma clean_loop:
  assumes "distinct ids"
  shows "each (\<lambda>i w. if last_update (nodes w) i + interval < now then deleteNode i w else (Inr (), w)) ids w =
    (Inr (), w\<lparr>nodes := without {i \<in> set ids. expired interval now (nodes w) i} (nodes w),
       w_events := w_events w @ map (reaped_event w) (filter (expired interval now (nodes w)) ids)\<rparr>)"
  using assms
proof (induction ids arbitrary: w)
  case Nil
  then show ?case by simp
next
  case (Cons i ids)
  show ?case
  proof (cases "expired interval now (nodes w) i")
    case False
    then have "{j. (j = i \<or> j \<in> set ids) \<and> expired interval now (nodes w) j} =
        {j \<in> set ids. expired interval now (nodes w) j}" by auto
    with False Cons show ?thesis by (simp add: expired_def)
  next
    case True
    let ?w = "w\<lparr>nodes := without {i} (nodes w), w_events := w_events w @ [reaped_event w i]\<rparr>"
    have same: "expired interval now (without {i} (nodes w)) j = expired interval now (nodes w) j"
      if "j \<in> set ids" for j
      using that Cons.prems last_update_without[of j "{i}"] by (cases "j = i") (simp_all add: expired_def)
    have "{j \<in> set ids. expired interval now (without {i} (nodes w)) j} \<union> {i} =
        {j \<in> set (i # ids). expired interval now (nodes w) j}"
      using True same by auto
    moreover have "filter (expired interval now (without {i} (nodes w))) ids =
        filter (expired interval now (nodes w)) ids"
      using same by (intro filter_cong) auto
    moreover have "reaped_event ?w = reaped_event w"
      by (simp add: fun_eq_iff reaped_event_def metric_event_def)
    ultimately show ?thesis
      using Cons.IH[of ?w] Cons.prems True
      by (simp add: deleteNode_ok without_without flip: expired_def)
  qed
qed

lemma cleanUpOldNodes_ok:
  assumes "nodes_wf (nodes w)"
  shows "cleanUpOldNodes interval now w =
    (Inr (), w\<lparr>nodes := without {i. expired interval now (nodes w) i} (nodes w),
       w_events := w_events w @
         map (reaped_event w) (filter (expired interval now (nodes w)) (map fst (NodeStats (nodes w))))\<rparr>)"
proof -
  let ?n = "nodes w"
  have "set (map fst (NodeStats ?n)) = set (map fst (updates ?n))"
    using assms by (simp add: nodes_wf_def)
  then have "without {i \<in> set (map fst (NodeStats ?n)). expired interval now ?n i} ?n =
      without {i. expired interval now ?n i} ?n"
    by (force simp: without_def intro!: filter_cong)
  then show ?thesis
    using clean_loop[of "map fst (NodeStats ?n)" interval now w] assms
    by (simp add: cleanUpOldNodes_def nodes_wf_def)
qed

subsection \<open>Histories\<close>

text \<open>A report of a client and a tick of the reaper, each with the time it happens at.\<close>

datatype node_op = Report string FuzzerStats int | Reap int

definition node_step :: "int \<Rightarrow> node_op \<Rightarrow> (('s3, 'z) node_world_scheme, unit) go" where
  "node_step interval op =
     (case op of Report i st t \<Rightarrow> setStats i st t | Reap now \<Rightarrow> cleanUpOldNodes interval now)"

text \<open>The abstract table: the last report of every live client. One client does not affect another.\<close>

type_synonym node_table = "string \<Rightarrow> (FuzzerStats \<times> int) option"

definition spec_step :: "int \<Rightarrow> node_op \<Rightarrow> node_table \<Rightarrow> node_table" where
  "spec_step interval op m =
     (case op of
        Report i st t \<Rightarrow> m(i \<mapsto> (st, t))
      | Reap now \<Rightarrow> (\<lambda>i. case m i of None \<Rightarrow> None
          | Some (st, t) \<Rightarrow> if t + interval < now then None else Some (st, t)))"

definition table_of :: "Nodes \<Rightarrow> node_table" where
  "table_of n i = (case map_of (NodeStats n) i of None \<Rightarrow> None
     | Some st \<Rightarrow> Some (st, last_update n i))"

lemma nodes_wf_same_dom: "nodes_wf n \<Longrightarrow> map_of (NodeStats n) i = None \<longleftrightarrow> map_of (updates n) i = None"
  by (simp add: nodes_wf_def map_of_eq_None_iff)

lemma node_step_ok:
  assumes "nodes_wf (nodes w)"
  shows "\<exists>w'. node_step interval op w = (Inr (), w') \<and> nodes_wf (nodes w') \<and>
    table_of (nodes w') = spec_step interval op (table_of (nodes w))"
proof (cases op)
  case (Report i st t)
  then show ?thesis
    using nodes_wf_set[OF assms, of i st t]
    by (auto simp: node_step_def setStats_ok table_of_def spec_step_def last_update_def fun_eq_iff
        split: option.split)
next
  case (Reap now)
  let ?S = "{i. expired interval now (nodes w) i}"
  have "table_of (without ?S (nodes w)) = spec_step interval op (table_of (nodes w))"
  proof
    fix i
    show "table_of (without ?S (nodes w)) i = spec_step interval op (table_of (nodes w)) i"
      using Reap last_update_without[of i ?S "nodes w"]
      by (cases "expired interval now (nodes w) i")
        (auto simp: table_of_def spec_step_def NodeStats_without expired_def split: option.split)
  qed
  then show ?thesis
    using Reap cleanUpOldNodes_ok[OF assms] nodes_wf_without[OF assms] by (simp add: node_step_def)
qed

definition reports :: "node_op \<Rightarrow> string \<Rightarrow> bool" where
  "reports op i = (case op of Report j _ _ \<Rightarrow> j = i | Reap _ \<Rightarrow> False)"

definition reaps_after :: "node_op \<Rightarrow> int \<Rightarrow> bool" where
  "reaps_after op t = (case op of Report _ _ _ \<Rightarrow> False | Reap now \<Rightarrow> t < now)"

lemma spec_step_other:
  "\<not> reports op i \<Longrightarrow> spec_step interval op m i = (case m i of None \<Rightarrow> None
     | Some (st, t) \<Rightarrow> if reaps_after op (t + interval) then None else Some (st, t))"
  by (cases op) (auto simp: spec_step_def reports_def reaps_after_def split: option.split)

lemma spec_gone:
  "\<not> list_ex (\<lambda>op. reports op i) ops \<Longrightarrow> m i = None \<Longrightarrow> fold (spec_step interval) ops m i = None"
  by (induction ops arbitrary: m) (simp_all add: spec_step_other)

lemma spec_no_report:
  "\<not> list_ex (\<lambda>op. reports op i) ops \<Longrightarrow> m i = Some (st, t) \<Longrightarrow>
   fold (spec_step interval) ops m i =
     (if list_ex (\<lambda>op. reaps_after op (t + interval)) ops then None else Some (st, t))"
proof (induction ops arbitrary: m)
  case (Cons op ops)
  then show ?case
    by (cases "reaps_after op (t + interval)") (simp_all add: spec_step_other spec_gone)
qed simp

subsection \<open>What a table of clients promises\<close>

text \<open>
  A table that takes reports and is cleaned up: a report sets the entry of its client to what is reported and when, a
  clean-up removes the entries that are older than the interval, and neither fails.
\<close>

definition run_op :: "(string \<Rightarrow> FuzzerStats \<Rightarrow> int \<Rightarrow> ('s, unit) go) \<Rightarrow> (int \<Rightarrow> ('s, unit) go) \<Rightarrow> node_op \<Rightarrow> ('s, unit) go" where
  "run_op report reap op = (case op of Report i st t \<Rightarrow> report i st t | Reap now \<Rightarrow> reap now)"

locale client_table =
  fixes report :: "string \<Rightarrow> FuzzerStats \<Rightarrow> int \<Rightarrow> ('s, unit) go"
    and reap :: "int \<Rightarrow> ('s, unit) go"
    and entries :: "'s \<Rightarrow> node_table"
    and sound :: "'s \<Rightarrow> bool"
    and interval :: int
  assumes report_ok: "sound s \<Longrightarrow> \<exists>s'. report i st t s = (Inr (), s') \<and> sound s' \<and>
      entries s' = spec_step interval (Report i st t) (entries s)"
    and reap_ok: "sound s \<Longrightarrow> \<exists>s'. reap now s = (Inr (), s') \<and> sound s' \<and>
      entries s' = spec_step interval (Reap now) (entries s)"
begin

lemma op_ok: "sound s \<Longrightarrow> \<exists>s'. run_op report reap op s = (Inr (), s') \<and> sound s' \<and> entries s' = spec_step interval op (entries s)"
  using report_ok reap_ok by (cases op) (simp_all add: run_op_def)

text \<open>Any history leaves what the abstract table has after it.\<close>

lemma history:
  assumes "sound s"
  shows "\<exists>s'. each (run_op report reap) ops s = (Inr (), s') \<and> sound s' \<and> entries s' = fold (spec_step interval) ops (entries s)"
  using assms
proof (induction ops arbitrary: s)
  case (Cons op ops)
  obtain s1 where s1: "run_op report reap op s = (Inr (), s1)" "sound s1" "entries s1 = spec_step interval op (entries s)"
    using op_ok[OF Cons.prems] by blast
  from Cons.IH[OF s1(2)] show ?case using s1(1,3) by simp
qed simp

text \<open>After its last report a client is in the table until a clean-up that comes more than the interval later.\<close>

lemma silent_gone:
  assumes "sound s" and "\<not> list_ex (\<lambda>op. reports op i) later"
  shows "\<exists>s'. each (run_op report reap) (earlier @ Report i st t # later) s = (Inr (), s') \<and>
    entries s' i = (if list_ex (\<lambda>op. reaps_after op (t + interval)) later then None else Some (st, t))"
proof -
  let ?m = "spec_step interval (Report i st t) (fold (spec_step interval) earlier (entries s))"
  have "?m i = Some (st, t)" by (simp add: spec_step_def)
  from spec_no_report[of i later ?m, OF assms(2) this, of interval] show ?thesis
    using history[OF assms(1), of "earlier @ Report i st t # later"] by auto
qed

end

text \<open>The server's table is one.\<close>

interpretation server_table: client_table setStats "cleanUpOldNodes interval" "\<lambda>w. table_of (nodes w)" "\<lambda>w. nodes_wf (nodes w)" interval
  for interval
proof
  fix s :: "('a, 'b) node_world_scheme" and i st t now
  assume "nodes_wf (nodes s)"
  from node_step_ok[OF this, of interval "Report i st t"] node_step_ok[OF this, of interval "Reap now"]
  show "\<exists>s'. setStats i st t s = (Inr (), s') \<and> nodes_wf (nodes s') \<and>
      table_of (nodes s') = spec_step interval (Report i st t) (table_of (nodes s))"
    and "\<exists>s'. cleanUpOldNodes interval now s = (Inr (), s') \<and> nodes_wf (nodes s') \<and>
      table_of (nodes s') = spec_step interval (Reap now) (table_of (nodes s))"
    by (simp_all add: node_step_def)
qed

lemma node_step_run: "node_step interval = run_op setStats (cleanUpOldNodes interval)"
  by (simp add: fun_eq_iff node_step_def run_op_def split: node_op.split)

subsection \<open>Properties\<close>

text \<open>
  C11: Any sequence of reports and clean-ups leaves the two maps of the table with the same
  clients, one entry each, and holding exactly the abstract table: for every client its last
  report, unless a clean-up found it too old; what other clients do plays no part.
\<close>

theorem nodes_refine:
  assumes "nodes w = newNodes"
  shows "\<exists>w'. each (node_step interval) ops w = (Inr (), w') \<and> nodes_wf (nodes w') \<and>
    table_of (nodes w') = fold (spec_step interval) ops Map.empty"
proof -
  have "nodes_wf (nodes w)" by (simp add: assms nodes_wf_new)
  moreover have "table_of (nodes w) = Map.empty"
    by (simp add: assms newNodes_def table_of_def fun_eq_iff)
  ultimately show ?thesis using server_table.history[of w interval ops] by (simp add: node_step_run)
qed

definition sample_nodes :: "unit node_world" where
  "sample_nodes = \<lparr>w_fs = sample_fs, w_events = [], w_report = (\<lambda>_ _ _ _. None), w_s3 = (),
     w_put_object = (\<lambda>_ _ _ s. (None, s)), w_list_pages = (\<lambda>_ _ _. ([], None)), nodes = newNodes\<rparr>"

lemma nodes_refine_witness:
  "\<exists>w'. each (node_step 10) [Report ''a'' zero_stats 0, Report ''b'' zero_stats 5, Reap 12] sample_nodes =
      (Inr (), w') \<and>
    table_of (nodes w') ''a'' = None \<and> table_of (nodes w') ''b'' = Some (zero_stats, 5)"
proof -
  have "nodes sample_nodes = newNodes" by (simp add: sample_nodes_def)
  from nodes_refine[OF this, of 10 "[Report ''a'' zero_stats 0, Report ''b'' zero_stats 5, Reap 12]"]
  show ?thesis by (auto simp: spec_step_def)
qed

text \<open>
  C23: The reaper removes a client exactly when it has been silent for longer than the interval: after any
  reports and clean-ups from the empty table a client that has not reported is not in it, and a client whose last report
  came at time t has that report in it, unless a clean-up came after it, later than t plus the interval; what
  came before and what other clients do plays no part.
\<close>

theorem reaped_iff_silent:
  assumes "nodes w = newNodes" and "\<not> list_ex (\<lambda>op. reports op i) later"
  shows "(\<exists>w'. each (node_step interval) later w = (Inr (), w') \<and> map_of (NodeStats (nodes w')) i = None) \<and>
    (\<exists>w'. each (node_step interval) (earlier @ Report i st t # later) w = (Inr (), w') \<and>
      map_of (NodeStats (nodes w')) i =
        (if list_ex (\<lambda>op. reaps_after op (t + interval)) later then None else Some st))"
proof -
  have wf: "nodes_wf (nodes w)" by (simp add: assms(1) nodes_wf_new)
  have "table_of (nodes w) i = None" by (simp add: assms(1) newNodes_def table_of_def)
  from spec_gone[of i later "table_of (nodes w)" interval, OF assms(2) this]
  have "fold (spec_step interval) later (table_of (nodes w)) i = None" .
  moreover have "map_of (NodeStats n) i = map_option fst (table_of n i)" for n
    by (simp add: table_of_def split: option.split)
  ultimately show ?thesis
    using server_table.history[OF wf, of interval later]
      server_table.silent_gone[OF wf assms(2), of interval earlier st t]
    by (fastforce simp: node_step_run)
qed

lemma reaped_iff_silent_witness:
  "\<exists>w'. each (node_step 10) ([Reap 3] @ Report ''a'' zero_stats 5 # [Reap 15, Report ''b'' zero_stats 15])
      sample_nodes = (Inr (), w') \<and> map_of (NodeStats (nodes w')) ''a'' = Some zero_stats"
proof -
  have h: "nodes sample_nodes = newNodes"
    "\<not> list_ex (\<lambda>op. reports op ''a'') [Reap 15, Report ''b'' zero_stats 15]"
    by (simp_all add: sample_nodes_def reports_def)
  show ?thesis
    using reaped_iff_silent[OF h, of 10 "[Reap 3]" zero_stats 5] by (simp add: reaps_after_def)
qed

text \<open>
  What one round of the poller sends for a client: its gauges in order, each with the tags as the ones before it have
  left them.
\<close>

primrec gauge_events :: "('s3, 'z) world_scheme \<Rightarrow> (string \<times> float32) list \<Rightarrow> tags \<Rightarrow> event list" where
  "gauge_events w [] ts = []"
| "gauge_events w (g # gs) ts =
     metric_event w Gauge (fst g) (snd g) ts # gauge_events w gs (tags_after w Gauge (fst g) (snd g) ts)"

definition node_values :: "uint64 \<Rightarrow> FuzzerStats \<Rightarrow> (string \<times> float32) list" where
  "node_values timeNow st =
     [(''fuzzer.execs_per_sec'', f32_of_f64 (ExecsPerSec st)),
      (''fuzzer.secs_since_last_update'', f32_of_uint (timeNow - LastUpdate st))] @
     (if LastPath st > 0 then [(''fuzzer.secs_since_last_path'', f32_of_uint (LastUpdate st - LastPath st))] else []) @
     [(''fuzzer.paths_total'', f32_of_uint (PathsTotal st))]"

definition node_gauges :: "('s3, 'z) world_scheme \<Rightarrow> uint64 \<Rightarrow> string \<times> FuzzerStats \<Rightarrow> event list" where
  "node_gauges w timeNow = (\<lambda>(i, st). gauge_events w (node_values timeNow st) [(''fuzzer_id'', i)])"

lemma log_node_ok [go_simps]: "log_node t x w = (Inr (), w\<lparr>w_events := w_events w @ node_gauges w t x\<rparr>)"
  by (simp add: log_node_def node_gauges_def node_values_def Let_def SubmitMetricGauge_shared_ok split: prod.split)

lemma gauge_events_more [simp]: "gauge_events (w\<lparr>w_events := es\<rparr>) gs ts = gauge_events w gs ts"
  by (induction gs arbitrary: ts) simp_all

lemma node_gauges_more [simp]: "node_gauges (w\<lparr>w_events := es\<rparr>) = node_gauges w"
  by (simp add: node_gauges_def fun_eq_iff)

lemma each_log_node: "each (log_node t) xs w = (Inr (), w\<lparr>w_events := w_events w @ concat (map (node_gauges w t) xs)\<rparr>)"
  by (induction xs arbitrary: w) (simp_all add: log_node_ok)

lemma gauge_events_delivered:
  "w_report w = (\<lambda>_ _ _ _. None) \<Longrightarrow> gauge_events w gs ts = map (\<lambda>(n, v). Submitted Gauge n v ts) gs"
  by (induction gs arbitrary: ts) (auto simp: metric_event_def tags_after_def)

lemma logMetrics_ok [go_simps]:
  "logMetrics now w = (Inr (), w\<lparr>w_events := w_events w @ concat (map (node_gauges w (of_int now)) (NodeStats (nodes w)))\<rparr>)"
  by (simp add: logMetrics_def each_log_node)

lemma poller_ticks_ok: "\<exists>es. poller_ticks nows w = (Inr (), w\<lparr>w_events := w_events w @ es\<rparr>)"
proof (induction nows arbitrary: w)
  case Nil
  show ?case by (intro exI[of _ "[]"]) (simp add: poller_ticks_def)
next
  case (Cons now nows)
  let ?es = "concat (map (node_gauges w (of_int now)) (NodeStats (nodes w)))"
  show ?case using Cons[of "w\<lparr>w_events := w_events w @ ?es\<rparr>"]
    by (auto simp: poller_ticks_def logMetrics_ok)
qed

text \<open>Subtraction of two 64-bit counts, with the wrap-around written out.\<close>

definition wrapped_diff :: "int \<Rightarrow> int \<Rightarrow> int" where
  "wrapped_diff a b = (if b \<le> a then a - b else 2 ^ 64 - (b - a))"

lemma uint_diff: "uint (a - b) = wrapped_diff (uint a) (uint b)" for a b :: uint64
proof -
  have b: "uint a < 18446744073709551616" "uint b < 18446744073709551616" "0 \<le> uint a" "0 \<le> uint b"
    using unsigned_less[of a, where ?'a = int] unsigned_less[of b, where ?'a = int] by simp_all
  have m: "uint (a - b) = (uint a - uint b) mod 18446744073709551616" by (simp add: uint_word_ariths)
  show ?thesis
  proof (cases "uint b \<le> uint a")
    case True
    then have "(uint a - uint b) mod 18446744073709551616 = uint a - uint b" using b by (intro mod_pos_pos_trivial) linarith+
    then show ?thesis using True m by (simp add: wrapped_diff_def)
  next
    case False
    have "(uint a - uint b) mod 18446744073709551616 = (uint a - uint b + 18446744073709551616) mod 18446744073709551616"
      by simp
    also have "\<dots> = uint a - uint b + 18446744073709551616" using False b by (intro mod_pos_pos_trivial) linarith+
    finally show ?thesis using False m by (simp add: wrapped_diff_def)
  qed
qed

lemma word_diff: "a - b = of_int (wrapped_diff (uint a) (uint b))" for a b :: uint64
  using uint_diff[of a b] by (metis word_of_int_uint)

text \<open>
  C36: A round of the poller changes nothing but what it sends, and that is, while the metrics service takes the
  samples, for every client of the table in turn the speed, the seconds since the last update, the seconds
  between the last path and the last update when there is a path, and the number of paths, each under its name, with
  the value of that client and its id. Both ages are 64-bit differences: for a client whose
  clock is ahead of the server's the age is not small or negative but two to the 64th minus the difference.
\<close>

theorem logMetrics_underflow:
  assumes "w_report w = (\<lambda>_ _ _ _. None)" and "0 \<le> now" and "now < 2 ^ 63"
  shows "logMetrics now w = (Inr (), w\<lparr>w_events := w_events w @ concat (map (\<lambda>(i, st).
      [Submitted Gauge ''fuzzer.execs_per_sec'' (f32_of_f64 (ExecsPerSec st)) [(''fuzzer_id'', i)],
       Submitted Gauge ''fuzzer.secs_since_last_update''
         (f32_of_uint (of_int (wrapped_diff now (uint (LastUpdate st))))) [(''fuzzer_id'', i)]] @
      (if LastPath st = 0 then []
       else [Submitted Gauge ''fuzzer.secs_since_last_path''
         (f32_of_uint (of_int (wrapped_diff (uint (LastUpdate st)) (uint (LastPath st))))) [(''fuzzer_id'', i)]]) @
      [Submitted Gauge ''fuzzer.paths_total'' (f32_of_uint (PathsTotal st)) [(''fuzzer_id'', i)]])
    (NodeStats (nodes w)))\<rparr>)"
proof -
  have n: "uint (of_int now :: uint64) = now"
    using assms(2,3) by (simp add: unsigned_of_int take_bit_int_eq_self)
  have "of_int now - LastUpdate st = of_int (wrapped_diff now (uint (LastUpdate st)))" for st :: FuzzerStats
    using word_diff[of "of_int now" "LastUpdate st"] by (simp add: n)
  moreover have "LastUpdate st - LastPath st = of_int (wrapped_diff (uint (LastUpdate st)) (uint (LastPath st)))" for st :: FuzzerStats
    by (rule word_diff)
  ultimately have "node_gauges w (of_int now) = (\<lambda>(i, st).
      [Submitted Gauge ''fuzzer.execs_per_sec'' (f32_of_f64 (ExecsPerSec st)) [(''fuzzer_id'', i)],
       Submitted Gauge ''fuzzer.secs_since_last_update''
         (f32_of_uint (of_int (wrapped_diff now (uint (LastUpdate st))))) [(''fuzzer_id'', i)]] @
      (if LastPath st = 0 then []
       else [Submitted Gauge ''fuzzer.secs_since_last_path''
         (f32_of_uint (of_int (wrapped_diff (uint (LastUpdate st)) (uint (LastPath st))))) [(''fuzzer_id'', i)]]) @
      [Submitted Gauge ''fuzzer.paths_total'' (f32_of_uint (PathsTotal st)) [(''fuzzer_id'', i)]])"
    unfolding node_gauges_def gauge_events_delivered[OF assms(1)]
    by (auto simp: fun_eq_iff node_values_def word_neq_0_conv)
  then show ?thesis by (simp only: logMetrics_ok)
qed

lemma logMetrics_underflow_witness:
  "fst (logMetrics 100 (sample_nodes\<lparr>nodes := \<lparr>NodeStats = [(''a'', zero_stats\<lparr>LastUpdate := 101\<rparr>)], updates = [(''a'', 0)]\<rparr>\<rparr>)) = Inr () \<and>
   w_events (snd (logMetrics 100 (sample_nodes\<lparr>nodes := \<lparr>NodeStats = [(''a'', zero_stats\<lparr>LastUpdate := 101\<rparr>)], updates = [(''a'', 0)]\<rparr>\<rparr>))) =
    [Submitted Gauge ''fuzzer.execs_per_sec'' (f32_of_f64 (ExecsPerSec zero_stats)) [(''fuzzer_id'', ''a'')],
     Submitted Gauge ''fuzzer.secs_since_last_update'' (f32_of_uint 18446744073709551615) [(''fuzzer_id'', ''a'')],
     Submitted Gauge ''fuzzer.paths_total'' (f32_of_uint (PathsTotal zero_stats)) [(''fuzzer_id'', ''a'')]]"
proof -
  let ?w = "sample_nodes\<lparr>nodes := \<lparr>NodeStats = [(''a'', zero_stats\<lparr>LastUpdate := 101\<rparr>)], updates = [(''a'', 0)]\<rparr>\<rparr>"
  have h: "w_report ?w = (\<lambda>_ _ _ _. None)" "(0::int) \<le> 100" "(100::int) < 2 ^ 63"
    by (simp_all add: sample_nodes_def)
  have e: "w_events ?w = []" "NodeStats (nodes ?w) = [(''a'', zero_stats\<lparr>LastUpdate := 101\<rparr>)]"
    by (simp_all add: sample_nodes_def)
  have a: "wrapped_diff 100 101 = 18446744073709551615" by (simp add: wrapped_diff_def)
  show ?thesis unfolding logMetrics_underflow[OF h] using e a by (simp add: zero_stats_def)
qed

text \<open>
  While it fails, what a failed sample adds to the tags goes with the client's next samples: after a failed
  speed a delivered age carries the speed's name and value.
\<close>

lemma failed_gauge_leaks:
  assumes "w_report w Gauge n v ts = Some (\<lparr>SampleName = n, SampleValue = v, SampleTags = ts\<rparr>, e)"
    and "w_report w Gauge n' v' (AList.update ''metric_value'' (fmt_f v) (AList.update ''metric_name'' n ts)) = None"
  shows "gauge_events w [(n, v), (n', v')] ts =
    [Captured e (AList.update ''metric_value'' (fmt_f v) (AList.update ''metric_name'' n ts)),
     Submitted Gauge n' v' (AList.update ''metric_value'' (fmt_f v) (AList.update ''metric_name'' n ts))]"
  using assms by (simp add: metric_event_def tags_after_def)

end
