(* ===== verification/Server.thy ===== *)
theory Server
  imports Archiver NodesModel
begin

text \<open>
  The server (\<open>server/server.go\<close>): its package variables as one state, the handlers of the client
  endpoints, the archiving of new crashes, and the set-up. A handler's request body is taken as
  decoded, its response is a value; a fault of kind \<open>Fatal\<close> ends the server process, a
  \<open>Panic\<close> ends the request. The admin pages are in the theory \<open>Admin\<close>. The order in which a range loop visits a map is an argument, a
  function that rearranges the association list.
\<close>

subsection \<open>State\<close>

text \<open>The goroutines the set-up starts.\<close>

datatype task =
    ReaperTask int
  | PollerTask int
  | ArchiveTask Archiver string int

text \<open>The data of the admin pages (\<open>server/admin.go\<close>).\<close>

datatype page =
    IndexPage Nodes FuzzerConfig ArchiveConfig
  | InputPage Input
  | OutputPage "(string \<times> AflOutput) list"
  | ArchivePage "string list" ArchiveConfig

text \<open>
  The package variables of the server, with three more fields. \<open>templates\<close> stands for the four template variables of
  \<open>admin.go\<close>: what \<open>Execute\<close> writes for a page, or the error it returns. \<open>input_route\<close> stands for the pattern of the
  input page (package \<open>goji.io/pat\<close>): the fuzzer, type and name it finds in a path. \<open>serving\<close> is the address
  the server listens on.
\<close>

record 's3 server = "'s3 node_world" +
  target :: bytes
  fuzzerConf :: FuzzerConfig
  archiver :: Archiver
  archiveConf :: ArchiveConfig
  fileManager :: FleetFileManager
  dict :: bytes
  s_tasks :: "task list"
  templates :: "page \<Rightarrow> goerr + bytes"
  input_route :: "string \<Rightarrow> (string \<times> string \<times> string) option"
  serving :: "string option"

type_synonym ('s3, 'z, 'a) sgo = "(('s3, 'z) server_scheme, 'a) go"

definition realtimeCrashesPath :: string where
  "realtimeCrashesPath = ''realtime-crashes''"

datatype response =
    JsonQueues "(string \<times> InputCorpus) list"
  | JsonConfig FuzzerConfig
  | OctetStream bytes
  | JsonInputs InputCorpus
  | PlainText bytes
  | Html bytes

subsection \<open>Archiving new crashes\<close>

text \<open>One crash of a fuzzer: its entry in the manifest, unless its path is in the archived set.\<close>

definition crash_entry :: "FleetFileManager \<Rightarrow> string list \<Rightarrow> string \<Rightarrow> Input \<Rightarrow> ManifestEntry list res" where
  "crash_entry fm archived fid crash =
     (case or_fatal (CrashPath fm fid (Name crash)) of
        Inl e \<Rightarrow> Inl e
      | Inr fullLocalCrashPath \<Rightarrow> (case or_fatal (path_rel (Basedir fm) fullLocalCrashPath) of
          Inl e \<Rightarrow> Inl e
        | Inr relCrashPath \<Rightarrow>
            Inr (if relCrashPath \<in> set archived then []
                 else [\<lparr>src = relCrashPath, dst = path_join [realtimeCrashesPath, relCrashPath]\<rparr>])))"

definition add_crash :: "FleetFileManager \<Rightarrow> string list \<Rightarrow> string \<Rightarrow> Input \<Rightarrow> Manifest \<Rightarrow> Manifest res" where
  "add_crash fm archived fid crash m =
     (case crash_entry fm archived fid crash of
        Inl e \<Rightarrow> Inl e
      | Inr es \<Rightarrow> Inr (m\<lparr>entries := entries m @ es\<rparr>))"

definition add_output :: "FleetFileManager \<Rightarrow> string list \<Rightarrow> string \<times> AflOutput \<Rightarrow> Manifest \<Rightarrow> Manifest res" where
  "add_output fm archived out m =
     (case Crashes (snd out) of
        None \<Rightarrow> Inl nil_deref
      | Some crashes \<Rightarrow> fold_res (add_crash fm archived (fst out)) (Inputs crashes) m)"

type_synonym map_order = "(string \<times> AflOutput) list \<Rightarrow> (string \<times> AflOutput) list"

definition archiveNewCrashes :: "map_order \<Rightarrow> FleetFileManager \<Rightarrow> Archiver \<Rightarrow> ('s3, 'z, unit) wgo" where
  "archiveNewCrashes ord fm a =
     go_try (go_fatal (LsDstFiles a realtimeCrashesPath)) (\<lambda>archived.
       go_try (go_fatal (on_fs (ReadOutputs fm))) (\<lambda>localOutputs.
         go_try (\<lambda>w. (fold_res (add_output fm archived) (ord localOutputs)
                       \<lparr>srcRoot = Basedir fm, entries = []\<rparr>, w)) (\<lambda>manifest.
           ArchiveManifest a manifest)))"

subsection \<open>Handlers\<close>

text \<open>\<open>now\<close> is the time \<open>setStats\<close> records.\<close>

definition postState :: "map_order \<Rightarrow> int \<Rightarrow> State \<Rightarrow> ('s3, 'z, unit) sgo" where
  "postState ord now state w =
     go_try (pure (corpus_len (Queue (Output state)))) (\<lambda>nq.
       go_try (pure (corpus_len (Crashes (Output state)))) (\<lambda>nc.
         go_try (pure (corpus_len (Hangs (Output state)))) (\<lambda>nh.
           go_then (SubmitMetricGauge ''fuzzer.queue_size'' (f32_of_uint (of_nat nq)) [(''fuzzer_id'', Id state)])
             (go_then (go_fatal (on_fs (MkAllOutputDirs_fleet (fileManager w) (Id state))))
               (go_then (go_fatal (on_fs (WriteOutput_fleet (fileManager w) (Id state) (Output state))))
                 (go_then (archiveNewCrashes ord (fileManager w) (archiver w))
                   (setStats (Id state) (State.Stats state) now))))))) w"

definition getQueues :: "('s3, 'z, response) sgo" where
  "getQueues w =
     go_try (go_fatal (on_fs (ReadQueues (fileManager w)))) (\<lambda>queues. go_ret (JsonQueues queues)) w"

definition getConfig :: "('s3, 'z, response) sgo" where
  "getConfig w = (Inr (JsonConfig (fuzzerConf w)), w)"

definition getTargetBinary :: "('s3, 'z, response) sgo" where
  "getTargetBinary w = (Inr (OctetStream (target w)), w)"

definition getInputs :: "('s3, 'z, response) sgo" where
  "getInputs w =
     go_try (go_fatal (on_fs (ReadInputs_fleet (fileManager w)))) (\<lambda>corpus. go_ret (JsonInputs corpus)) w"

definition getDict :: "('s3, 'z, response) sgo" where
  "getDict w = (Inr (PlainText (dict w)), w)"

subsection \<open>Set-up\<close>

definition start_task :: "task \<Rightarrow> ('s3, 'z, unit) sgo" where
  "start_task t w = (Inr (), w\<lparr>s_tasks := s_tasks w @ [t]\<rparr>)"

definition set_archiver :: "Archiver \<Rightarrow> ('s3, 'z, unit) sgo" where
  "set_archiver a w = (Inr (), w\<lparr>archiver := a\<rparr>)"

definition setup_archiver :: "surroundings \<Rightarrow> ('s3, 'z, unit) sgo" where
  "setup_archiver env w =
     (if ArchiveType (archiveConf w) \<noteq> [] then
        go_try
          (go_fatal
            (if ArchiveType (archiveConf w) = ''disk''
               then go_try (on_fs (NewDiskArchiver (archiveConf w))) (\<lambda>d. go_ret (Disk d))
             else if ArchiveType (archiveConf w) = ''s3''
               then go_try (pure (NewS3Archiver (archiveConf w) env)) (\<lambda>a. go_ret (S3 a))
             else go_fail (Fatal (''Unknown archiver type: '' @ ArchiveType (archiveConf w)))))
          (\<lambda>a. go_then (set_archiver a)
             (start_task (ArchiveTask a (Basedir (fileManager w)) (ArchiveInterval (archiveConf w))))) w
      else set_archiver NullArchiver w)"

definition setup_dict :: "('s3, 'z, unit) sgo" where
  "setup_dict w =
     (if UseDict (fuzzerConf w)
      then go_try (go_fatal (on_fs (ReadDict (fileManager w)))) (\<lambda>d w.
             if d = [] then (Inl (Fatal ''Failed to read dict - dict was empty!''), w\<lparr>dict := d\<rparr>)
             else (Inr (), w\<lparr>dict := d\<rparr>)) w
      else (Inr (), w))"

text \<open>An hour, in nanoseconds: the interval of the reaper.\<close>

definition reaper_interval :: int where "reaper_interval = 3600 * 1000000000"

text \<open>
  \<open>ListenAndServe\<close>: with the address taken or not allowed it returns an error, which is dropped, and then
  \<open>SetupAndServe\<close> returns too, without a server. Otherwise it serves until the process ends.
\<close>

definition listen_and_serve :: "surroundings \<Rightarrow> int \<Rightarrow> ('s3, 'z, unit) sgo" where
  "listen_and_serve env port w =
     (let addr = CHR '':'' # format_int port
      in case Listen env addr of
           Some _ \<Rightarrow> (Inr (), w)
         | None \<Rightarrow> (Inr (), w\<lparr>serving := Some addr\<rparr>))"

text \<open>\<open>SetupAndServe\<close> up to the first request.\<close>

definition SetupAndServe ::
  "surroundings \<Rightarrow> int \<Rightarrow> bytes \<Rightarrow> FuzzerConfig \<Rightarrow> ArchiveConfig \<Rightarrow> int \<Rightarrow> string \<Rightarrow> ('s3, 'z, unit) sgo" where
  "SetupAndServe env port targetBinary fuzzerConfig archiveConfig metricsReportInterval workdir w =
     go_then (start_task (ReaperTask reaper_interval))
       (go_then (if metricsReportInterval > 0 then start_task (PollerTask metricsReportInterval) else go_ret ())
         (go_then (setup_archiver env) (go_then setup_dict (listen_and_serve env port))))
       (w\<lparr>target := targetBinary, fuzzerConf := fuzzerConfig, archiveConf := archiveConfig,
          fileManager := \<lparr>Basedir = workdir\<rparr>, nodes := newNodes\<rparr>)"

text \<open>Without an archive and a dictionary only the address can be in the way.\<close>

lemma SetupAndServe_plain:
  assumes "ArchiveType ac = []" and "\<not> UseDict fc"
  shows "SetupAndServe env port b fc ac interval workdir w = (Inr (), w\<lparr>target := b, fuzzerConf := fc, archiveConf := ac,
    fileManager := \<lparr>Basedir = workdir\<rparr>, nodes := newNodes, archiver := NullArchiver,
    s_tasks := s_tasks w @ ReaperTask reaper_interval # (if interval > 0 then [PollerTask interval] else []),
    serving := (if Listen env (CHR '':'' # format_int port) = None then Some (CHR '':'' # format_int port) else serving w)\<rparr>)"
  using assms
  by (simp add: SetupAndServe_def start_task_def setup_archiver_def set_archiver_def setup_dict_def listen_and_serve_def Let_def
      split: option.split)

text \<open>With an archive its goroutine is started with the interval of the configuration, whatever it is.\<close>

lemma SetupAndServe_archive_task:
  assumes "SetupAndServe env port b fc ac interval workdir w = (Inr (), w')" and "ArchiveType ac \<noteq> []"
  shows "\<exists>a. s_tasks w' = s_tasks w @ ReaperTask reaper_interval # (if interval > 0 then [PollerTask interval] else []) @
    [ArchiveTask a workdir (ArchiveInterval ac)]"
proof -
  have dict: "s_tasks v' = s_tasks v" if "setup_dict v = (Inr (), v')" for v v' :: "('s3, 'z) server_scheme"
    using that by (auto simp: setup_dict_def go_try_def go_fatal_def on_fs_def split: if_splits sum.splits prod.splits)
  have listen: "s_tasks v' = s_tasks v" if "listen_and_serve env port v = (Inr (), v')" for v v' :: "('s3, 'z) server_scheme"
    using that by (auto simp: listen_and_serve_def Let_def split: option.splits)
  have arch: "\<exists>a. s_tasks v' = s_tasks v @ [ArchiveTask a (Basedir (fileManager v)) (ArchiveInterval (archiveConf v))]"
    if "setup_archiver env v = (Inr (), v')" "ArchiveType (archiveConf v) \<noteq> []" for v v' :: "('s3, 'z) server_scheme"
    using that
    by (auto simp: setup_archiver_def go_then_def go_try_def go_fatal_def on_fs_def pure_def go_ret_def go_fail_def set_archiver_def
        start_task_def split: if_splits sum.splits prod.splits)
  show ?thesis
    using assms dict listen arch
    by (auto simp: SetupAndServe_def go_then_def go_try_def start_task_def split: sum.splits prod.splits if_splits) fastforce+
qed

subsection \<open>The crashes of a fleet\<close>

definition crash_rel :: "string \<Rightarrow> Input \<Rightarrow> path" where
  "crash_rel fid c = [''output'', fid, ''crashes'', Name c]"

definition crashes_of :: "fs \<Rightarrow> path \<Rightarrow> string \<Rightarrow> path list" where
  "crashes_of fs bs fid =
     map (crash_rel fid) (Inputs (corpus_of fs (bs @ [''output'', fid, ''crashes''])))"

text \<open>The crashes of some fuzzers, as paths relative to the work directory.\<close>

definition crash_rels :: "fs \<Rightarrow> path \<Rightarrow> string list \<Rightarrow> path list" where
  "crash_rels fs bs ids = concat (map (crashes_of fs bs) ids)"

definition outputs_ready :: "fs \<Rightarrow> path \<Rightarrow> bool" where
  "outputs_ready fs bs \<longleftrightarrow> dir_ready fs (bs @ [''output'']) \<and> fs_reach fs bs \<and>
     list_all (\<lambda>fid. out_ready fs (out_path bs fid)) (fleet_ids fs bs)"

lemma corpus_of_names_sd:
  "sorted (map Name (Inputs (corpus_of fs p)))" "distinct (map Name (Inputs (corpus_of fs p)))"
  by (simp_all add: corpus_of_names sorted_wrt_filter)

lemma crash_rels_distinct: "distinct ids \<Longrightarrow> distinct (crash_rels fs bs ids)"
proof (induction ids)
  case (Cons fid ids)
  have "distinct (crashes_of fs bs fid)"
    using corpus_of_names_sd(2)[of fs "bs @ [''output'', fid, ''crashes'']"]
    by (auto simp: crashes_of_def crash_rel_def distinct_map inj_on_def)
  moreover have "set (crashes_of fs bs fid) \<inter> set (crash_rels fs bs ids) = {}"
    using Cons.prems by (auto simp: crash_rels_def crashes_of_def crash_rel_def)
  ultimately show ?case using Cons by (simp add: crash_rels_def)
qed (simp add: crash_rels_def)

lemma crash_rels_set:
  "r \<in> set (crash_rels fs bs ids) \<longleftrightarrow> (\<exists>fid\<in>set ids. \<exists>n b. r = [''output'', fid, ''crashes'', n] \<and>
     n \<noteq> readmeFilename \<and> file_at fs (bs @ r) = Some b)"
proof -
  have at: "dir_files fs (bs @ [''output'', fid, ''crashes'']) n = file_at fs (bs @ [''output'', fid, ''crashes'', n])"
    for fid n by (simp add: dir_files_def file_at_def)
  have "r \<in> set (crashes_of fs bs fid) \<longleftrightarrow> (\<exists>n b. r = [''output'', fid, ''crashes'', n] \<and>
      n \<noteq> readmeFilename \<and> file_at fs (bs @ r) = Some b)" for fid
  proof
    assume "r \<in> set (crashes_of fs bs fid)"
    then obtain c where "c \<in> set (Inputs (corpus_of fs (bs @ [''output'', fid, ''crashes''])))" "r = crash_rel fid c"
      by (auto simp: crashes_of_def)
    then show "\<exists>n b. r = [''output'', fid, ''crashes'', n] \<and> n \<noteq> readmeFilename \<and> file_at fs (bs @ r) = Some b"
      using corpus_of_set[of c] at by (auto simp: crash_rel_def)
  next
    assume "\<exists>n b. r = [''output'', fid, ''crashes'', n] \<and> n \<noteq> readmeFilename \<and> file_at fs (bs @ r) = Some b"
    then obtain n b where n: "r = [''output'', fid, ''crashes'', n]" "n \<noteq> readmeFilename"
      "file_at fs (bs @ r) = Some b" by blast
    then have "\<lparr>Name = n, Body = b\<rparr> \<in> set (Inputs (corpus_of fs (bs @ [''output'', fid, ''crashes''])))"
      using at by (simp add: corpus_of_set)
    then show "r \<in> set (crashes_of fs bs fid)"
      using n(1) by (auto simp: crashes_of_def crash_rel_def intro!: image_eqI[of _ _ "\<lparr>Name = n, Body = b\<rparr>"])
  qed
  then show ?thesis
    by (simp add: crash_rels_def)
qed

text \<open>The names a local archive lists are single components, the paths they are compared with never.\<close>

lemma LsDstFiles_disk_ok:
  assumes "fs_wf fs" and "fs_reach fs dr" and "no_file_on fs (dr @ [''realtime-crashes''])"
  shows "\<exists>names. LsDstFiles_disk \<lparr>DstRoot = abs_of dr\<rparr> realtimeCrashesPath fs = (Inr names, fs) \<and>
    (\<forall>n\<in>set names. slash \<notin> set n)"
proof -
  let ?p = "dr @ [''realtime-crashes'']"
  have r: "fs_reach fs ?p" using assms(2) by (simp add: fs_reach_append)
  have j: "path_join [abs_of dr, realtimeCrashesPath] = abs_of ?p"
    using fs_reach_valid[OF assms(2)] by (simp add: realtimeCrashesPath_def)
  have nf: "\<not> fs_is_file fs q" if "prefix q ?p" for q
    using assms(3) that no_file_on_lookup[OF assms(3)] by (auto simp: fs_is_file_iff)
  show ?thesis
  proof (cases "fs_lookup fs ?p")
    case None
    have "missing_errno fs ?p = ENOENT"
      using assms(3) by (auto simp: missing_errno_def no_file_on_def list_all_iff list_ex_iff)
    then show ?thesis
      using None r by (simp add: LsDstFiles_disk_def j fs_stat_reach is_not_exist_def)
  next
    case (Some m)
    then have m: "fs_lookup fs ?p = Some Dir" using nf[of ?p] by (cases m) (auto simp: fs_is_file_iff)
    let ?infos = "map (\<lambda>n. (n, the (fs_lookup fs (?p @ [n])))) (fs_entries fs ?p)"
    have "fs_read_dir fs (abs_of ?p) = Inr ?infos"
      using r m by (rule fs_read_dir_reach)
    moreover have "slash \<notin> set (path_base n)" if "n \<in> set (fs_entries fs ?p)" for n
    proof -
      have "valid_name n" using that fs_wf_lookup[OF assms(1), of ?p n] by (auto simp: fs_entries_set)
      then show ?thesis by (simp add: valid_name_def)
    qed
    ultimately show ?thesis
      using r m by (auto simp: LsDstFiles_disk_def j fs_stat_reach)
  qed
qed

lemma crash_entry_ok:
  assumes "valid_names bs" and "valid_name fid" and "valid_name (Name c)"
    and "\<forall>n\<in>set archived. slash \<notin> set n"
  shows "crash_entry (fleet bs) archived fid c =
    Inr [rel_entry (crash_rel fid c) (realtimeCrashesPath # crash_rel fid c)]"
proof -
  let ?r = "crash_rel fid c"
  have r: "valid_names ?r" "?r \<noteq> []" using assms(2,3) by (simp_all add: crash_rel_def)
  have "fid \<noteq> []" using assms(2) by (auto simp: valid_name_def)
  then have "out_path bs fid @ [''crashes'', Name c] = bs @ ?r"
    by (simp add: out_path_def crash_rel_def)
  then have "CrashPath (fleet bs) fid (Name c) = Inr (abs_of (bs @ ?r))"
    using assms(1-3) valid_out_path[of bs fid]
    by (simp add: CrashPath_def InputPath_fleet_def InputPath_def CrashesName_def corpusDir_mgr fuzzer_ok_def)
  moreover have "path_rel (abs_of bs) (abs_of (bs @ ?r)) = Inr (join_with slash ?r)"
    using assms(1) r by (intro path_rel_abs_of)
  moreover have "join_with slash ?r \<notin> set archived"
    using assms(4) by (auto simp: crash_rel_def)
  moreover have "path_join [realtimeCrashesPath, join_with slash ?r] = join_with slash (realtimeCrashesPath # ?r)"
    using r by (intro path_join_relative) (simp_all add: realtimeCrashesPath_def)
  ultimately show ?thesis by (simp add: crash_entry_def rel_entry_def fleet_def)
qed

lemma crash_manifest_ok:
  assumes "outputs_ready fs bs" and "\<forall>n\<in>set archived. slash \<notin> set n"
    and "set ids \<subseteq> set (fleet_ids fs bs)"
  shows "fold_res (add_output (fleet bs) archived) (map (\<lambda>fid. (fid, output_of fs (out_path bs fid))) ids) m =
    Inr (m\<lparr>entries := entries m @ map (\<lambda>r. rel_entry r (realtimeCrashesPath # r)) (crash_rels fs bs ids)\<rparr>)"
proof -
  have wf: "fs_wf fs" and v: "valid_names bs"
    using assms(1) by (auto simp: outputs_ready_def dir_ready_def fs_reach_def)
  let ?g = "\<lambda>r. rel_entry r (realtimeCrashesPath # r)"
  have step: "add_output (fleet bs) archived (fid, output_of fs (out_path bs fid)) m =
      Inr (m\<lparr>entries := entries m @ map ?g (crashes_of fs bs fid)\<rparr>)" if "fid \<in> set ids" for fid m
  proof -
    have fid: "valid_name fid" using that assms(3) fleet_ids_valid[OF wf] by blast
    then have p: "out_path bs fid @ [''crashes''] = bs @ [''output'', fid, ''crashes'']"
      by (auto simp: out_path_def valid_name_def)
    have name: "valid_name (Name c)" if "c \<in> set (Inputs (corpus_of fs (bs @ [''output'', fid, ''crashes''])))" for c
    proof -
      have "fs_lookup fs ((bs @ [''output'', fid, ''crashes'']) @ [Name c]) = Some (File (Body c))"
        using that by (simp add: corpus_of_set dir_files_Some del: append_assoc)
      from fs_wf_lookup[OF wf this] show ?thesis ..
    qed
    have "fold_res (add_crash (fleet bs) archived fid) (Inputs (corpus_of fs (bs @ [''output'', fid, ''crashes'']))) m =
        Inr (m\<lparr>entries := entries m @ concat (map (\<lambda>c. [?g (crash_rel fid c)])
          (Inputs (corpus_of fs (bs @ [''output'', fid, ''crashes'']))))\<rparr>)"
      using crash_entry_ok[OF v fid name assms(2)]
      by (intro fold_res_entries) (simp add: add_crash_def)
    then show ?thesis
      by (simp add: add_output_def output_of_def p crashes_of_def comp_def concat_map_singleton)
  qed
  have "fold_res (add_output (fleet bs) archived) (map (\<lambda>fid. (fid, output_of fs (out_path bs fid))) ids) m =
      Inr (m\<lparr>entries := entries m @ concat (map (\<lambda>x. map ?g (crashes_of fs bs (fst x)))
        (map (\<lambda>fid. (fid, output_of fs (out_path bs fid))) ids))\<rparr>)"
    using step by (intro fold_res_entries) auto
  then show ?thesis by (simp add: crash_rels_def map_concat comp_def)
qed

text \<open>The order of a range loop: any rearrangement.\<close>

definition range_order :: "map_order \<Rightarrow> bool" where
  "range_order ord \<longleftrightarrow> (\<forall>m. mset (ord m) = mset m)"

lemma range_order_graph:
  assumes "range_order ord" and "distinct ids"
  obtains ids' where "ord (map (\<lambda>i. (i, f i)) ids) = map (\<lambda>i. (i, f i)) ids'"
    "distinct ids'" "set ids' = set ids"
proof -
  let ?m = "map (\<lambda>i. (i, f i)) ids" and ?ids' = "map fst (ord (map (\<lambda>i. (i, f i)) ids))"
  have ms: "mset (ord ?m) = mset ?m" using assms(1) by (simp add: range_order_def)
  then have st: "set (ord ?m) = set ?m" by (rule mset_eq_setD)
  have "ord ?m = map (\<lambda>i. (i, f i)) ?ids'"
    using st by (auto simp: comp_def intro!: map_idI[symmetric])
  moreover have "mset ?ids' = mset ids"
    using arg_cong[OF ms, of "image_mset fst"] by (simp add: multiset.map_comp comp_def)
  then have "distinct ?ids'" and "set ?ids' = set ids"
    using assms(2) mset_eq_imp_distinct_iff mset_eq_setD by blast+
  ultimately show ?thesis using that by blast
qed

text \<open>The archive on disk can take every crash the fleet has.\<close>

definition archive_fits :: "path \<Rightarrow> fs \<Rightarrow> path \<Rightarrow> bool" where
  "archive_fits dr fs bs \<longleftrightarrow> fs_reach fs dr \<and> bs \<noteq> dr @ [realtimeCrashesPath] \<and>
     no_file_on fs (dr @ [realtimeCrashesPath]) \<and>
     list_all (\<lambda>r. disk_fits dr fs (realtimeCrashesPath # r)) (crash_rels fs bs (fleet_ids fs bs))"

lemma archiveNewCrashes_disk:
  assumes "outputs_ready (w_fs w) bs" and "archive_fits dr (w_fs w) bs" and "range_order ord"
  shows "\<exists>w'. archiveNewCrashes ord (fleet bs) (disk_at dr) w = (Inr (), w') \<and>
    (\<forall>z. file_at (w_fs w') (dr @ z) =
       (case z of [] \<Rightarrow> file_at (w_fs w) (dr @ z)
        | c # r \<Rightarrow> if c = realtimeCrashesPath \<and> r \<in> set (crash_rels (w_fs w) bs (fleet_ids (w_fs w) bs))
                  then file_at (w_fs w) (bs @ r) else file_at (w_fs w) (dr @ z))) \<and>
    (\<forall>r. (\<forall>q. bs @ r \<noteq> dr @ realtimeCrashesPath # q) \<longrightarrow> readable bs (w_fs w') r = readable bs (w_fs w) r)"
proof -
  let ?fs = "w_fs w" and ?c = realtimeCrashesPath
  have wf: "fs_wf ?fs" and reach: "fs_reach ?fs bs" and v: "valid_names bs"
    using assms(1) by (auto simp: outputs_ready_def dir_ready_def fs_reach_def)
  obtain archived where ls: "LsDstFiles_disk \<lparr>DstRoot = abs_of dr\<rparr> ?c ?fs = (Inr archived, ?fs)"
    "\<forall>n\<in>set archived. slash \<notin> set n"
    using LsDstFiles_disk_ok[OF wf, of dr] assms(2) by (auto simp: archive_fits_def realtimeCrashesPath_def)
  let ?outs = "map (\<lambda>fid. (fid, output_of ?fs (out_path bs fid))) (fleet_ids ?fs bs)"
  have outs: "ReadOutputs (fleet bs) ?fs = (Inr ?outs, ?fs)"
    using assms(1) by (intro ReadOutputs_all_ready) (auto simp: outputs_ready_def list_all_iff)
  obtain ids where ids: "ord ?outs = map (\<lambda>fid. (fid, output_of ?fs (out_path bs fid))) ids"
    "distinct ids" "set ids = set (fleet_ids ?fs bs)"
    using range_order_graph[OF assms(3) fleet_ids_facts(2)] by metis
  define rs where "rs = crash_rels ?fs bs ids"
  have same: "r \<in> set rs \<longleftrightarrow> r \<in> set (crash_rels ?fs bs (fleet_ids ?fs bs))" for r
    by (simp add: rs_def crash_rels_set ids(3))
  let ?jobs = "map (\<lambda>r. (r, ?c # r)) rs"
  have read: "readable bs ?fs r = file_at ?fs (bs @ r) \<and> file_at ?fs (bs @ r) \<noteq> None" if r: "r \<in> set rs" for r
  proof -
    obtain b where b: "file_at ?fs (bs @ r) = Some b" and "r \<noteq> []"
      using r by (auto simp: rs_def crash_rels_set)
    then show ?thesis
      using wf reach wf_names[OF wf v, of r] by (auto simp: readable_def file_at_Some)
  qed
  have 1: "\<forall>j\<in>set ?jobs. readable bs ?fs (fst j) \<noteq> None \<and> disk_fits dr ?fs (snd j)"
    using read same assms(2) by (auto simp: archive_fits_def list_all_iff)
  have len: "length r = 4" if "r \<in> set rs" for r
    using that by (auto simp: rs_def crash_rels_set)
  have 2: "\<forall>i\<in>set ?jobs. \<forall>j\<in>set ?jobs. bs @ fst i \<noteq> dr @ snd j"
  proof (intro ballI)
    fix i j assume "i \<in> set ?jobs" "j \<in> set ?jobs"
    then obtain r where "length (fst i) = 4" "snd j = ?c # r" "length r = 4" using len by auto
    then show "bs @ fst i \<noteq> dr @ snd j"
      using assms(2) append_eq_append_conv[of bs "dr @ [?c]" "fst i" r]
      by (auto simp: archive_fits_def)
  qed
  have 3: "distinct (map snd ?jobs)" using crash_rels_distinct[OF ids(2)] by (simp add: rs_def comp_def distinct_map)
  have 4: "\<forall>i\<in>set ?jobs. \<forall>j\<in>set ?jobs. prefix (snd i) (snd j) \<longrightarrow> snd i = snd j"
  proof (intro ballI impI)
    fix i j assume "i \<in> set ?jobs" "j \<in> set ?jobs" "prefix (snd i) (snd j)"
    moreover from this have "length (snd i) = 5" "length (snd j) = 5" using len by auto
    ultimately show "snd i = snd j" by (auto simp: prefix_def)
  qed
  have m: "map (\<lambda>j. rel_entry (fst j) (snd j)) ?jobs = map (\<lambda>r. rel_entry r (?c # r)) rs" by simp
  obtain w' where w': "ArchiveManifest (disk_at dr)
      \<lparr>srcRoot = abs_of bs, entries = map (\<lambda>r. rel_entry r (?c # r)) rs\<rparr> w = (Inr (), w')"
    "\<forall>z. file_at (w_fs w') (dr @ z) = (case map_of (map (\<lambda>j. (snd j, fst j)) ?jobs) z of
       None \<Rightarrow> file_at ?fs (dr @ z) | Some x \<Rightarrow> readable bs ?fs x)"
    "\<forall>r. (\<forall>j\<in>set ?jobs. bs @ r \<noteq> dr @ snd j) \<longrightarrow> readable bs (w_fs w') r = readable bs ?fs r"
    using ArchiveManifest_disk[OF 1 2 3 4] unfolding m by blast
  have man: "fold_res (add_output (fleet bs) archived) (ord ?outs) \<lparr>srcRoot = abs_of bs, entries = []\<rparr> =
      Inr \<lparr>srcRoot = abs_of bs, entries = map (\<lambda>r. rel_entry r (?c # r)) rs\<rparr>"
    using crash_manifest_ok[OF assms(1) ls(2), of ids "\<lparr>srcRoot = abs_of bs, entries = []\<rparr>"] ids
    by (simp add: rs_def)
  have "archiveNewCrashes ord (fleet bs) (disk_at dr) w = (Inr (), w')"
    using ls(1) outs man w'(1)
    by (simp add: archiveNewCrashes_def LsDstFiles_def disk_at_def fleet_def)
  moreover have jobs: "map (\<lambda>j. (snd j, fst j)) ?jobs = map (\<lambda>r. (?c # r, r)) rs" by simp
  have "file_at (w_fs w') (dr @ z) =
       (case z of [] \<Rightarrow> file_at ?fs (dr @ z)
        | c # r \<Rightarrow> if c = ?c \<and> r \<in> set (crash_rels ?fs bs (fleet_ids ?fs bs))
                  then file_at ?fs (bs @ r) else file_at ?fs (dr @ z))" for z
  proof (cases "\<exists>r\<in>set rs. z = ?c # r")
    case True
    then obtain r where r: "r \<in> set rs" "z = ?c # r" by blast
    then show ?thesis
      using spec[OF w'(2), of z] read[OF r(1)] same unfolding jobs by (simp add: map_of_stamped)
  next
    case False
    then have "map_of (map (\<lambda>r. (?c # r, r)) rs) z = None" by (auto simp: map_of_eq_None_iff)
    then show ?thesis
      using spec[OF w'(2), of z] False same unfolding jobs by (cases z) auto
  qed
  moreover have "readable bs (w_fs w') r = readable bs ?fs r" if "\<forall>q. bs @ r \<noteq> dr @ ?c # q" for r
    using w'(3) that by auto
  ultimately show ?thesis by blast
qed

subsection \<open>Registering a report\<close>

text \<open>Every fuzzer the server knows has its three corpora; the output directory may be missing.\<close>

definition server_ready :: "fs \<Rightarrow> path \<Rightarrow> bool" where
  "server_ready fs bs \<longleftrightarrow> fs_wf fs \<and> fs_reach fs bs \<and>
     list_all (\<lambda>fid. out_ready fs (out_path bs fid)) (fleet_ids fs bs)"

text \<open>The inputs of a report can be stored: file names, none taken by a directory.\<close>

definition post_ok :: "fs \<Rightarrow> path \<Rightarrow> Input list \<Rightarrow> Input list \<Rightarrow> Input list \<Rightarrow> bool" where
  "post_ok fs p q c h \<longleftrightarrow> out_free fs p \<and>
     list_all (\<lambda>(k, is). list_all (\<lambda>i. valid_name (Name i) \<and> \<not> fs_is_dir fs (p @ [k, Name i])) is)
       [(''queue'', q), (''crashes'', c), (''hangs'', h)]"

lemma out_path_fid: "valid_name fid \<Longrightarrow> out_path bs fid = bs @ [''output'', fid]"
  by (auto simp: out_path_def valid_name_def)

lemma store_output:
  assumes "fs_wf fs" and "fs_reach fs bs" and "valid_name fid" and "post_ok fs (out_path bs fid) q c h"
  obtains fs1 fs2 where "MkAllOutputDirs (mgr bs fid) fs = (Inr (), fs1)"
    and "WriteOutput (mgr bs fid) (full_output q c h) fs1 = (Inr (), fs2)"
    and "out_ready fs2 (out_path bs fid)" and "fs_denied fs2 = fs_denied fs"
    and "\<And>d. fs_is_dir fs2 d \<longleftrightarrow> fs_is_dir fs d \<or> (\<exists>p\<in>set (corpus_paths (out_path bs fid)). prefix d p)"
    and "\<And>e. dir_files fs2 e =
       (if e = out_path bs fid @ [''queue''] then stored (dir_files fs e) q
        else if e = out_path bs fid @ [''crashes''] then stored (dir_files fs e) c
        else if e = out_path bs fid @ [''hangs''] then stored (dir_files fs e) h
        else dir_files fs e)"
proof -
  let ?p = "out_path bs fid"
  let ?fs1 = "mk_out ?p fs"
  have p: "?p = bs @ [''output'', fid]" using assms(3) by (rule out_path_fid)
  have v: "valid_names bs" "fuzzer_ok fid" using assms(2,3) by (simp_all add: fs_reach_valid fuzzer_ok_def)
  have reach: "fs_reach fs ?p" using assms(2,3) by (simp add: p fs_reach_append)
  have free: "out_free fs ?p" using assms(4) by (simp add: post_ok_def)
  note mk = mk_out_facts[OF assms(1) reach free]
  have nodir: "fs_is_dir ?fs1 (?p @ [k, n]) = fs_is_dir fs (?p @ [k, n])" for k n
    by (auto simp: fs_lookup_mk_out corpus_paths_def)
  have "out_writable ?fs1 ?p q c h"
    using mk(2) assms(4) nodir
    by (auto simp: out_writable_def out_ready_dirs fs_corpora.writable_def post_ok_def list_all_iff)
  from WriteOutput_ok[OF v this] obtain fs2 where
    w: "WriteOutput (mgr bs fid) (full_output q c h) ?fs1 = (Inr (), fs2)" and
    k: "fs_corpora.keeps ?fs1 fs2" and
    files: "\<forall>e. dir_files fs2 e =
       (if e = ?p @ [''queue''] then stored (dir_files ?fs1 e) q
        else if e = ?p @ [''crashes''] then stored (dir_files ?fs1 e) c
        else if e = ?p @ [''hangs''] then stored (dir_files ?fs1 e) h
        else dir_files ?fs1 e)"
    by blast
  have dirs: "fs_is_dir fs2 d \<longleftrightarrow> fs_is_dir fs d \<or> (\<exists>p\<in>set (corpus_paths ?p). prefix d p)" for d
    using k by (cases d rule: rev_cases) (auto simp: fs_corpora.keeps_def fs_lookup_mk_out)
  have den: "fs_denied fs2 = fs_denied fs"
    using withinD[OF grows_WriteOutput w] by (simp add: fs_grows_def mk_out_def corpus_paths_def)
  have "out_ready fs2 ?p" using mk(2) k by (simp add: out_ready_dirs fs_corpora.keeps_def)
  then show thesis
    using files by (intro that[OF MkAllOutputDirs_ok[OF reach v free] w _ den dirs]) (simp_all add: mk(3))
qed

lemma register_output:
  assumes "server_ready fs bs" and "valid_name fid" and "post_ok fs (out_path bs fid) q c h"
  shows "\<exists>fs1 fs2. MkAllOutputDirs (mgr bs fid) fs = (Inr (), fs1) \<and>
    WriteOutput (mgr bs fid) (full_output q c h) fs1 = (Inr (), fs2) \<and>
    outputs_ready fs2 bs \<and> fid \<in> set (fleet_ids fs2 bs) \<and> fs_denied fs2 = fs_denied fs \<and>
    (\<forall>d. fs_is_dir fs2 d \<longleftrightarrow> fs_is_dir fs d \<or> (\<exists>p\<in>set (corpus_paths (out_path bs fid)). prefix d p)) \<and>
    (\<forall>e. dir_files fs2 e =
       (if e = out_path bs fid @ [''queue''] then stored (dir_files fs e) q
        else if e = out_path bs fid @ [''crashes''] then stored (dir_files fs e) c
        else if e = out_path bs fid @ [''hangs''] then stored (dir_files fs e) h
        else dir_files fs e))"
proof -
  let ?p = "out_path bs fid"
  have p: "?p = bs @ [''output'', fid]" using assms(2) by (rule out_path_fid)
  have wf: "fs_wf fs" and bs: "fs_reach fs bs" using assms(1) by (simp_all add: server_ready_def)
  obtain fs1 fs2 where mk: "MkAllOutputDirs (mgr bs fid) fs = (Inr (), fs1)"
    and w: "WriteOutput (mgr bs fid) (full_output q c h) fs1 = (Inr (), fs2)"
    and own: "out_ready fs2 ?p" and den: "fs_denied fs2 = fs_denied fs"
    and dirs: "\<And>d. fs_is_dir fs2 d \<longleftrightarrow> fs_is_dir fs d \<or> (\<exists>p\<in>set (corpus_paths ?p). prefix d p)"
    and files: "\<And>e. dir_files fs2 e =
       (if e = ?p @ [''queue''] then stored (dir_files fs e) q
        else if e = ?p @ [''crashes''] then stored (dir_files fs e) c
        else if e = ?p @ [''hangs''] then stored (dir_files fs e) h
        else dir_files fs e)"
    by (rule store_output[OF wf bs assms(2,3)], rule that)
  have wf2: "fs_wf fs2" using own by (simp add: out_ready_dirs dir_ready_def)
  have ready: "dir_ready fs2 d" if "fs_reach fs d" "fs_is_dir fs2 d" for d
    using that wf2 fs_reach_cong[OF den] by (simp add: dir_ready_def)
  have out: "dir_ready fs2 (bs @ [''output''])"
    using bs dirs by (intro ready) (auto simp: fs_reach_append corpus_paths_def p)
  have "out_ready fs2 (out_path bs g)" if "g \<in> set (fleet_ids fs2 bs)" for g
  proof (cases "g = fid")
    case False
    then have "g \<in> set (fleet_ids fs bs)"
      using that dirs by (auto simp: fleet_ids_set corpus_paths_def p)
    then have g: "out_ready fs (out_path bs g)" using assms(1) by (auto simp: server_ready_def list_all_iff)
    have "dir_ready fs2 d" if "dir_ready fs d" for d
      using that dirs by (intro ready) (auto simp: dir_ready_def)
    then show ?thesis using g by (simp add: out_ready_dirs)
  qed (simp add: own)
  then have "outputs_ready fs2 bs"
    using out bs fs_reach_cong[OF den] by (simp add: outputs_ready_def list_all_iff)
  moreover have "fid \<in> set (fleet_ids fs2 bs)"
    using dirs by (auto simp: fleet_ids_set corpus_paths_def p)
  ultimately show ?thesis using mk w dirs files den by auto
qed

subsection \<open>Archiving leaves the rest of the server alone\<close>

lemma grows_archiveNewCrashes: "within world_grows (archiveNewCrashes ord fm a)"
  unfolding archiveNewCrashes_def
  by (intro within_try within_fatal world_grows_preorder grows_LsDstFiles grows_on_fs_reads reads_ReadOutputs
      grows_pure grows_ArchiveManifest)

lemma world_grows_nodes: "world_grows w w' \<Longrightarrow> nodes w' = nodes w"
  by (cases w; cases w') (simp add: world_grows_def)

text \<open>The archive of crashes holds nothing but copies of crashes, each at its depth.\<close>

definition archive_shape :: "fs \<Rightarrow> path \<Rightarrow> bool" where
  "archive_shape fs dr \<longleftrightarrow> fs_reach fs dr \<and> no_file_on fs (dr @ [realtimeCrashesPath]) \<and>
     list_all (\<lambda>p. prefix (dr @ [realtimeCrashesPath]) p \<longrightarrow>
         (if fs_is_dir fs p then length p < length dr + 5 else length p = length dr + 5))
       (map fst (fs_tree fs))"

lemma archive_shape_lookup:
  assumes "archive_shape fs dr" and "fs_lookup fs (dr @ realtimeCrashesPath # r) = Some n"
  shows "if n = Dir then length r < 4 else length r = 4"
proof -
  let ?p = "dr @ realtimeCrashesPath # r"
  have "?p \<in> set (map fst (fs_tree fs))"
    using assms(2) by (auto simp: fs_lookup_def dest!: map_of_SomeD split: if_splits intro!: rev_image_eqI)
  moreover have "prefix (dr @ [realtimeCrashesPath]) ?p" by simp
  ultimately have "if fs_is_dir fs ?p then length ?p < length dr + 5 else length ?p = length dr + 5"
    using assms(1) unfolding archive_shape_def list_all_iff by blast
  then show ?thesis using assms(2) by (auto split: if_splits)
qed

text \<open>An archive apart from the output directory stays fit for every crash after a report.\<close>

lemma archive_fits_after:
  assumes "archive_shape fs dr" and "fs_wf fs2" and "fs_denied fs2 = fs_denied fs" and "valid_names bs"
    and apart: "\<not> prefix (bs @ [''output'']) (dr @ [realtimeCrashesPath])"
      "\<not> prefix (dr @ [realtimeCrashesPath]) (bs @ [''output''])"
    and same: "\<And>q. \<not> prefix (bs @ [''output'']) q \<Longrightarrow> \<not> prefix q (bs @ [''output'']) \<Longrightarrow> fs_lookup fs2 q = fs_lookup fs q"
    and dirs: "\<And>q b. prefix q (bs @ [''output'']) \<Longrightarrow> fs_lookup fs2 q = Some (File b) \<Longrightarrow> fs_lookup fs q = Some (File b)"
  shows "archive_fits dr fs2 bs"
proof -
  let ?a = "dr @ [realtimeCrashesPath]" and ?o = "bs @ [''output'']"
  have below: "fs_lookup fs2 (dr @ realtimeCrashesPath # r) = fs_lookup fs (dr @ realtimeCrashesPath # r)" for r
  proof (rule same)
    show "\<not> prefix ?o (dr @ realtimeCrashesPath # r)"
      using apart prefix_same_cases[of ?o "?a @ r" ?a] by auto
    show "\<not> prefix (dr @ realtimeCrashesPath # r) ?o"
      using apart(2) append_prefixD[of ?a r ?o] by auto
  qed
  have nf: "no_file_on fs2 ?a"
  proof -
    have "\<not> fs_is_file fs2 q" if q: "prefix q ?a" for q
    proof (cases "prefix q ?o")
      case True
      then show ?thesis
        using dirs[of q] q assms(1) no_file_on_lookup[of fs ?a q] by (auto simp: archive_shape_def fs_is_file_iff)
    next
      case False
      moreover have "\<not> prefix ?o q" using apart(1) q prefix_order.trans by blast
      ultimately show ?thesis
        using same[of q] q assms(1) no_file_on_lookup[of fs ?a q] by (auto simp: archive_shape_def fs_is_file_iff)
    qed
    then show ?thesis by (auto simp: no_file_on_def list_all_iff)
  qed
  have fits: "disk_fits dr fs2 (realtimeCrashesPath # r)" if r: "length r = 4" "valid_names r" for r
  proof -
    have "\<not> fs_is_file fs2 (dr @ realtimeCrashesPath # q)" if "prefix q (butlast r)" for q
    proof -
      have "length q < 4" using prefix_length_le[OF that] r(1) by simp
      then show ?thesis
        using archive_shape_lookup[OF assms(1), of q] by (auto simp: fs_is_file_iff below)
    qed
    then have "no_file_on fs2 (?a @ butlast r)" by (intro no_file_on_append nf) simp
    moreover have "butlast (dr @ realtimeCrashesPath # r) = ?a @ butlast r"
      using r(1) by (auto simp: butlast_append)
    moreover have "\<not> fs_is_dir fs2 (dr @ realtimeCrashesPath # r)"
      using archive_shape_lookup[OF assms(1), of r Dir] r(1) by (auto simp: below)
    moreover have "fs_reach fs2 dr"
      using assms(1) fs_reach_cong[OF assms(3)] by (simp add: archive_shape_def)
    moreover have "valid_name realtimeCrashesPath" by (simp add: realtimeCrashesPath_def)
    ultimately show ?thesis using assms(2) r(2) by (simp add: disk_fits_def)
  qed
  have crash: "length r = 4 \<and> valid_names r" if "r \<in> set (crash_rels fs2 bs (fleet_ids fs2 bs))" for r
    using that wf_names[OF assms(2,4), of r] by (auto simp: crash_rels_set file_at_Some)
  have "bs \<noteq> ?a" using apart(2) by auto
  then show ?thesis
    using assms(1,3) nf fits crash fs_reach_cong[of fs2 fs dr]
    by (auto simp: archive_fits_def archive_shape_def list_all_iff)
qed

lemma stored_not_None: "b n \<noteq> None \<Longrightarrow> stored b is n \<noteq> None"
  by (induction "is" arbitrary: b) (auto simp: stored_Cons, simp add: stored_def)

lemma stored_member: "i \<in> set is \<Longrightarrow> stored b is (Name i) \<noteq> None"
proof (induction "is" arbitrary: b)
  case (Cons j js)
  then show ?case
    using stored_not_None[of "b(Name i \<mapsto> overlay (Body i) (old_body (b (Name i))))" "Name i" js]
    by (auto simp: stored_Cons)
qed simp

subsection \<open>Properties\<close>

definition report :: "string \<Rightarrow> FuzzerStats \<Rightarrow> Input list \<Rightarrow> Input list \<Rightarrow> Input list \<Rightarrow> State" where
  "report fid st q c h = \<lparr>Id = fid, Stats = st, Output = full_output q c h\<rparr>"

lemma comparable_output: "prefix q ((bs @ [''output'', fid]) @ [k]) \<Longrightarrow> prefix q (bs @ [''output'']) \<or> prefix (bs @ [''output'']) q"
  using prefix_same_cases[of q "(bs @ [''output'', fid]) @ [k]" "bs @ [''output'']"] by auto

lemma lookup_from_parts:
  "fs_is_dir fs q = fs_is_dir fs' q \<Longrightarrow> file_at fs q = file_at fs' q \<Longrightarrow> fs_lookup fs q = fs_lookup fs' q"
  by (auto simp: file_at_def split: option.splits node.splits)

lemma dir_files_file_at: "dir_files fs q n = file_at fs (q @ [n])"
  by (simp add: dir_files_def file_at_def)

text \<open>Storing a report leaves what is outside the output directory, so the archive has room as before.\<close>

lemma register_keeps_room:
  assumes reg: "archive_shape fs dr" "fs_wf fs2" "fs_denied fs2 = fs_denied fs" "valid_names bs" "valid_name fid"
    and apart: "\<not> prefix (bs @ [''output'']) (dr @ [realtimeCrashesPath])"
      "\<not> prefix (dr @ [realtimeCrashesPath]) (bs @ [''output''])"
    and dirs: "\<And>d. fs_is_dir fs2 d \<longleftrightarrow> fs_is_dir fs d \<or> (\<exists>p\<in>set (corpus_paths (out_path bs fid)). prefix d p)"
    and files: "\<And>e. (\<forall>k. e \<noteq> out_path bs fid @ [k]) \<Longrightarrow> dir_files fs2 e = dir_files fs e"
  shows "archive_fits dr fs2 bs"
proof (rule archive_fits_after[OF reg(1-4) apart])
  note p = out_path_fid[OF reg(5), of bs]
  have same: "file_at fs2 x = file_at fs x"
    if "\<not> prefix (bs @ [''output'']) x \<or> prefix x (bs @ [''output''])" for x
  proof (cases x rule: rev_cases)
    case Nil
    then show ?thesis by (simp add: file_at_def)
  next
    case (snoc y n)
    then have "\<forall>k. y \<noteq> out_path bs fid @ [k]" using that by (auto simp: p dest: prefix_length_le)
    then show ?thesis using files[of y] snoc by (simp flip: dir_files_file_at)
  qed
  {
    fix x assume x: "\<not> prefix (bs @ [''output'']) x" "\<not> prefix x (bs @ [''output''])"
    then have "fs_is_dir fs2 x = fs_is_dir fs x"
      using dirs[of x] comparable_output[of x bs fid] by (auto simp: corpus_paths_def p)
    then show "fs_lookup fs2 x = fs_lookup fs x" using same[of x] x(1) by (intro lookup_from_parts) auto
  next
    fix x b assume "prefix x (bs @ [''output''])" "fs_lookup fs2 x = Some (File b)"
    then show "fs_lookup fs x = Some (File b)" using same[of x] by (simp flip: file_at_Some)
  }
qed

text \<open>The corpora of a report, by the names of their directories.\<close>

definition reported :: "Input list \<Rightarrow> Input list \<Rightarrow> Input list \<Rightarrow> string \<Rightarrow> Input list" where
  "reported q c h k = (if k = ''queue'' then q else if k = ''crashes'' then c else if k = ''hangs'' then h else [])"

text \<open>The handler, with the files \<open>fs2\<close> the report has been stored in: what it archives, and what it keeps.\<close>

lemma postState_disk:
  assumes "fileManager w = fleet bs" and "archiver w = disk_at dr" and "range_order ord"
    and "server_ready (w_fs w) bs" and "valid_name fid" and "post_ok (w_fs w) (out_path bs fid) q c h"
    and "archive_shape (w_fs w) dr"
    and "\<not> prefix (bs @ [''output'']) (dr @ [realtimeCrashesPath])"
    and "\<not> prefix (dr @ [realtimeCrashesPath]) (bs @ [''output''])"
  obtains w' fs2 where "postState ord now (report fid st q c h) w = (Inr (), w')"
    and "nodes w' = \<lparr>NodeStats = AList.update fid st (NodeStats (nodes w)), updates = AList.update fid now (updates (nodes w))\<rparr>"
    and "outputs_ready fs2 bs"
    and "\<And>g k. dir_files fs2 (bs @ [''output'', g, k]) =
       (if g = fid then stored (dir_files (w_fs w) (bs @ [''output'', g, k])) (reported q c h k)
        else dir_files (w_fs w) (bs @ [''output'', g, k]))"
    and "\<And>z. file_at (w_fs w') (dr @ z) =
       (case z of [] \<Rightarrow> file_at fs2 (dr @ z)
        | k # r \<Rightarrow> if k = realtimeCrashesPath \<and> r \<in> set (crash_rels fs2 bs (fleet_ids fs2 bs))
                  then file_at fs2 (bs @ r) else file_at fs2 (dr @ z))"
    and "\<And>r. (\<forall>q. bs @ r \<noteq> dr @ realtimeCrashesPath # q) \<Longrightarrow> readable bs (w_fs w') r = readable bs fs2 r"
proof -
  let ?p = "out_path bs fid" and ?fs = "w_fs w"
  from register_output[OF assms(4-6)] obtain fs1 fs2 where
    mk: "MkAllOutputDirs (mgr bs fid) ?fs = (Inr (), fs1)" and
    wr: "WriteOutput (mgr bs fid) (full_output q c h) fs1 = (Inr (), fs2)" and
    out: "outputs_ready fs2 bs" and
    den: "fs_denied fs2 = fs_denied ?fs" and
    dirs: "\<And>d. fs_is_dir fs2 d \<longleftrightarrow> fs_is_dir ?fs d \<or> (\<exists>p\<in>set (corpus_paths ?p). prefix d p)" and
    files: "\<And>e. dir_files fs2 e =
       (if e = ?p @ [''queue''] then stored (dir_files ?fs e) q
        else if e = ?p @ [''crashes''] then stored (dir_files ?fs e) c
        else if e = ?p @ [''hangs''] then stored (dir_files ?fs e) h
        else dir_files ?fs e)"
    by blast
  have wf2: "fs_wf fs2" and v: "valid_names bs"
    using out by (auto simp: outputs_ready_def dir_ready_def fs_reach_def)
  have fits: "archive_fits dr fs2 bs"
    using register_keeps_room[OF assms(7) wf2 den v assms(5,8,9) dirs] files by simp
  let ?w3 = "w\<lparr>w_events := w_events w @ [metric_event w Gauge ''fuzzer.queue_size''
     (f32_of_uint (of_nat (length q))) [(''fuzzer_id'', fid)]], w_fs := fs2\<rparr>"
  have w3: "w_fs ?w3 = fs2" by simp
  have "outputs_ready (w_fs ?w3) bs" "archive_fits dr (w_fs ?w3) bs" using out fits by simp_all
  from archiveNewCrashes_disk[OF this assms(3)] obtain w4 where
    arch: "archiveNewCrashes ord (fleet bs) (disk_at dr) ?w3 = (Inr (), w4)" and
    held: "\<forall>z. file_at (w_fs w4) (dr @ z) =
       (case z of [] \<Rightarrow> file_at fs2 (dr @ z)
        | k # r \<Rightarrow> if k = realtimeCrashesPath \<and> r \<in> set (crash_rels fs2 bs (fleet_ids fs2 bs))
                  then file_at fs2 (bs @ r) else file_at fs2 (dr @ z))" and
    keep: "\<forall>r. (\<forall>q. bs @ r \<noteq> dr @ realtimeCrashesPath # q) \<longrightarrow> readable bs (w_fs w4) r = readable bs fs2 r"
    unfolding w3 by blast
  have n4: "nodes w4 = nodes w"
    using world_grows_nodes[OF withinD[OF grows_archiveNewCrashes arch]] by simp
  let ?w5 = "w4\<lparr>nodes := \<lparr>NodeStats = AList.update fid st (NodeStats (nodes w4)),
     updates = AList.update fid now (updates (nodes w4))\<rparr>\<rparr>"
  have post: "postState ord now (report fid st q c h) w = (Inr (), ?w5)"
    using mk wr arch assms(1,2)
    by (simp add: postState_def report_def full_output_def corpus_len_def pure_def Submit_ok
        MkAllOutputDirs_fleet_def WriteOutput_fleet_def setStats_ok)
  have "dir_files fs2 (bs @ [''output'', g, k]) =
       (if g = fid then stored (dir_files ?fs (bs @ [''output'', g, k])) (reported q c h k)
        else dir_files ?fs (bs @ [''output'', g, k]))" for g k
    using files out_path_fid[OF assms(5), of bs] by (simp add: reported_def stored_def)
  with held keep show thesis
    by (intro that[OF post _ out]) (simp_all add: n4)
qed

lemma output_apart:
  assumes "\<not> prefix (bs @ [''output'']) (dr @ [realtimeCrashesPath])"
    and "\<not> prefix (dr @ [realtimeCrashesPath]) (bs @ [''output''])"
  shows "\<forall>z. bs @ ''output'' # r \<noteq> dr @ realtimeCrashesPath # z"
proof
  fix z
  show "bs @ ''output'' # r \<noteq> dr @ realtimeCrashesPath # z"
  proof
    assume "bs @ ''output'' # r = dr @ realtimeCrashesPath # z"
    then have "(dr @ [realtimeCrashesPath]) @ z = (bs @ [''output'']) @ r" by simp
    then have "prefix (bs @ [''output'']) ((dr @ [realtimeCrashesPath]) @ z)"
      "prefix (dr @ [realtimeCrashesPath]) ((dr @ [realtimeCrashesPath]) @ z)"
      unfolding prefix_def by blast+
    then show False using prefix_same_cases assms by blast
  qed
qed


definition sample_fuzzer :: FuzzerConfig where
  "sample_fuzzer = \<lparr>UseBinary = False, UseDict = False, SyncInterval = 300, Command = [''t''], MemLimitMb = 0, TimeoutMs = 0\<rparr>"

definition sample_archive :: "string \<Rightarrow> ArchiveConfig" where
  "sample_archive t = \<lparr>ArchiveType = t, ArchiveInterval = 60, ConfDisk = \<lparr>ConfDstRoot = ''/arch''\<rparr>,
     ConfS3 = \<lparr>RootKey = [], ConfBucketName = [], AwsRegion = [], IsLocal = False\<rparr>\<rparr>"

definition sample_route :: "string \<Rightarrow> (string \<times> string \<times> string) option" where
  "sample_route p = (case split_on slash p of
     [e, a, f, fid, i, t, n] \<Rightarrow>
       if [e, a, f, i] = [[], ''admin'', ''fuzzer'', ''input''] then Some (fid, t, n) else None
   | _ \<Rightarrow> None)"

text \<open>A server that keeps its work in \<open>/d\<close> and archives to \<open>/arch\<close>, before any report.\<close>

definition sample_server :: "Archiver \<Rightarrow> unit server" where
  "sample_server a = \<lparr>w_fs = sample_fs, w_events = [], w_report = (\<lambda>_ _ _ _. None), w_s3 = (),
     w_put_object = (\<lambda>_ _ _ s. (None, s)), w_list_pages = (\<lambda>_ _ _. ([], None)), nodes = newNodes,
     target = [], fuzzerConf = sample_fuzzer, archiver = a, archiveConf = sample_archive ''disk'',
     fileManager = fleet [''d''], dict = [], s_tasks = [], templates = (\<lambda>_. Inr []), input_route = sample_route,
     serving = Some '':1414''\<rparr>"


text \<open>
  A client that asks for the queues before the server's output directory exists ends the
  server: nothing in the set-up makes that directory, and the handler calls log.Fatal.
\<close>

theorem getQueues_fatal_without_output:
  assumes "fileManager w = fleet bs" and "fs_reach (w_fs w) (bs @ [''output''])" and "valid_names bs"
  shows "fs_is_dir (w_fs w) (bs @ [''output'']) \<or> getQueues w = (Inl (Fatal ''log.Fatal''), w)"
proof (cases "fs_is_dir (w_fs w) (bs @ [''output''])")
  case False
  then have "\<exists>e. fs_read_dir (w_fs w) (abs_of (bs @ [''output''])) = Inl (Err e)"
    using assms(2) by (auto simp: fs_read_dir_def split: option.split node.split)
  then have "\<exists>e. ReadQueues (fleet bs) (w_fs w) = (Inl (Err e), w_fs w)"
    using assms(3) by (auto simp: ReadQueues_def FuzzerIds_def fleet_dirs)
  then have "getQueues w = (Inl (Fatal ''log.Fatal''), w)"
    using assms(1) by (auto simp: getQueues_def)
  then show ?thesis ..
qed simp

lemma getQueues_fatal_without_output_witness:
  "getQueues (sample_server NullArchiver) = (Inl (Fatal ''log.Fatal''), sample_server NullArchiver)"
proof -
  let ?w = "sample_server NullArchiver"
  have f: "w_fs ?w = sample_fs" by (simp add: sample_server_def)
  have "fileManager ?w = fleet [''d'']" by (simp add: sample_server_def)
  moreover have "fs_reach (w_fs ?w) ([''d''] @ [''output''])" "valid_names [''d'']"
    "\<not> fs_is_dir (w_fs ?w) ([''d''] @ [''output''])" unfolding f by code_simp+
  ultimately show ?thesis using getQueues_fatal_without_output[of ?w "[''d'']"] by blast
qed



text \<open>
  On a local archive the check for crashes that are archived already never finds one: whatever
  the archive holds, the names listed are single components while the crashes are paths, so the
  manifest has every crash of every fuzzer, and each report copies all of them again.
\<close>

theorem archived_crashes_copied_again:
  assumes "outputs_ready fs bs" and "fs_reach fs dr" and "no_file_on fs (dr @ [realtimeCrashesPath])"
  shows "\<exists>archived outs. LsDstFiles_disk \<lparr>DstRoot = abs_of dr\<rparr> realtimeCrashesPath fs = (Inr archived, fs) \<and>
    ReadOutputs (fleet bs) fs = (Inr outs, fs) \<and>
    fold_res (add_output (fleet bs) archived) outs \<lparr>srcRoot = abs_of bs, entries = []\<rparr> =
      Inr \<lparr>srcRoot = abs_of bs, entries =
        map (\<lambda>r. rel_entry r (realtimeCrashesPath # r)) (crash_rels fs bs (fleet_ids fs bs))\<rparr>"
proof -
  have wf: "fs_wf fs" using assms(1) by (simp add: outputs_ready_def dir_ready_def)
  obtain archived where a: "LsDstFiles_disk \<lparr>DstRoot = abs_of dr\<rparr> realtimeCrashesPath fs = (Inr archived, fs)"
    "\<forall>n\<in>set archived. slash \<notin> set n"
    using LsDstFiles_disk_ok[OF wf assms(2)] assms(3) by (auto simp: realtimeCrashesPath_def)
  have "ReadOutputs (fleet bs) fs =
      (Inr (map (\<lambda>fid. (fid, output_of fs (out_path bs fid))) (fleet_ids fs bs)), fs)"
    using assms(1) by (intro ReadOutputs_all_ready) (auto simp: outputs_ready_def list_all_iff)
  then show ?thesis
    using a crash_manifest_ok[OF assms(1) a(2), of "fleet_ids fs bs" "\<lparr>srcRoot = abs_of bs, entries = []\<rparr>"]
    by auto
qed

text \<open>A fleet of one fuzzer with one crash, which is in the archive already.\<close>

definition archived_fs :: fs where
  "archived_fs = \<lparr>fs_cwd = [],
     fs_tree = [([''d''], Dir), ([''d'', ''output''], Dir), ([''d'', ''output'', ''f''], Dir),
       ([''d'', ''output'', ''f'', ''queue''], Dir), ([''d'', ''output'', ''f'', ''hangs''], Dir),
       ([''d'', ''output'', ''f'', ''crashes''], Dir),
       ([''d'', ''output'', ''f'', ''crashes'', ''x''], File [1]),
       ([''r''], Dir), ([''r'', ''realtime-crashes''], Dir), ([''r'', ''realtime-crashes'', ''output''], Dir),
       ([''r'', ''realtime-crashes'', ''output'', ''f''], Dir),
       ([''r'', ''realtime-crashes'', ''output'', ''f'', ''crashes''], Dir),
       ([''r'', ''realtime-crashes'', ''output'', ''f'', ''crashes'', ''x''], File [1])],
     fs_denied = []\<rparr>"

lemma archived_crashes_copied_again_witness:
  "\<exists>archived outs. LsDstFiles_disk \<lparr>DstRoot = ''/r''\<rparr> realtimeCrashesPath archived_fs = (Inr archived, archived_fs) \<and>
    fold_res (add_output (fleet [''d'']) archived) outs \<lparr>srcRoot = ''/d'', entries = []\<rparr> =
      Inr \<lparr>srcRoot = ''/d'', entries = [\<lparr>src = ''output/f/crashes/x'', dst = ''realtime-crashes/output/f/crashes/x''\<rparr>]\<rparr>"
proof -
  have h: "outputs_ready archived_fs [''d'']" "fs_reach archived_fs [''r'']"
    "no_file_on archived_fs ([''r''] @ [realtimeCrashesPath])" by code_simp+
  have e: "abs_of [''d''] = ''/d''" "abs_of [''r''] = ''/r''" by code_simp+
  have m: "map (\<lambda>r. rel_entry r (realtimeCrashesPath # r)) (crash_rels archived_fs [''d''] (fleet_ids archived_fs [''d''])) =
      [\<lparr>src = ''output/f/crashes/x'', dst = ''realtime-crashes/output/f/crashes/x''\<rparr>]" by code_simp
  show ?thesis using archived_crashes_copied_again[OF h] unfolding e m by blast
qed

end
