(* ===== verification/GoTime.thy ===== *)
theory GoTime
  imports GoStrconv
begin

text \<open>
  \<open>time.Unix(sec, 0).Format(time.RFC3339)\<close>: the date of a day by the cycles of the Gregorian calendar, as package
  \<open>time\<close> computes it, and the text with the offset of the time zone. Days are counted from January 1 of the year 1.
\<close>

subsection \<open>Dates\<close>

definition is_leap :: "int \<Rightarrow> bool" where
  "is_leap year \<longleftrightarrow> year mod 4 = 0 \<and> (year mod 100 \<noteq> 0 \<or> year mod 400 = 0)"

definition days_in :: "int \<Rightarrow> int \<Rightarrow> int" where
  "days_in year month =
     (if month = 2 then (if is_leap year then 29 else 28) else if month \<in> {4, 6, 9, 11} then 30 else 31)"

text \<open>The year and the day in it, cutting off cycles of 400, 100, 4 and 1 years.\<close>

definition year_day :: "int \<Rightarrow> int \<times> int" where
  "year_day d =
     (let n400 = d div 146097; d1 = d mod 146097;
          n100 = min 3 (d1 div 36524); d2 = d1 - 36524 * n100;
          n4 = d2 div 1461; d3 = d2 mod 1461;
          n1 = min 3 (d3 div 365)
      in (1 + 400 * n400 + 100 * n100 + 4 * n4 + n1, d3 - 365 * n1))"

text \<open>The month and the day in it, for a day of a year.\<close>

fun month_day :: "nat \<Rightarrow> int \<Rightarrow> int \<Rightarrow> int \<Rightarrow> int \<times> int" where
  "month_day 0 year month yday = (month, yday + 1)"
| "month_day (Suc k) year month yday =
     (if yday < days_in year month then (month, yday + 1)
      else month_day k year (month + 1) (yday - days_in year month))"

definition date :: "int \<Rightarrow> int \<times> int \<times> int" where
  "date d = (case year_day d of (y, n) \<Rightarrow> (case month_day 11 y 1 n of (m, k) \<Rightarrow> (y, m, k)))"

subsection \<open>Text\<close>

text \<open>A number with at least \<open>w\<close> digits.\<close>

definition padded :: "nat \<Rightarrow> int \<Rightarrow> string" where
  "padded w n =
     (let ds = dec_digits \<bar>n\<bar> in (if n < 0 then ''-'' else []) @ replicate (w - length ds) (CHR ''0'') @ ds)"

text \<open>\<open>offset\<close> is the offset of the zone in seconds; seconds of it are dropped.\<close>

definition zone_text :: "int \<Rightarrow> string" where
  "zone_text offset =
     (let z = sgn offset * (\<bar>offset\<bar> div 60)
      in if offset = 0 then ''Z''
         else (if z < 0 then ''-'' else ''+'') @ padded 2 (\<bar>z\<bar> div 60) @ '':'' @ padded 2 (\<bar>z\<bar> mod 60))"

text \<open>719162 days lie between the first day and January 1, 1970.\<close>

definition rfc3339 :: "int \<Rightarrow> int \<Rightarrow> string" where
  "rfc3339 offset sec =
     (let t = sec + offset; s = t mod 86400
      in case date (t div 86400 + 719162) of (y, m, d) \<Rightarrow>
           padded 4 y @ ''-'' @ padded 2 m @ ''-'' @ padded 2 d @ ''T'' @
           padded 2 (s div 3600) @ '':'' @ padded 2 (s mod 3600 div 60) @ '':'' @ padded 2 (s mod 60) @ zone_text offset)"

subsection \<open>The date is the right one\<close>

text \<open>The days before a year, a month and a day by the rule of leap years.\<close>

definition days_before_year :: "int \<Rightarrow> int" where
  "days_before_year y = 365 * (y - 1) + (y - 1) div 4 - (y - 1) div 100 + (y - 1) div 400"

definition year_length :: "int \<Rightarrow> int" where
  "year_length y = (if is_leap y then 366 else 365)"

lemma days_in_cycles:
  assumes "0 \<le> b" "b \<le> 3" "0 \<le> c" "c \<le> 24" "0 \<le> e" "e \<le> 3"
  shows "days_before_year (1 + 400 * a + 100 * b + 4 * c + e) = 146097 * a + 36524 * b + 1461 * c + 365 * e"
proof -
  define x where x: "x = 400 * a + 100 * b + 4 * c + e"
  have "x div 4 = 100 * a + 25 * b + c" "x div 100 = 4 * a + b" "x div 400 = a"
    unfolding x using assms by linarith+
  moreover have "1 + 400 * a + 100 * b + 4 * c + e = x + 1" by (simp add: x)
  ultimately show ?thesis by (simp add: days_before_year_def)
qed

lemma year_day_ok:
  assumes "year_day d = (y, n)"
  shows "days_before_year y + n = d \<and> 0 \<le> n \<and> n < year_length y"
proof -
  define a d1 where ad: "a = d div 146097" "d1 = d mod 146097"
  define b where b: "b = min 3 (d1 div 36524)"
  define d2 where d2: "d2 = d1 - 36524 * b"
  define c d3 where cd: "c = d2 div 1461" "d3 = d2 mod 1461"
  define e where e: "e = min 3 (d3 div 365)"
  have d: "d = 146097 * a + d1" "0 \<le> d1" "d1 < 146097" by (simp_all add: ad)
  have bd: "0 \<le> b" "b \<le> 3" "0 \<le> d2" "d2 < (if b = 3 then 36525 else 36524)" using d b d2 by (auto simp: min_def split: if_splits)
  have cd': "d2 = 1461 * c + d3" "0 \<le> d3" "d3 < 1461" by (simp_all add: cd)
  have ce: "0 \<le> c" "c \<le> 24" using cd' bd by (auto split: if_splits)
  have ed: "0 \<le> e" "e \<le> 3" "0 \<le> d3 - 365 * e" "d3 - 365 * e < (if e = 3 then 366 else 365)"
    using cd' e by (auto simp: min_def split: if_splits)
  have y: "y = 1 + 400 * a + 100 * b + 4 * c + e" "n = d3 - 365 * e"
    using assms by (simp_all add: year_day_def Let_def flip: ad b d2 cd e)
  have eq: "days_before_year y + n = d"
    unfolding y(1) days_in_cycles[OF bd(1,2) ce ed(1,2)] using y(2) d(1) d2 cd'(1) by simp
  have leap: "is_leap y" if "n = 365"
  proof -
    have e3: "e = 3" using that ed y(2) by (auto split: if_splits)
    then have "d3 = 1460" using that y(2) by simp
    then have "c = 24 \<longrightarrow> b = 3" using bd(4) cd'(1) by (auto split: if_splits)
    moreover have y4: "y = 4 * (100 * a + 25 * b + c + 1)" using y(1) e3 by simp
    ultimately show ?thesis
    proof (cases "c = 24")
      case True
      then have "y = 400 * (a + 1)" using y4 \<open>c = 24 \<longrightarrow> b = 3\<close> by simp
      then show ?thesis by (simp add: is_leap_def)
    next
      case False
      have "y = 4 * (c + 1) + 100 * (4 * a + b)" using y4 by simp
      then have "y mod 100 = 4 * (c + 1) mod 100" by (simp only: mod_mult_self2)
      also have "\<dots> = 4 * (c + 1)" using False ce by (intro mod_pos_pos_trivial) simp_all
      finally show ?thesis using y4 ce by (simp add: is_leap_def)
    qed
  qed
  have "n \<le> 365" using ed y(2) by (simp split: if_splits)
  then have "n < year_length y" using leap by (cases "n = 365") (auto simp: year_length_def)
  then show ?thesis using eq ed y(2) by simp
qed

text \<open>The days before a month of a year.\<close>

definition days_before_month :: "int \<Rightarrow> int \<Rightarrow> int" where
  "days_before_month y m = sum_list (map (days_in y) [1..m - 1])"

lemma month_day_ok:
  assumes "month_day k y m n = (m', d)" and "0 \<le> n" and "1 \<le> m" and "m + int k = 12"
    and "days_before_month y m + n < year_length y"
  shows "days_before_month y m' + d = days_before_month y m + n + 1 \<and> 1 \<le> m' \<and> m' \<le> 12 \<and> 1 \<le> d \<and> d \<le> days_in y m'"
  using assms
proof (induction k arbitrary: m n)
  case 0
  have "[1..11] = [1, 2, 3, 4, 5, 6, 7, 8, 9, 10, 11]" by code_simp
  then have "days_before_month y 12 + 31 = year_length y"
    by (simp add: days_before_month_def days_in_def year_length_def)
  then show ?case using 0 by (auto simp: days_in_def)
next
  case (Suc k)
  have "[1..m] = [1..m - 1] @ [m]" using Suc.prems(3) by (intro upto_rec2)
  then have next_month: "days_before_month y (m + 1) = days_before_month y m + days_in y m"
    by (simp add: days_before_month_def)
  show ?case
  proof (cases "n < days_in y m")
    case True
    then show ?thesis using Suc.prems by auto
  next
    case False
    then show ?thesis using Suc.IH[of "m + 1" "n - days_in y m"] Suc.prems next_month by simp
  qed
qed

text \<open>A date is the one whose day it is: a month of the year, a day of the month, and the days before add up.\<close>

lemma date_ok:
  assumes "date t = (y, m, d)"
  shows "1 \<le> m \<and> m \<le> 12 \<and> 1 \<le> d \<and> d \<le> days_in y m \<and> days_before_year y + days_before_month y m + d = t + 1"
proof -
  obtain n where n: "year_day t = (y, n)" "month_day 11 y 1 n = (m, d)"
    using assms by (auto simp: date_def split: prod.splits)
  have "days_before_month y 1 = 0" by (simp add: days_before_month_def)
  then show ?thesis using year_day_ok[OF n(1)] month_day_ok[OF n(2)] by auto
qed

end
