(* ===== verification/Admin.thy ===== *)
theory Admin
  imports Server GoTime
begin

text \<open>
  The admin pages (\<open>server/admin.go\<close>): the helper functions of the templates, loading the templates when the program
  starts, and the four handlers, which collect the data of a page and render it. Parsing is \<open>html/template\<close> over the files
  of \<open>server/templates\<close>, and an argument: it gives a template or an error. Rendering, which is
  \<open>html/template\<close> too, is the field \<open>templates\<close> of the server. An error in a handler is reported and ends the server.
\<close>

subsection \<open>Template functions\<close>

text \<open>\<open>zone\<close> is the offset of the local time zone at an instant, in seconds. The time stamp is cut to an \<open>int64\<close>.\<close>

definition fmtTimestamp :: "(int \<Rightarrow> int) \<Rightarrow> uint64 \<Rightarrow> string" where
  "fmtTimestamp zone ts = rfc3339 (zone (sint ts)) (sint ts)"

definition slice_panic :: fault where
  "slice_panic = Panic ''slice bounds out of range''"

definition contractString :: "string \<Rightarrow> int \<Rightarrow> string res" where
  "contractString s maxLength =
     (if int (length s) > maxLength - 3
      then if maxLength - 3 < 0 then Inl slice_panic else Inr (take (nat (maxLength - 3)) s @ ''...'')
      else Inr s)"

text \<open>The \<open>toStrs\<close> of the code, for at most as many bytes as it makes room for.\<close>

definition byte_strs :: "int \<Rightarrow> bytes \<Rightarrow> string list" where
  "byte_strs maxLength bs =
     (let ds = map (\<lambda>b. dec_digits (uint b)) bs in ds @ replicate (nat (maxLength - 3) - length ds) [])"

definition contractByteArray :: "bytes \<Rightarrow> int \<Rightarrow> string res" where
  "contractByteArray bs maxLength =
     (if maxLength - 3 < 0 then Inl slice_panic
      else Inr (join_with (CHR '' '')
        (if int (length bs) > maxLength - 3 then byte_strs maxLength (take (nat (maxLength - 3)) bs) @ [''...'']
         else byte_strs maxLength bs)))"

definition bytesToStr :: "bytes \<Rightarrow> string" where
  "bytesToStr = string_of_bytes"

text \<open>\<open>strings.Join\<close>.\<close>

primrec joinStringArray :: "string list \<Rightarrow> string \<Rightarrow> string" where
  "joinStringArray [] d = []"
| "joinStringArray (s # ss) d = (if ss = [] then s else s @ d @ joinStringArray ss d)"

subsection \<open>Loading the templates\<close>

definition buildTemplatePath :: "string \<Rightarrow> string" where
  "buildTemplatePath name = ''server/templates/'' @ name @ ''.html''"

text \<open>\<open>if err != nil { raven.CaptureErrorAndWait(err, nil); log.Fatal(...) }\<close>.\<close>

definition report_fatal :: "('s3, 'z, 'a) sgo \<Rightarrow> ('s3, 'z, 'a) sgo" where
  "report_fatal m w =
     (case m w of
        (Inl (Err e), w') \<Rightarrow> (Inl (Fatal ''log.Fatal''), snd (CaptureError e [] w'))
      | r \<Rightarrow> r)"

text \<open>
  \<open>web\<close> is the map of the generated files, which gives the empty string for a missing one; \<open>parse_new\<close> parses the header
  as a new template, \<open>parse_more\<close> adds the page to it.
\<close>

definition parseTemplate :: "(string \<Rightarrow> string) \<Rightarrow> (string \<Rightarrow> string \<Rightarrow> goerr + 't) \<Rightarrow> ('t \<Rightarrow> string \<Rightarrow> goerr + 't) \<Rightarrow>
    string \<Rightarrow> ('s3, 'z, 't) sgo" where
  "parseTemplate web parse_new parse_more name =
     (let templateContents = web (buildTemplatePath name); headerPath = buildTemplatePath ''_header''
      in if templateContents = [] then go_fail (Fatal ''Couldn't read template'')
         else go_try (report_fatal (pure (map_sum Err id (parse_new name (web headerPath))))) (\<lambda>headerTmpl.
                report_fatal (pure (map_sum Err id (parse_more headerTmpl templateContents)))))"

text \<open>The initialisation of the package: the templates of the archive, the index, the input and the output page.\<close>

definition admin_init :: "(string \<Rightarrow> string) \<Rightarrow> (string \<Rightarrow> string \<Rightarrow> goerr + 't) \<Rightarrow> ('t \<Rightarrow> string \<Rightarrow> goerr + 't) \<Rightarrow>
    ('s3, 'z, 't list) sgo" where
  "admin_init web parse_new parse_more =
     collect (parseTemplate web parse_new parse_more) [''archive'', ''index'', ''input'', ''output'']"

subsection \<open>Handlers\<close>

text \<open>\<open>Execute\<close> writes the page to the response; it can fail, also because the browser has gone.\<close>

definition execute :: "page \<Rightarrow> ('s3, 'z, response) sgo" where
  "execute p w =
     report_fatal (pure (case templates w p of Inl e \<Rightarrow> Inl (Err e) | Inr html \<Rightarrow> Inr (Html html))) w"

definition adminIndex :: "('s3, 'z, response) sgo" where
  "adminIndex w = execute (IndexPage (nodes w) (fuzzerConf w) (archiveConf w)) w"

definition adminInput :: "string \<Rightarrow> string \<Rightarrow> string \<Rightarrow> ('s3, 'z, response) sgo" where
  "adminInput fid inputType inputName w =
     go_try (report_fatal (on_fs (ReadInput_fleet (fileManager w) fid inputType inputName)))
       (\<lambda>i. execute (InputPage i)) w"

definition adminOutput :: "('s3, 'z, response) sgo" where
  "adminOutput w =
     go_try (report_fatal (on_fs (ReadOutputs (fileManager w)))) (\<lambda>outputs. execute (OutputPage outputs)) w"

definition adminArchive :: "('s3, 'z, response) sgo" where
  "adminArchive w =
     go_try (report_fatal (LsDstFiles (archiver w) ''realtime-crashes''))
       (\<lambda>realtimeCrashNames. execute (ArchivePage realtimeCrashNames (archiveConf w))) w"

subsection \<open>Properties\<close>

lemma report_fatal_Inr [simp]: "m w = (Inr x, w') \<Longrightarrow> report_fatal m w = (Inr x, w')"
  by (simp add: report_fatal_def)

lemma report_fatal_Err [simp]:
  "m w = (Inl (Err e), w') \<Longrightarrow> report_fatal m w = (Inl (Fatal ''log.Fatal''), w'\<lparr>w_events := w_events w' @ [Captured e []]\<rparr>)"
  by (simp add: report_fatal_def Submit_ok)

lemma ReadInput_fleet_result:
  "(\<exists>i. ReadInput_fleet fm fid t n fs = (Inr i, fs)) \<or> (\<exists>e. ReadInput_fleet fm fid t n fs = (Inl (Err e), fs))"
  by (auto simp: ReadInput_fleet_def ReadInput_def InputPath_def corpusDir_def readInput_def
      split: sum.split if_splits dest: fs_read_file_Inl)

lemma execute_ok: "templates w p = Inr html \<Longrightarrow> execute p w = (Inr (Html html), w)"
  by (simp add: execute_def pure_def)

lemma execute_failed:
  "templates w p = Inl e \<Longrightarrow> execute p w = (Inl (Fatal ''log.Fatal''), w\<lparr>w_events := w_events w @ [Captured e []]\<rparr>)"
  by (simp add: execute_def pure_def)

text \<open>
  The page of an input shows exactly what the file manager reads; a request for one it cannot read
  (a fuzzer, a type or a name that is not there, from any browser) reports the error and ends the server.
  In both cases the files stay as they are.
\<close>

theorem adminInput_result:
  assumes "\<And>p. templates w p = Inr (render p)"
  shows "case ReadInput_fleet (fileManager w) fid t n (w_fs w) of
      (Inr i, _) \<Rightarrow> adminInput fid t n w = (Inr (Html (render (InputPage i))), w)
    | (Inl f, _) \<Rightarrow> \<exists>e. f = Err e \<and> adminInput fid t n w =
        (Inl (Fatal ''log.Fatal''), w\<lparr>w_events := w_events w @ [Captured e []]\<rparr>)"
proof -
  consider i where "ReadInput_fleet (fileManager w) fid t n (w_fs w) = (Inr i, w_fs w)"
    | e where "ReadInput_fleet (fileManager w) fid t n (w_fs w) = (Inl (Err e), w_fs w)"
    using ReadInput_fleet_result by blast
  then show ?thesis
  proof cases
    case 1
    then have "report_fatal (on_fs (ReadInput_fleet (fileManager w) fid t n)) w = (Inr i, w)" by simp
    then show ?thesis using 1 assms by (simp add: adminInput_def execute_ok)
  next
    case 2
    then have "on_fs (ReadInput_fleet (fileManager w) fid t n) w = (Inl (Err e), w)" by simp
    then show ?thesis using 2 by (simp add: adminInput_def)
  qed
qed

lemma adminInput_result_witness:
  "\<exists>e. adminInput ''f'' ''seeds'' ''id:0'' (sample_server NullArchiver) =
    (Inl (Fatal ''log.Fatal''), (sample_server NullArchiver)\<lparr>w_events := [Captured e []]\<rparr>)"
proof -
  have r: "\<And>p. templates (sample_server NullArchiver) p = Inr ((\<lambda>_. []) p)" by (simp add: sample_server_def)
  have "\<exists>e. ReadInput_fleet (fileManager (sample_server NullArchiver)) ''f'' ''seeds'' ''id:0'' sample_fs = (Inl (Err e), sample_fs)"
    by (simp add: ReadInput_fleet_def ReadInput_def InputPath_def corpusDir_def QueueName_def CrashesName_def HangsName_def)
  then show ?thesis
    using adminInput_result[of "sample_server NullArchiver" "\<lambda>_. []", OF r, where fid = "''f''" and t = "''seeds''" and n = "''id:0''"]
    by (auto simp: sample_server_def)
qed

text \<open>
  The shortened string of the output page fits the width it is given, keeps a short string, and
  otherwise is a prefix followed by dots; the shortened byte array always has one field for every
  column, empty ones included.
\<close>

theorem contract_bounds:
  assumes "3 \<le> w"
  shows "(\<exists>s'. contractString s w = Inr s' \<and> int (length s') \<le> w \<and>
      (if int (length s) \<le> w - 3 then s' = s else s' = take (nat (w - 3)) s @ ''...'')) \<and>
    (\<exists>fs. contractByteArray bs w = Inr (join_with (CHR '' '') fs) \<and>
      int (length fs) = (if int (length bs) \<le> w - 3 then w - 3 else w - 2) \<and>
      take (min (length bs) (nat (w - 3))) fs = map (\<lambda>b. dec_digits (uint b)) (take (nat (w - 3)) bs))"
proof -
  have "\<exists>s'. contractString s w = Inr s' \<and> int (length s') \<le> w \<and>
      (if int (length s) \<le> w - 3 then s' = s else s' = take (nat (w - 3)) s @ ''...'')"
    using assms by (auto simp: contractString_def)
  moreover have "\<exists>fs. contractByteArray bs w = Inr (join_with (CHR '' '') fs) \<and>
      int (length fs) = (if int (length bs) \<le> w - 3 then w - 3 else w - 2) \<and>
      take (min (length bs) (nat (w - 3))) fs = map (\<lambda>b. dec_digits (uint b)) (take (nat (w - 3)) bs)"
  proof (cases "int (length bs) \<le> w - 3")
    case True
    then show ?thesis using assms
      by (intro exI[of _ "byte_strs w bs"]) (auto simp: contractByteArray_def byte_strs_def Let_def min_def)
  next
    case False
    then show ?thesis using assms
      by (intro exI[of _ "byte_strs w (take (nat (w - 3)) bs) @ [''...'']"])
        (auto simp: contractByteArray_def byte_strs_def Let_def min_def)
  qed
  ultimately show ?thesis ..
qed

lemma contract_bounds_witness:
  "contractString ''abcdefgh'' 6 = Inr ''abc...'' \<and> contractByteArray [1, 2] 7 = Inr ''1 2  ''"
proof -
  have s: "int (length (''abcdefgh'')) \<le> (6::int) - 3 \<longleftrightarrow> False" by simp
  obtain s' where "contractString ''abcdefgh'' 6 = Inr s'" "s' = take (nat (6 - 3)) ''abcdefgh'' @ ''...''"
    using contract_bounds[of 6 "''abcdefgh''" "[]"] unfolding s by auto
  moreover have "contractByteArray [1, 2] 7 = Inr ''1 2  ''" by code_simp
  ultimately show ?thesis by simp
qed

text \<open>
  The program gets past the initialisation exactly when every page has a text and every text parses; in particular a
  build without the generated files, whose map is empty, ends at once.
\<close>

lemma parsed_or_fatal:
  "report_fatal (pure (map_sum Err id r)) w = (case r of
     Inl e \<Rightarrow> (Inl (Fatal ''log.Fatal''), w\<lparr>w_events := w_events w @ [Captured e []]\<rparr>) | Inr t \<Rightarrow> (Inr t, w))"
  by (cases r) (simp_all add: report_fatal_def pure_def Submit_ok)

lemma parseTemplate_result:
  "case fst (parseTemplate web parse_new parse_more name w) of
     Inr t \<Rightarrow> web (buildTemplatePath name) \<noteq> [] \<and> (\<exists>h. parse_new name (web (buildTemplatePath ''_header'')) = Inr h \<and>
       parse_more h (web (buildTemplatePath name)) = Inr t)
   | Inl f \<Rightarrow> (\<exists>m. f = Fatal m) \<and> (web (buildTemplatePath name) = [] \<or>
       (\<forall>h t. parse_new name (web (buildTemplatePath ''_header'')) = Inr h \<longrightarrow>
         parse_more h (web (buildTemplatePath name)) \<noteq> Inr t))"
  by (auto simp: parseTemplate_def Let_def go_try_def parsed_or_fatal split: sum.split)

lemma admin_init_no_files: "fst (admin_init (\<lambda>_. []) parse_new parse_more w) = Inl (Fatal ''Couldn't read template'')"
  by (simp add: admin_init_def parseTemplate_def go_try_def)

text \<open>A time stamp is shown with the date it is at, in the zone.\<close>

lemma fmtTimestamp_date:
  assumes "date ((sint ts + zone (sint ts)) div 86400 + 719162) = (y, m, d)"
  shows "\<exists>rest. fmtTimestamp zone ts = padded 4 y @ ''-'' @ padded 2 m @ ''-'' @ padded 2 d @ ''T'' @ rest \<and>
    days_before_year y + days_before_month y m + d = (sint ts + zone (sint ts)) div 86400 + 719163"
  using assms date_ok[OF assms] by (simp add: fmtTimestamp_def rfc3339_def Let_def)

end
