(* ===== verification/ClientHttp.thy ===== *)
theory ClientHttp
  imports Metrics Config
begin

text \<open>
  The client of the server's HTTP interface (\<open>client/server_client.go\<close>). The network is a part of the
  client's world: \<open>net_do\<close> is one \<open>httpClient.Do\<close>, which gives an error or a response, and the part
  of the request's body it has not read; \<open>net_new_request\<close> is what \<open>http.NewRequest\<close> refuses. A
  response body is a stream: its bytes, and the error that ends it early, if one does. Requests sent,
  pauses and signals to the fuzzer's process are written to \<open>c_log\<close>. Decoding a JSON body is an
  argument: it gives the value the target variable has after \<open>Decode\<close>, whose error the code drops.
\<close>

record stream =
  Content :: bytes
  ReadErr :: "goerr option"

record request =
  Method :: string
  Url :: string
  ReqBody :: bytes
  ContentLength :: nat

record http_response =
  StatusCode :: int
  RespBody :: stream

type_synonym reply = "goerr + http_response"

datatype signal = SIGSTOP | SIGCONT

datatype client_act = Sent request | Slept int | Signalled signal

record ('s3, 'n) client_world = "'s3 world" +
  net :: 'n
  net_do :: "request \<Rightarrow> 'n \<Rightarrow> reply \<times> bytes \<times> 'n"
  net_new_request :: "string \<Rightarrow> string \<Rightarrow> goerr option"
  c_log :: "client_act list"

type_synonym ('s3, 'n, 'z, 'a) cgo = "(('s3, 'n, 'z) client_world_scheme, 'a) go"

record RovingServerClient =
  hostport :: string
  retryDelay :: int
  maxRetries :: int

definition NewRovingServerClient :: "string \<Rightarrow> RovingServerClient" where
  "NewRovingServerClient hp = \<lparr>hostport = hp, retryDelay = 5 * 1000000000, maxRetries = 3\<rparr>"

subsection \<open>Requests\<close>

text \<open>One round of the loop of \<open>makeRequest\<close>: the response, if it is a 200, and what is left.\<close>

definition attempt ::
  "request \<Rightarrow> ('s3, 'n, 'z) client_world_scheme \<Rightarrow> http_response option \<times> request \<times> ('s3, 'n, 'z) client_world_scheme" where
  "attempt req w =
     (case net_do w req (net w) of
        (r, rest, n) \<Rightarrow>
          ((case r of Inl _ \<Rightarrow> None | Inr resp \<Rightarrow> if StatusCode resp = 200 then Some resp else None),
           req\<lparr>ReqBody := rest\<rparr>, w\<lparr>net := n, c_log := c_log w @ [Sent req]\<rparr>))"

definition sleep :: "int \<Rightarrow> ('s3, 'n, 'z) client_world_scheme \<Rightarrow> ('s3, 'n, 'z) client_world_scheme" where
  "sleep d w = w\<lparr>c_log := c_log w @ [Slept d]\<rparr>"

definition out_of_retries :: fault where
  "out_of_retries = Err (ErrMsg ''Ran out of retries.'')"

function makeRequest_loop :: "RovingServerClient \<Rightarrow> int \<Rightarrow> request \<Rightarrow> ('s3, 'n, 'z, http_response) cgo" where
  "makeRequest_loop s nTries req w =
     (case attempt req w of
        (Some resp, _, w') \<Rightarrow> (Inr resp, w')
      | (None, req', w') \<Rightarrow>
          (if nTries + 1 \<ge> maxRetries s then (Inl out_of_retries, w')
           else makeRequest_loop s (nTries + 1) req' (sleep (retryDelay s) w')))"
  by pat_completeness auto

termination
  by (relation "measure (\<lambda>(s, nTries, _). nat (maxRetries s - nTries))") auto

declare makeRequest_loop.simps [simp del]

lemma makeRequest_loop_induct [case_names round]:
  fixes s :: RovingServerClient
  assumes "\<And>(s :: RovingServerClient) t req w. (\<And>req' w'. attempt req w = (None, req', w') \<Longrightarrow> \<not> maxRetries s \<le> t + 1 \<Longrightarrow>
    P s (t + 1) req' (sleep (retryDelay s) w')) \<Longrightarrow> P s t req w"
  shows "P s t req w"
proof (induction s t req w rule: makeRequest_loop.induct)
  case (1 s t req w)
  show ?case
  proof (rule assms)
    fix req' w'
    assume "attempt req w = (None, req', w')" and "\<not> maxRetries s \<le> t + 1"
    then show "P s (t + 1) req' (sleep (retryDelay s) w')"
      using 1[of None "(req', w')" req' w'] by simp
  qed
qed

lemma makeRequest_loop_rounds:
  "attempt req w = (Some resp, req', w') \<Longrightarrow> makeRequest_loop s t req w = (Inr resp, w')"
  "attempt req w = (None, req', w') \<Longrightarrow> maxRetries s \<le> t + 1 \<Longrightarrow>
   makeRequest_loop s t req w = (Inl out_of_retries, w')"
  "attempt req w = (None, req', w') \<Longrightarrow> \<not> maxRetries s \<le> t + 1 \<Longrightarrow>
   makeRequest_loop s t req w = makeRequest_loop s (t + 1) req' (sleep (retryDelay s) w')"
  by (simp_all add: makeRequest_loop.simps[of s t])

definition makeRequest :: "RovingServerClient \<Rightarrow> string \<Rightarrow> string \<Rightarrow> bytes option \<Rightarrow> ('s3, 'n, 'z, http_response) cgo" where
  "makeRequest s method path body w =
     (let resource = hostport s @ ''/'' @ path; b = (case body of None \<Rightarrow> [] | Some b \<Rightarrow> b)
      in case net_new_request w method resource of
           Some e \<Rightarrow> (Inl (Err e), w)
         | None \<Rightarrow> makeRequest_loop s 0
             \<lparr>Method = method, Url = resource, ReqBody = b, ContentLength = length b\<rparr> w)"

subsection \<open>The resources of the server\<close>

definition zero_FuzzerConfig :: FuzzerConfig where
  "zero_FuzzerConfig = \<lparr>UseBinary = False, UseDict = False, SyncInterval = 0, Command = [], MemLimitMb = 0, TimeoutMs = 0\<rparr>"

definition FetchFuzzerConfig ::
  "(stream \<Rightarrow> FuzzerConfig \<Rightarrow> FuzzerConfig) \<Rightarrow> RovingServerClient \<Rightarrow> ('s3, 'n, 'z, FuzzerConfig) cgo" where
  "FetchFuzzerConfig decode s =
     go_try (makeRequest s ''GET'' ''config'' None) (\<lambda>resp. go_ret (decode (RespBody resp) zero_FuzzerConfig))"

definition FetchInputs ::
  "(stream \<Rightarrow> InputCorpus option \<Rightarrow> InputCorpus option) \<Rightarrow> RovingServerClient \<Rightarrow> ('s3, 'n, 'z, InputCorpus option) cgo" where
  "FetchInputs decode s =
     go_try (makeRequest s ''GET'' ''inputs'' None) (\<lambda>resp. go_ret (decode (RespBody resp) (Some \<lparr>Inputs = []\<rparr>)))"

definition FetchDict :: "RovingServerClient \<Rightarrow> ('s3, 'n, 'z, bytes) cgo" where
  "FetchDict s =
     go_try (makeRequest s ''GET'' ''dict'' None) (\<lambda>resp.
       case ReadErr (RespBody resp) of None \<Rightarrow> go_ret (Content (RespBody resp)) | Some e \<Rightarrow> go_fail (Err e))"

type_synonym queues = "(string \<times> InputCorpus option) list"

definition FetchQueues :: "(stream \<Rightarrow> queues \<Rightarrow> queues) \<Rightarrow> RovingServerClient \<Rightarrow> ('s3, 'n, 'z, queues) cgo" where
  "FetchQueues decode s =
     go_try (makeRequest s ''GET'' ''queue'' None) (\<lambda>resp. go_ret (decode (RespBody resp) []))"

text \<open>\<open>marshal\<close> is \<open>json.Marshal\<close>, which fails on values JSON cannot hold.\<close>

definition UploadState :: "(State \<Rightarrow> goerr + bytes) \<Rightarrow> RovingServerClient \<Rightarrow> State \<Rightarrow> ('s3, 'n, 'z, unit) cgo" where
  "UploadState marshal s state =
     (case marshal state of
        Inl e \<Rightarrow> go_fail (Err e)
      | Inr stateJson \<Rightarrow> go_try (makeRequest s ''POST'' ''state'' (Some stateJson)) (\<lambda>_. go_ret ()))"

text \<open>\<open>io.Copy(f, resp.Body)\<close>, whose error the code drops, writes what it could read.\<close>

definition io_copy_stream :: "path \<Rightarrow> stream \<Rightarrow> (fs, unit) go" where
  "io_copy_stream f body fs = (Inr (), snd (file_write f (Content body) fs))"

definition fetchToFile :: "RovingServerClient \<Rightarrow> string \<Rightarrow> string \<Rightarrow> ('s3, 'n, 'z, unit) cgo" where
  "fetchToFile s resource dst =
     go_try (makeRequest s ''GET'' resource None) (\<lambda>resp.
       go_try (on_fs (os_open_file False dst)) (\<lambda>f. on_fs (io_copy_stream f (RespBody resp))))"

definition FetchTargetBinary :: "RovingServerClient \<Rightarrow> string \<Rightarrow> ('s3, 'n, 'z, unit) cgo" where
  "FetchTargetBinary s dst = fetchToFile s ''target/binary'' dst"

subsection \<open>The attempts of a request\<close>

text \<open>What the request and the world are when attempt \<open>k\<close> (from 0) begins, all before having failed.\<close>

primrec before_try :: "int \<Rightarrow> nat \<Rightarrow> request \<Rightarrow> ('s3, 'n, 'z) client_world_scheme \<Rightarrow> request \<times> ('s3, 'n, 'z) client_world_scheme" where
  "before_try d 0 req w = (req, w)"
| "before_try d (Suc k) req w = (case attempt req w of (_, req', w') \<Rightarrow> before_try d k req' (sleep d w'))"

definition try_at ::
  "int \<Rightarrow> nat \<Rightarrow> request \<Rightarrow> ('s3, 'n, 'z) client_world_scheme \<Rightarrow> http_response option \<times> request \<times> ('s3, 'n, 'z) client_world_scheme" where
  "try_at d k req w = (case before_try d k req w of (req', w') \<Rightarrow> attempt req' w')"

text \<open>How often a client asks before it gives up.\<close>

definition max_tries :: "RovingServerClient \<Rightarrow> nat" where
  "max_tries s = nat (max 1 (maxRetries s))"

lemma try_at_0 [simp]: "try_at d 0 req w = attempt req w"
  by (simp add: try_at_def)

lemma try_at_Suc:
  "attempt req w = (r, req', w') \<Longrightarrow> try_at d (Suc k) req w = try_at d k req' (sleep d w')"
  by (simp add: try_at_def)

lemma find_upt_Suc: "find P [0..<Suc n] = (if P 0 then Some 0 else map_option Suc (find (\<lambda>k. P (Suc k)) [0..<n]))"
proof -
  have "find P (map Suc ks) = map_option Suc (find (\<lambda>k. P (Suc k)) ks)" for ks
    by (induction ks) auto
  moreover have "[0..<Suc n] = 0 # map Suc [0..<n]" by (simp add: map_Suc_upt upt_conv_Cons)
  ultimately show ?thesis by simp
qed

text \<open>The first of \<open>n\<close> attempts that a 200 answers decides; if there is none, the request failed.\<close>

definition outcome :: "int \<Rightarrow> nat \<Rightarrow> request \<Rightarrow> ('s3, 'n, 'z, http_response) cgo" where
  "outcome d n req w =
     (case find (\<lambda>k. fst (try_at d k req w) \<noteq> None) [0..<n] of
        Some k \<Rightarrow> (Inr (the (fst (try_at d k req w))), snd (snd (try_at d k req w)))
      | None \<Rightarrow> (Inl out_of_retries, snd (snd (try_at d (n - 1) req w))))"

lemma outcome_Suc:
  assumes "attempt req w = (r, req', w')"
  shows "outcome d (Suc n) req w =
    (case r of Some resp \<Rightarrow> (Inr resp, w')
     | None \<Rightarrow> if n = 0 then (Inl out_of_retries, w') else outcome d n req' (sleep d w'))"
proof (cases n)
  case 0
  then show ?thesis using assms by (auto simp: outcome_def split: option.split)
next
  case (Suc m)
  then show ?thesis
    using assms by (auto simp: outcome_def find_upt_Suc try_at_Suc[OF assms] simp del: upt_Suc split: option.split)
qed

lemma makeRequest_loop_outcome:
  "makeRequest_loop s t req w = outcome (retryDelay s) (nat (max 1 (maxRetries s - t))) req w"
proof (induction s t req w rule: makeRequest_loop_induct)
  case (round s t req w)
  obtain r req' w' where a: "attempt req w = (r, req', w')" by (cases "attempt req w")
  have "nat (max 1 (maxRetries s - t)) = Suc (nat (maxRetries s - (t + 1)))" by simp
  moreover have "\<not> maxRetries s \<le> t + 1 \<Longrightarrow> max 1 (maxRetries s - (t + 1)) = maxRetries s - (t + 1)" by simp
  ultimately show ?case
    using a round by (auto simp: outcome_Suc[OF a] makeRequest_loop_rounds split: option.split)
qed

subsection \<open>What a request sends\<close>

primrec paced :: "int \<Rightarrow> request list \<Rightarrow> client_act list" where
  "paced d [] = []"
| "paced d (q # qs) = Sent q # (if qs = [] then [] else Slept d # paced d qs)"

text \<open>Two requests that differ at most in what is left of their body.\<close>

definition same_request :: "request \<Rightarrow> request \<Rightarrow> bool" where
  "same_request q r \<longleftrightarrow> Method q = Method r \<and> Url q = Url r \<and> ContentLength q = ContentLength r"

lemma attempt_frame:
  assumes "attempt req w = (r, req', w')"
  shows "c_log w' = c_log w @ [Sent req]" and "same_request req' req" and "net_do w' = net_do w"
    and "w_fs w' = w_fs w" and "w_events w' = w_events w" and "w_report w' = w_report w"
    and "\<And>resp. r = Some resp \<Longrightarrow> StatusCode resp = 200"
  using assms by (auto simp: attempt_def same_request_def split: prod.splits sum.splits if_splits)

lemma sleep_simps [simp]:
  "c_log (sleep d w) = c_log w @ [Slept d]" "net_do (sleep d w) = net_do w" "net (sleep d w) = net w"
  "w_fs (sleep d w) = w_fs w" "w_events (sleep d w) = w_events w" "w_report (sleep d w) = w_report w"
  by (simp_all add: sleep_def)

lemma makeRequest_loop_paced:
  assumes "makeRequest_loop s nTries req w = (r, w')"
  shows "\<exists>qs. qs \<noteq> [] \<and> hd qs = req \<and> list_all (\<lambda>q. same_request q req) qs \<and>
    c_log w' = c_log w @ paced (retryDelay s) qs \<and>
    int (length qs) \<le> max 1 (maxRetries s - nTries) \<and>
    (case r of Inr resp \<Rightarrow> StatusCode resp = 200
     | Inl e \<Rightarrow> e = out_of_retries \<and> int (length qs) = max 1 (maxRetries s - nTries))"
  using assms
proof (induction s nTries req w rule: makeRequest_loop_induct)
  case (round s nTries req w)
  obtain a req1 w1 where a: "attempt req w = (a, req1, w1)" by (cases "attempt req w")
  note fr = attempt_frame[OF a]
  consider (ok) resp where "a = Some resp" | (last) "a = None" "nTries + 1 \<ge> maxRetries s"
    | (more) "a = None" "\<not> nTries + 1 \<ge> maxRetries s" by (cases a) auto
  then show ?case
  proof cases
    case ok
    then have "r = Inr resp" "w' = w1" using round(2) a by (auto simp: makeRequest_loop_rounds)
    then show ?thesis using ok fr(1,7) by (intro exI[of _ "[req]"]) (auto simp: same_request_def)
  next
    case last
    then have "r = Inl out_of_retries" "w' = w1" using round(2) a by (auto simp: makeRequest_loop_rounds)
    then show ?thesis using last fr(1) by (intro exI[of _ "[req]"]) (auto simp: same_request_def)
  next
    case more
    then have run: "makeRequest_loop s (nTries + 1) req1 (sleep (retryDelay s) w1) = (r, w')"
      using round(2) a by (simp add: makeRequest_loop_rounds)
    obtain qs where qs: "qs \<noteq> []" "hd qs = req1" "list_all (\<lambda>q. same_request q req1) qs"
      "c_log w' = c_log (sleep (retryDelay s) w1) @ paced (retryDelay s) qs"
      "int (length qs) \<le> max 1 (maxRetries s - (nTries + 1))"
      "case r of Inr resp \<Rightarrow> StatusCode resp = 200
       | Inl e \<Rightarrow> e = out_of_retries \<and> int (length qs) = max 1 (maxRetries s - (nTries + 1))"
      using round(1)[OF _ more(2) run] a more(1) by blast
    have len: "max 1 (maxRetries s - nTries) = max 1 (maxRetries s - (nTries + 1)) + 1" using more by simp
    have sr: "list_all (\<lambda>q. same_request q req) (req # qs)"
      using qs(3) fr(2) by (auto simp: list_all_iff same_request_def)
    show ?thesis
      using qs fr(1) sr unfolding len
      by (intro exI[of _ "req # qs"]) (auto split: sum.splits)
  qed
qed

subsection \<open>Requests whose body has been used up\<close>

text \<open>
  \<open>net/http\<close> gives up on a request whose body ends before its content length; reading a body never
  makes it longer.
\<close>

definition refuses_short :: "('s3, 'n, 'z) client_world_scheme \<Rightarrow> bool" where
  "refuses_short w \<longleftrightarrow> (\<forall>req n. length (ReqBody req) < ContentLength req \<longrightarrow>
     (\<exists>e rest n'. net_do w req n = (Inl e, rest, n') \<and> length rest \<le> length (ReqBody req)))"

lemma short_attempt:
  assumes "refuses_short w" and "length (ReqBody req) < ContentLength req"
  shows "\<exists>req' w'. attempt req w = (None, req', w') \<and> refuses_short w' \<and> length (ReqBody req') < ContentLength req'"
proof -
  obtain e rest n' where d: "net_do w req (net w) = (Inl e, rest, n')" "length rest \<le> length (ReqBody req)"
    using assms unfolding refuses_short_def by blast
  have "attempt req w = (None, req\<lparr>ReqBody := rest\<rparr>, w\<lparr>net := n', c_log := c_log w @ [Sent req]\<rparr>)"
    using d(1) by (simp add: attempt_def)
  then show ?thesis using assms d(2) by (auto simp: refuses_short_def)
qed

lemma refuses_short_sleep [simp]: "refuses_short (sleep d w) = refuses_short w"
  by (simp add: refuses_short_def)

lemma short_never_sent:
  assumes "refuses_short w" and "length (ReqBody req) < ContentLength req"
  shows "fst (makeRequest_loop s nTries req w) = Inl out_of_retries"
  using assms
proof (induction s nTries req w rule: makeRequest_loop_induct)
  case (round s nTries req w)
  obtain req' w' where a: "attempt req w = (None, req', w')" "refuses_short w'"
    "length (ReqBody req') < ContentLength req'"
    using short_attempt[OF round(2,3)] by blast
  then show ?case
    using round(1)[OF a(1)] by (cases "maxRetries s \<le> nTries + 1") (simp_all add: makeRequest_loop_rounds)
qed

subsection \<open>A request changes the network only\<close>

definition signals :: "client_act list \<Rightarrow> signal list" where
  "signals acts = concat (map (\<lambda>a. case a of Signalled s \<Rightarrow> [s] | _ \<Rightarrow> []) acts)"

lemma signals_simps [simp]:
  "signals [] = []" "signals (Sent q # as) = signals as" "signals (Slept d # as) = signals as"
  "signals (Signalled s # as) = s # signals as" "signals (as @ bs) = signals as @ signals bs"
  by (simp_all add: signals_def)

definition talks :: "('s3, 'n, 'z) client_world_scheme \<Rightarrow> ('s3, 'n, 'z) client_world_scheme \<Rightarrow> bool" where
  "talks w w' \<longleftrightarrow> (\<exists>n acts. w' = w\<lparr>net := n, c_log := c_log w @ acts\<rparr> \<and> signals acts = [])"

lemma talksI: "w' = w\<lparr>net := n, c_log := c_log w @ acts\<rparr> \<Longrightarrow> signals acts = [] \<Longrightarrow> talks w w'"
  unfolding talks_def by blast

lemma talks_refl: "talks w w"
  by (rule talksI[where n = "net w" and acts = "[]"]) simp_all

lemma talks_trans: "talks u v \<Longrightarrow> talks v w \<Longrightarrow> talks u w"
proof -
  assume "talks u v" and "talks v w"
  then obtain n acts m acts' where "v = u\<lparr>net := n, c_log := c_log u @ acts\<rparr>" "signals acts = []"
    "w = v\<lparr>net := m, c_log := c_log v @ acts'\<rparr>" "signals acts' = []"
    unfolding talks_def by blast
  then show ?thesis by (intro talksI[where n = m and acts = "acts @ acts'"]) simp_all
qed

lemma talks_preorder: "reflp talks" "transp talks"
  by (auto intro: reflpI transpI talks_refl talks_trans)

lemma attempt_talks: "attempt req w = (r, req', w') \<Longrightarrow> talks w w'"
  by (auto simp: attempt_def split: prod.splits intro: talksI[where acts = "[Sent req]"])

lemma sleep_talks: "talks w (sleep d w)"
  by (rule talksI[where n = "net w" and acts = "[Slept d]"]) (simp_all add: sleep_def)

lemma makeRequest_loop_talks: "makeRequest_loop s t req w = (r, w') \<Longrightarrow> talks w w'"
proof (induction s t req w rule: makeRequest_loop_induct)
  case (round s t req w)
  obtain a req1 w1 where a: "attempt req w = (a, req1, w1)" by (cases "attempt req w")
  show ?case
    using round a attempt_talks[OF a] by (cases a; cases "maxRetries s \<le> t + 1")
      (auto simp: makeRequest_loop_rounds intro: talks_trans[OF talks_trans[OF _ sleep_talks]])
qed

lemma makeRequest_talks: "within talks (makeRequest s method path body)"
  unfolding within_def
proof
  fix w
  show "talks w (snd (makeRequest s method path body w))"
    using makeRequest_loop_talks[of s 0 _ w] talks_refl
    by (auto simp: makeRequest_def Let_def split: option.split intro: prod.collapse[symmetric])
qed

lemma makeRequest_frame: "makeRequest s method path body w = (r, w') \<Longrightarrow> w_fs w' = w_fs w"
  using withinD[OF makeRequest_talks] by (fastforce simp: talks_def)

lemma Fetch_talks:
  "within talks (FetchFuzzerConfig dec1 s)" "within talks (FetchInputs dec2 s)" "within talks (FetchDict s)"
  "within talks (FetchQueues dec3 s)" "within talks (UploadState marshal s state)"
  by (auto simp: FetchFuzzerConfig_def FetchInputs_def FetchDict_def FetchQueues_def UploadState_def
      intro!: within_try within_ret within_fail makeRequest_talks talks_preorder split: option.split sum.split)

subsection \<open>Requests fail with an error value only\<close>

lemma errs_makeRequest: "errs (makeRequest s method path body)"
  unfolding errs_def makeRequest_def Let_def
  using makeRequest_loop_paced by (fastforce simp: out_of_retries_def split: option.splits)

lemma errs_Fetch:
  "errs (FetchQueues dec3 s)" "errs (UploadState marshal s state)" "errs (fetchToFile s resource dst)"
proof -
  show "errs (FetchQueues dec3 s)" unfolding FetchQueues_def by (intro errs_rules errs_makeRequest)
  have fail: "errs (go_fail (Err e))" for e by (simp add: errs_def)
  show "errs (UploadState marshal s state)"
    unfolding UploadState_def by (auto split: sum.split intro: errs_rules errs_makeRequest fail)
  have "errs (io_copy_stream f b)" for f b by (simp add: errs_def io_copy_stream_def)
  then show "errs (fetchToFile s resource dst)"
    unfolding fetchToFile_def by (intro errs_rules errs_makeRequest errs_on_fs errs_calls)
qed

subsection \<open>A sample network\<close>

text \<open>
  A server that answers the first request with 503 and every later one with 200 and the given body;
  a request whose body has been read already is refused.
\<close>

definition flaky_net :: "stream \<Rightarrow> request \<Rightarrow> nat \<Rightarrow> reply \<times> bytes \<times> nat" where
  "flaky_net body req n =
     (if length (ReqBody req) < ContentLength req then (Inl (ErrMsg ''short body''), ReqBody req, Suc n)
      else (Inr \<lparr>StatusCode = (if n = 0 then 503 else 200), RespBody = body\<rparr>, [], Suc n))"

definition flaky_world :: "fs \<Rightarrow> stream \<Rightarrow> (unit, nat) client_world" where
  "flaky_world fs body =
     \<lparr>w_fs = fs, w_events = [], w_report = (\<lambda>_ _ _ _. None), w_s3 = (),
      w_put_object = (\<lambda>_ _ _ s3. (None, s3)), w_list_pages = (\<lambda>_ _ _. ([], None)),
      net = 0, net_do = flaky_net body, net_new_request = (\<lambda>_ _. None), c_log = []\<rparr>"

definition target_stream :: stream where
  "target_stream = \<lparr>Content = [1, 2], ReadErr = Some (ErrMsg ''unexpected EOF'')\<rparr>"

lemma flaky_get:
  "\<exists>w'. makeRequest (NewRovingServerClient hp) ''GET'' path None (flaky_world fs body) =
    (Inr \<lparr>StatusCode = 200, RespBody = body\<rparr>, w') \<and> net w' = 2"
  by (simp add: makeRequest_def Let_def makeRequest_loop.simps[of _ 0] makeRequest_loop.simps[of _ 1]
      attempt_def flaky_world_def flaky_net_def sleep_def NewRovingServerClient_def)

subsection \<open>Properties\<close>

text \<open>
  C16: makeRequest is the first-success specification: it asks at most max 1 maxRetries times with the
  pause between attempts, gives the response of the first attempt a 200 answers, and fails after the
  last attempt when there is none.
\<close>

theorem makeRequest_first_success:
  assumes "net_new_request w method (hostport s @ ''/'' @ path) = None"
  shows "makeRequest s method path body w =
    outcome (retryDelay s) (nat (max 1 (maxRetries s)))
      \<lparr>Method = method, Url = hostport s @ ''/'' @ path,
       ReqBody = (case body of None \<Rightarrow> [] | Some b \<Rightarrow> b),
       ContentLength = length (case body of None \<Rightarrow> [] | Some b \<Rightarrow> b)\<rparr> w"
  using assms by (simp add: makeRequest_def Let_def makeRequest_loop_outcome)

lemma makeRequest_first_success_witness:
  "(case makeRequest (NewRovingServerClient ''s'') ''GET'' ''dict'' None (flaky_world (sample_fs) target_stream) of
      (Inr resp, w) \<Rightarrow> resp = \<lparr>StatusCode = 200, RespBody = target_stream\<rparr> \<and> net w = 2 | _ \<Rightarrow> False)"
proof -
  let ?w = "flaky_world sample_fs target_stream"
  have n: "net_new_request ?w ''GET'' (hostport (NewRovingServerClient ''s'') @ ''/'' @ ''dict'') = None"
    by (simp add: flaky_world_def)
  show ?thesis unfolding makeRequest_first_success[OF n]
    by (simp add: NewRovingServerClient_def outcome_def find_upt_Suc numeral_3_eq_3 try_at_def attempt_def
        flaky_world_def flaky_net_def sleep_def)
qed

text \<open>
  C33: makeRequest terminates after between one and max 1 maxRetries requests, all with the same
  method, resource and content length, and pauses exactly between two of them. It gives a response
  only with status 200; it gives up only after the last request.
\<close>

theorem makeRequest_bounded:
  assumes "makeRequest s method path body w = (r, w')"
    and "net_new_request w method (hostport s @ ''/'' @ path) = None"
  shows "\<exists>qs. qs \<noteq> [] \<and> int (length qs) \<le> max 1 (maxRetries s) \<and>
    c_log w' = c_log w @ paced (retryDelay s) qs \<and> w_fs w' = w_fs w \<and>
    list_all (\<lambda>q. Method q = method \<and> Url q = hostport s @ ''/'' @ path \<and>
      ContentLength q = (case body of None \<Rightarrow> 0 | Some b \<Rightarrow> length b)) qs \<and>
    (case r of Inr resp \<Rightarrow> StatusCode resp = 200
     | Inl e \<Rightarrow> e = out_of_retries \<and> int (length qs) = max 1 (maxRetries s))"
proof -
  let ?req = "\<lparr>Method = method, Url = hostport s @ ''/'' @ path,
       ReqBody = (case body of None \<Rightarrow> [] | Some b \<Rightarrow> b),
       ContentLength = length (case body of None \<Rightarrow> [] | Some b \<Rightarrow> b)\<rparr>"
  have "makeRequest_loop s 0 ?req w = (r, w')" using assms by (simp add: makeRequest_def Let_def)
  from makeRequest_loop_paced[OF this, unfolded diff_0_right] obtain qs where
    "qs \<noteq> []" "list_all (\<lambda>q. same_request q ?req) qs" "c_log w' = c_log w @ paced (retryDelay s) qs"
    "int (length qs) \<le> max 1 (maxRetries s)"
    "case r of Inr resp \<Rightarrow> StatusCode resp = 200
     | Inl e \<Rightarrow> e = out_of_retries \<and> int (length qs) = max 1 (maxRetries s)" by blast
  then show ?thesis
    using makeRequest_frame[OF assms(1)]
    by (intro exI[of _ qs]) (simp add: same_request_def split: option.splits sum.splits)
qed

lemma makeRequest_bounded_witness:
  "\<exists>qs w'. int (length qs) \<le> 3 \<and> c_log w' = paced (5 * 1000000000) qs \<and>
    snd (makeRequest (NewRovingServerClient ''s'') ''GET'' ''dict'' None (flaky_world sample_fs target_stream)) = w'"
proof -
  let ?s = "NewRovingServerClient ''s''" and ?w = "flaky_world sample_fs target_stream"
  obtain r w' where run: "makeRequest ?s ''GET'' ''dict'' None ?w = (r, w')"
    by (cases "makeRequest ?s ''GET'' ''dict'' None ?w")
  have n: "net_new_request ?w ''GET'' (hostport ?s @ ''/'' @ ''dict'') = None" by (simp add: flaky_world_def)
  show ?thesis
    using makeRequest_bounded[OF run n] run by (auto simp: NewRovingServerClient_def flaky_world_def)
qed

text \<open>
  C31: An upload whose first attempt did not succeed, but had read some of the body, never succeeds:
  the request is sent again without its body, which net/http refuses, until the retries are used up,
  whatever the server would have answered.
\<close>

theorem UploadState_never_recovers:
  assumes "refuses_short w"
    and "marshal state = Inr json" and "net_new_request w ''POST'' (hostport s @ ''/state'') = None"
    and "net_do w \<lparr>Method = ''POST'', Url = hostport s @ ''/state'', ReqBody = json, ContentLength = length json\<rparr>
      (net w) = (r, rest, n)"
    and "\<forall>resp. r = Inr resp \<longrightarrow> StatusCode resp \<noteq> 200" and "length rest < length json"
  shows "fst (UploadState marshal s state w) = Inl out_of_retries"
proof -
  let ?req = "\<lparr>Method = ''POST'', Url = hostport s @ ''/state'', ReqBody = json, ContentLength = length json\<rparr>"
  let ?w1 = "w\<lparr>net := n, c_log := c_log w @ [Sent ?req]\<rparr>"
  have a: "attempt ?req w = (None, ?req\<lparr>ReqBody := rest\<rparr>, ?w1)"
    using assms(4,5) by (auto simp: attempt_def split: sum.split)
  have "refuses_short (sleep (retryDelay s) ?w1)" using assms(1) by (simp add: refuses_short_def)
  from short_never_sent[OF this, of "?req\<lparr>ReqBody := rest\<rparr>" s "0 + 1"]
  have "fst (makeRequest_loop s 0 ?req w) = Inl out_of_retries"
    using assms(6) a by (cases "maxRetries s \<le> 0 + 1") (simp_all add: makeRequest_loop_rounds)
  then show ?thesis
    using assms(2,3) by (auto simp: UploadState_def makeRequest_def Let_def go_try_def split: prod.splits sum.splits)
qed

lemma UploadState_never_recovers_witness:
  "fst (UploadState (\<lambda>_. Inr [1, 2, 3]) (NewRovingServerClient ''s'')
     \<lparr>Id = ''a'', Stats = zero_stats, Output = \<lparr>Queue = None, Crashes = None, Hangs = None\<rparr>\<rparr>
     (flaky_world sample_fs target_stream)) = Inl out_of_retries"
  by (rule UploadState_never_recovers[where json = "[1, 2, 3]" and rest = "[]" and n = 1 and
        r = "Inr \<lparr>StatusCode = 503, RespBody = target_stream\<rparr>"])
    (simp_all add: flaky_world_def flaky_net_def refuses_short_def)

text \<open>
  C32: A fetched file holds the bytes of the response that could be read, over the old content, and the
  fetch succeeds even where an error cut the response short; a failed request leaves every file alone.
\<close>

theorem fetchToFile_stores:
  assumes "sys_path (w_fs w) dst = Inr p" and "fs_lookup (w_fs w) p = Some (File old)"
    and "makeRequest s ''GET'' resource None w = (r, w')"
  shows "fetchToFile s resource dst w =
      (case r of Inl e \<Rightarrow> (Inl e, w')
       | Inr resp \<Rightarrow> (Inr (), w'\<lparr>w_fs := fs_put p (File (overlay (Content (RespBody resp)) old)) (w_fs w)\<rparr>)) \<and>
    w_fs w' = w_fs w"
proof -
  have "w_fs w' = w_fs w" using makeRequest_frame[OF assms(3)] .
  then show ?thesis
    using assms by (cases r)
      (simp_all add: fetchToFile_def on_fs_def os_open_file_def io_copy_stream_def file_write_def go_try_def)
qed

lemma fetchToFile_stores_witness:
  "\<exists>w'. FetchTargetBinary (NewRovingServerClient ''s'') ''/t''
      (flaky_world (sample_fs\<lparr>fs_tree := [([''t''], File [7, 8, 9])]\<rparr>) target_stream) = (Inr (), w') \<and>
    fs_lookup (w_fs w') [''t''] = Some (File [1, 2, 9])"
proof -
  let ?fs = "sample_fs\<lparr>fs_tree := [([''t''], File [7, 8, 9])]\<rparr>"
  obtain w' where run: "makeRequest (NewRovingServerClient ''s'') ''GET'' ''target/binary'' None
      (flaky_world ?fs target_stream) = (Inr \<lparr>StatusCode = 200, RespBody = target_stream\<rparr>, w')"
    using flaky_get by blast
  have "sys_path (w_fs (flaky_world ?fs target_stream)) ''/t'' = Inr [''t'']"
    unfolding flaky_world_def sample_fs_def by code_simp
  moreover have "fs_lookup (w_fs (flaky_world ?fs target_stream)) [''t''] = Some (File [7, 8, 9])"
    unfolding flaky_world_def sample_fs_def by code_simp
  ultimately show ?thesis
    using fetchToFile_stores[OF _ _ run]
    by (simp add: FetchTargetBinary_def fs_lookup_def fs_put_def overlay_def target_stream_def)
qed

end
