(* ===== verification/GoUtf8.thy ===== *)
theory GoUtf8
  imports GoFloat
begin

text \<open>
  UTF-8 as Go's \<open>unicode/utf8\<close> sees it: the length of the first rune of a string, the encoding of a rune,
  and the string with every byte that belongs to no rune replaced by the replacement character, which
  is what passes through \<open>encoding/json\<close>.
\<close>

subsection \<open>Runes\<close>

definition byte_of :: "char \<Rightarrow> int" where
  "byte_of c = of_char c"

definition cont_byte :: "int \<Rightarrow> int \<Rightarrow> char \<Rightarrow> bool" where
  "cont_byte lo hi c \<longleftrightarrow> lo \<le> byte_of c \<and> byte_of c \<le> hi"

text \<open>The number of bytes of the first rune of a string; a byte that starts no rune counts alone.\<close>

definition lead_len :: "int \<Rightarrow> nat" where
  "lead_len b = (if b < 194 then 1 else if b < 224 then 2 else if b < 240 then 3 else if b < 245 then 4 else 1)"

definition conts_ok :: "int \<Rightarrow> string \<Rightarrow> bool" where
  "conts_ok b rest =
     (case rest of
        [] \<Rightarrow> True
      | c # cs \<Rightarrow>
          (if b = 224 then cont_byte 160 191 else if b = 237 then cont_byte 128 159
           else if b = 240 then cont_byte 144 191 else if b = 244 then cont_byte 128 143 else cont_byte 128 191) c \<and>
          list_all (cont_byte 128 191) cs)"

definition rune_len :: "string \<Rightarrow> nat" where
  "rune_len s =
     (case s of
        [] \<Rightarrow> 1
      | a # t \<Rightarrow>
          let n = lead_len (byte_of a); rest = take (n - 1) t
          in if length rest = n - 1 \<and> conts_ok (byte_of a) rest then n else 1)"

lemma lead_len_pos [simp]: "0 < lead_len b"
  by (simp add: lead_len_def)

lemma rune_len_pos: "0 < rune_len s"
  by (simp add: rune_len_def Let_def split: list.split)

definition is_ascii :: "char \<Rightarrow> bool" where
  "is_ascii c \<longleftrightarrow> byte_of c < 128"

text \<open>\<open>utf8.EncodeRune\<close> for a rune below \<open>0x110000\<close> that is no surrogate.\<close>

definition encode_rune :: "int \<Rightarrow> string" where
  "encode_rune r =
     (if r < 0x80 then [char_of r]
      else if r < 0x800 then [char_of (0xC0 + r div 64), char_of (0x80 + r mod 64)]
      else if r < 0x10000 then
        [char_of (0xE0 + r div 4096), char_of (0x80 + r div 64 mod 64), char_of (0x80 + r mod 64)]
      else [char_of (0xF0 + r div 262144), char_of (0x80 + r div 4096 mod 64),
        char_of (0x80 + r div 64 mod 64), char_of (0x80 + r mod 64)])"

definition replacement :: string where
  "replacement = [CHR 0xEF, CHR 0xBF, CHR 0xBD]"

text \<open>The pieces of a string: a rune, or a byte that is none.\<close>

function runes :: "string \<Rightarrow> string list" where
  "runes s = (if s = [] then [] else take (rune_len s) s # runes (drop (rune_len s) s))"
  by pat_completeness auto
termination
  by (relation "measure length") (auto simp: rune_len_pos)

declare runes.simps [simp del]

definition is_rune :: "string \<Rightarrow> bool" where
  "is_rune r \<longleftrightarrow> length r \<noteq> 1 \<or> list_all is_ascii r"

definition utf8_fix :: "string \<Rightarrow> string" where
  "utf8_fix s = concat (map (\<lambda>r. if is_rune r then r else replacement) (runes s))"

definition utf8_ok :: "string \<Rightarrow> bool" where
  "utf8_ok s \<longleftrightarrow> list_all is_rune (runes s)"

subsection \<open>Laws\<close>

lemma runes_Nil [simp]: "runes [] = []"
  by (simp add: runes.simps)

lemma runes_Cons: "runes (c # s) = take (rune_len (c # s)) (c # s) # runes (drop (rune_len (c # s)) (c # s))"
  by (subst runes.simps) simp

lemma rune_len_ascii [simp]: "is_ascii c \<Longrightarrow> rune_len (c # s) = 1"
  by (simp add: rune_len_def is_ascii_def lead_len_def)

lemma runes_ascii [simp]: "is_ascii c \<Longrightarrow> runes (c # s) = [c] # runes s"
  by (simp add: runes_Cons)

lemma rune_len_cases:
  obtains "rune_len (a # t) = 1"
  | n where "rune_len (a # t) = Suc n" "lead_len (byte_of a) = Suc n" "n \<le> length t" "conts_ok (byte_of a) (take n t)"
proof (cases "rune_len (a # t) = 1")
  case False
  then show ?thesis using that(2)[of "lead_len (byte_of a) - 1"] lead_len_pos[of "byte_of a"]
    by (auto simp: rune_len_def Let_def min_def split: if_splits)
qed (rule that(1))

lemma rune_len_le: "s \<noteq> [] \<Longrightarrow> rune_len s \<le> length s"
proof (cases s)
  case (Cons a t)
  then show ?thesis by (cases rule: rune_len_cases[of a t]) simp_all
qed simp

text \<open>A rune of more than one byte is found whatever follows it.\<close>

lemma rune_len_append:
  assumes "rune_len s \<noteq> 1" shows "rune_len (take (rune_len s) s @ t) = rune_len s"
proof (cases s)
  case Nil
  then show ?thesis using assms by (simp add: rune_len_def)
next
  case (Cons a u)
  show ?thesis
  proof (cases rule: rune_len_cases[of a u])
    case (2 n)
    then show ?thesis by (simp add: Cons rune_len_def)
  qed (use assms Cons in simp)
qed

lemma concat_runes [simp]: "concat (runes s) = s"
proof (induction s rule: runes.induct)
  case (1 s)
  then show ?case by (subst runes.simps) simp
qed

lemma utf8_fix_ok: "utf8_ok s \<Longrightarrow> utf8_fix s = s"
proof -
  assume "utf8_ok s"
  then have "map (\<lambda>r. if is_rune r then r else replacement) (runes s) = runes s"
    by (auto simp: utf8_ok_def list_all_iff intro: map_idI)
  then show ?thesis by (simp add: utf8_fix_def)
qed

lemma utf8_ok_ascii: "list_all is_ascii s \<Longrightarrow> utf8_ok s"
  by (induction s) (auto simp: utf8_ok_def is_rune_def)

lemma utf8_fix_Nil [simp]: "utf8_fix [] = []"
  by (simp add: utf8_fix_def)

lemma utf8_fix_Cons:
  "utf8_fix (c # s) =
    (if is_ascii c then c # utf8_fix s
     else if rune_len (c # s) = 1 then replacement @ utf8_fix s
     else take (rune_len (c # s)) (c # s) @ utf8_fix (drop (rune_len (c # s)) (c # s)))"
proof -
  have "length (take (rune_len (c # s)) (c # s)) = rune_len (c # s)"
    using rune_len_le[of "c # s"] by simp
  then show ?thesis by (auto simp: utf8_fix_def runes_Cons is_rune_def)
qed

text \<open>A string that is one rune; texts are UTF-8 when they are made of such.\<close>

lemma byte_of_char_of [simp]: "byte_of (char_of n) = n mod 256" for n :: int
  by (simp add: byte_of_def)

lemma runes_whole:
  assumes "rune_len r = length r" and "r \<noteq> []" and "length r \<noteq> 1 \<or> list_all is_ascii r"
  shows "runes (r @ s) = r # runes s"
proof (cases "length r = 1")
  case True
  then obtain c where "r = [c]" by (cases r) auto
  then show ?thesis using assms(3) by simp
next
  case False
  then have "rune_len (r @ s) = length r" using rune_len_append[of r s] assms(1) by simp
  then show ?thesis using assms(2) by (cases r) (auto simp: runes_Cons)
qed

definition whole_rune :: "string \<Rightarrow> bool" where
  "whole_rune r \<longleftrightarrow> r \<noteq> [] \<and> rune_len r = length r \<and> is_rune r"

lemma utf8_ok_whole: "whole_rune r \<Longrightarrow> utf8_ok (r @ s) = utf8_ok s"
  using runes_whole[of r s] by (simp add: whole_rune_def utf8_ok_def is_rune_def)

lemma whole_ascii: "is_ascii c \<Longrightarrow> whole_rune [c]"
  by (simp add: whole_rune_def is_rune_def)

lemma whole_first:
  assumes "rune_len (c # s) \<noteq> 1" shows "whole_rune (take (rune_len (c # s)) (c # s))"
proof -
  let ?r = "take (rune_len (c # s)) (c # s)"
  have l: "length ?r = rune_len (c # s)" using rune_len_le[of "c # s"] by simp
  then have "rune_len ?r = length ?r" using rune_len_append[OF assms, of "[]"] by simp
  then show ?thesis using l assms rune_len_pos[of "c # s"] by (auto simp: whole_rune_def is_rune_def)
qed

lemma whole_replacement: "whole_rune replacement"
  by code_simp

lemma two_digits: "r div 4096 = a \<Longrightarrow> r div 64 mod 64 = b \<Longrightarrow> r mod 64 = c \<Longrightarrow> r = 4096 * a + 64 * b + c" for r :: int
proof -
  have "x = 64 * y + c \<Longrightarrow> y = 64 * a + b \<Longrightarrow> x = 4096 * a + 64 * b + c" for x y a b c :: int by simp
  moreover have "r div 4096 = r div 64 div 64" using zdiv_zmult2_eq[of 64 r 64] by simp
  ultimately show "r div 4096 = a \<Longrightarrow> r div 64 mod 64 = b \<Longrightarrow> r mod 64 = c \<Longrightarrow> r = 4096 * a + 64 * b + c"
    by (metis mult_div_mod_eq)
qed

lemma three_digits:
  "r div 262144 = a \<Longrightarrow> r div 4096 mod 64 = b \<Longrightarrow> r div 64 mod 64 = c \<Longrightarrow> r mod 64 = d \<Longrightarrow>
    r = 262144 * a + 4096 * b + 64 * c + d" for r :: int
proof -
  have "r div 262144 = r div 4096 div 64" using zdiv_zmult2_eq[of 64 r 4096] by simp
  moreover have "x = 4096 * y + 64 * c + d \<Longrightarrow> y = 64 * a + b \<Longrightarrow> x = 262144 * a + 4096 * b + 64 * c + d" for x y a b c d :: int
    by simp
  ultimately show "r div 262144 = a \<Longrightarrow> r div 4096 mod 64 = b \<Longrightarrow> r div 64 mod 64 = c \<Longrightarrow> r mod 64 = d \<Longrightarrow>
    r = 262144 * a + 4096 * b + 64 * c + d"
    using two_digits[of r "r div 4096" c d] by (metis mult_div_mod_eq)
qed

text \<open>Runes of two, three and four bytes, by their digits to the base 64.\<close>

lemmas rune_shape = whole_rune_def is_rune_def rune_len_def lead_len_def conts_ok_def cont_byte_def

lemma whole_two:
  fixes a b :: int
  assumes "2 \<le> a" and "a < 32" and "0 \<le> b" and "b < 64"
  shows "whole_rune [char_of (192 + a), char_of (128 + b)]"
  using assms by (simp add: rune_shape)

lemma whole_three:
  fixes a b c :: int
  assumes "0 \<le> a" and "a < 16" and "0 \<le> b" and "b < 64" and "0 \<le> c" and "c < 64"
    and "a = 0 \<Longrightarrow> 32 \<le> b" and "a = 13 \<Longrightarrow> b \<le> 31"
  shows "whole_rune [char_of (224 + a), char_of (128 + b), char_of (128 + c)]"
  using assms by (simp add: rune_shape)

lemma whole_four:
  fixes a b c d :: int
  assumes "0 \<le> a" and "a < 5" and "0 \<le> b" and "b < 64" and "0 \<le> c" and "c < 64" and "0 \<le> d" and "d < 64"
    and "a = 0 \<Longrightarrow> 16 \<le> b" and "a = 4 \<Longrightarrow> b \<le> 15"
  shows "whole_rune [char_of (240 + a), char_of (128 + b), char_of (128 + c), char_of (128 + d)]"
  using assms by (simp add: rune_shape)

end
