(* ===== verification/Fuzzer.thy ===== *)
theory Fuzzer
  imports ClientHttp GoUtf8
begin

text \<open>
  One AFL fuzzer of a client (\<open>client/fuzzer.go\<close>) and the task that uploads its state
  (\<open>client/state_uploader.go\<close>). The fuzzer's process is external; its life is the field \<open>proc\<close>.
  \<open>go_defer\<close> is Go's \<open>defer\<close>: the deferred code runs after a return and after a panic, and not when
  the process has been ended by \<open>log.Fatal\<close>.
\<close>

unbundle bit_operations_syntax

subsection \<open>Random numbers\<close>

text \<open>
  \<open>RandInt\<close>: eight bytes of the random source, least significant first; a source that fails ends
  the process.
\<close>

fun little_endian :: "bytes \<Rightarrow> uint64" where
  "little_endian [] = 0"
| "little_endian (b # bs) = ucast b + 256 * little_endian bs"

definition RandInt :: "goerr + bytes \<Rightarrow> uint64 res" where
  "RandInt source =
     (case source of
        Inl _ \<Rightarrow> Inl (Fatal ''binary.Read failed'')
      | Inr bs \<Rightarrow> if length bs < 8 then Inl (Fatal ''binary.Read failed'') else Inr (little_endian (take 8 bs)))"

subsection \<open>Fuzzer ids\<close>

definition hex_char :: "int \<Rightarrow> char" where
  "hex_char d = char_of (if d < 10 then 48 + d else 87 + d)"

text \<open>\<open>fmt.Sprintf("%x", n)\<close> for a number that is not negative.\<close>

function hex_digits :: "int \<Rightarrow> string" where
  "hex_digits n = (if n < 16 then [hex_char n] else hex_digits (n div 16) @ [hex_char (n mod 16)])"
  by pat_completeness auto
termination
  by (relation "measure nat") auto

declare hex_digits.simps [simp del]

text \<open>A character the pattern \<open>[^a-zA-Z0-9_-]\<close> does not match.\<close>

definition valid_id_char :: "char \<Rightarrow> bool" where
  "valid_id_char c \<longleftrightarrow> is_digit c \<or> (97 \<le> byte_of (lower c) \<and> byte_of (lower c) \<le> 122) \<or> c = CHR ''_'' \<or> c = CHR ''-''"

text \<open>\<open>invalidFuzzerNames.ReplaceAllString(s, "_")\<close>.\<close>

function replace_invalid :: "string \<Rightarrow> string" where
  "replace_invalid s =
     (case s of
        [] \<Rightarrow> []
      | c # _ \<Rightarrow> (if valid_id_char c then c else CHR ''_'') # replace_invalid (drop (rune_len s) s))"
  by pat_completeness auto
termination
  by (relation "measure length") (auto simp: rune_len_pos)

declare replace_invalid.simps [simp del]

lemma replace_invalid_simps [simp]:
  "replace_invalid [] = []"
  "replace_invalid (c # s) =
    (if valid_id_char c then c else CHR ''_'') # replace_invalid (drop (rune_len (c # s)) (c # s))"
  by (simp_all add: replace_invalid.simps)

definition mkFuzzerId :: "string \<Rightarrow> uint64 \<Rightarrow> string" where
  "mkFuzzerId hostname random =
     (let validHostname = replace_invalid hostname;
          maxHostnameLen = 27;
          hostname = (if length hostname > maxHostnameLen then take maxHostnameLen hostname else hostname);
          number = random AND 0xffff
      in validHostname @ ''-'' @ hex_digits (uint number))"

subsection \<open>The command line\<close>

record Cmd =
  CmdName :: string
  CmdArgs :: "string list"

definition aflFuzzPath :: "(string \<Rightarrow> string) \<Rightarrow> string" where
  "aflFuzzPath getenv = (let root = getenv ''AFL'' in if root = [] then ''afl-fuzz'' else root @ ''/afl-fuzz'')"

definition aflFuzzCmd ::
  "string \<Rightarrow> string list \<Rightarrow> string \<Rightarrow> string \<Rightarrow> string \<Rightarrow> string \<Rightarrow> int \<Rightarrow> int \<Rightarrow> Cmd" where
  "aflFuzzCmd fid targetCommand outputPath inputPath dictPath aflPath timeoutMs memLimitMb =
     (let cmdFlags = [''-S'', fid, ''-o'', outputPath, ''-i'', inputPath];
          cmdFlags = (if timeoutMs \<noteq> 0 then cmdFlags @ [''-t'', format_int timeoutMs] else cmdFlags);
          cmdFlags = (if memLimitMb \<noteq> 0 then cmdFlags @ [''-m'', format_int memLimitMb] else cmdFlags);
          cmdFlags = (if dictPath \<noteq> [] then cmdFlags @ [''-x'', dictPath] else cmdFlags)
      in \<lparr>CmdName = aflPath, CmdArgs = cmdFlags @ targetCommand\<rparr>)"

record Fuzzer =
  FuzzerId :: string
  FileManager :: AflFileManager
  FuzzCmd :: Cmd

text \<open>\<open>hostname\<close> is what \<open>os.Hostname\<close> returns, \<open>source\<close> the random source.\<close>

definition newAFLFuzzer ::
  "string res \<Rightarrow> goerr + bytes \<Rightarrow> (string \<Rightarrow> string) \<Rightarrow> string list \<Rightarrow> string \<Rightarrow> string \<Rightarrow> int \<Rightarrow> int \<Rightarrow> Fuzzer res" where
  "newAFLFuzzer hostname source getenv targetCommand workdir dictPath timeoutMs memLimitMb =
     (case or_fatal hostname of
        Inl e \<Rightarrow> Inl e
      | Inr name \<Rightarrow> (case RandInt source of
          Inl e \<Rightarrow> Inl e
        | Inr random \<Rightarrow>
            let fid = mkFuzzerId name random;
                m = NewAflFileManagerWithFuzzerId workdir fid
            in Inr \<lparr>FuzzerId = fid, FileManager = m,
                 FuzzCmd = aflFuzzCmd fid targetCommand (OutputDirToPassIntoAfl m) (InputDir m) dictPath
                   (aflFuzzPath getenv) timeoutMs memLimitMb\<rparr>))"

subsection \<open>The fuzzer's process\<close>

datatype proc = NotStarted | Running | Paused | Exited

record ('s3, 'n) fuzz_world = "('s3, 'n) client_world" +
  proc :: proc
  started :: bool

type_synonym ('s3, 'n, 'z, 'a) fgo = "(('s3, 'n, 'z) fuzz_world_scheme, 'a) go"

text \<open>
  \<open>f.cmd.Process.Signal\<close>, whose error the code drops: there is no process before the command has
  started, and signalling one that has exited does nothing.
\<close>

definition send_signal :: "signal \<Rightarrow> ('s3, 'n, 'z, unit) fgo" where
  "send_signal sig w =
     (case proc w of
        NotStarted \<Rightarrow> (Inl nil_deref, w)
      | Exited \<Rightarrow> (Inr (), w)
      | _ \<Rightarrow> (Inr (), w\<lparr>proc := (case sig of SIGSTOP \<Rightarrow> Paused | SIGCONT \<Rightarrow> Running),
               c_log := c_log w @ [Signalled sig]\<rparr>))"

definition stop :: "('s3, 'n, 'z, unit) fgo" where
  "stop = send_signal SIGSTOP"

definition start_fuzzer :: "('s3, 'n, 'z, unit) fgo" where
  "start_fuzzer = send_signal SIGCONT"

text \<open>
  \<open>run\<close>, up to where it waits for the command: \<open>cwd\<close> is what \<open>os.Getwd\<close> returns, and \<open>start_err\<close>
  what setting up the pipes and starting the command returns.
\<close>

definition run_fuzzer :: "string res \<Rightarrow> goerr option \<Rightarrow> ('s3, 'n, 'z, unit) fgo" where
  "run_fuzzer cwd start_err w =
     (case cwd of
        Inl _ \<Rightarrow> (Inl (Fatal ''Couldn't get cwd''), w)
      | Inr _ \<Rightarrow> (case start_err of
          Some _ \<Rightarrow> (Inl (Fatal ''Couldn't start fuzzer''), w)
        | None \<Rightarrow> (Inr (), w\<lparr>proc := Running, started := True\<rparr>)))"

definition hasBegunFuzzing :: "Fuzzer \<Rightarrow> fs \<Rightarrow> bool" where
  "hasBegunFuzzing f fs =
     (case fs_stat fs (FuzzerStatsPath (FileManager f)) of Inl (Err e) \<Rightarrow> \<not> is_not_exist e | _ \<Rightarrow> True)"

definition ReadState :: "Fuzzer \<Rightarrow> (fs, State) go" where
  "ReadState f =
     go_try (ReadOutput (FileManager f)) (\<lambda>aflOutput.
       go_try (ReadFuzzerStats (FileManager f)) (\<lambda>stats.
         go_ret \<lparr>Id = FuzzerId f, Stats = stats, Output = aflOutput\<rparr>))"

subsection \<open>Uploading the state\<close>

definition go_defer :: "('s, 'a) go \<Rightarrow> ('s, unit) go \<Rightarrow> ('s, 'a) go" where
  "go_defer m d s =
     (case m s of
        (Inl (Fatal e), s') \<Rightarrow> (Inl (Fatal e), s')
      | (r, s') \<Rightarrow> (case d s' of (Inl e, s'') \<Rightarrow> (Inl e, s'') | (Inr _, s'') \<Rightarrow> (r, s'')))"

text \<open>\<open>float64(ns) / float64(time.Second)\<close>, for a time that is not negative.\<close>

definition secs_of_ns :: "int \<Rightarrow> float64" where
  "secs_of_ns ns =
     (let b = round_bits 53 1023 ns 1; ex = b div 2 ^ 52; fr = b mod 2 ^ 52;
          m = (if ex = 0 then fr else fr + 2 ^ 52); e = (if ex = 0 then - 1074 else ex - 1075)
      in f64_sign False (round_bits 53 1023 (m * 2 ^ nat e) (2 ^ nat (- e) * 1000000000)))"

definition metricTags :: "Fuzzer \<Rightarrow> tags" where
  "metricTags f = [(''fuzzer_id'', FuzzerId f)]"

text \<open>The body of \<open>uploadState\<close> between \<open>stop\<close> and the deferred calls.\<close>

definition upload_body ::
  "(State \<Rightarrow> goerr + bytes) \<Rightarrow> RovingServerClient \<Rightarrow> Fuzzer \<Rightarrow> ('s3, 'n, 'z, unit) fgo" where
  "upload_body marshal srv f w =
     (case on_fs (ReadState f) w of
        (Inl (Err e), w1) \<Rightarrow> SubmitMetricCount ''state_uploader.upload_state.fail'' (f32_of_uint 1) (metricTags f) w1
      | (Inl e, w1) \<Rightarrow> (Inl e, w1)
      | (Inr state, w1) \<Rightarrow> (case UploadState marshal srv state w1 of
          (Inl (Err e), w2) \<Rightarrow> SubmitMetricCount ''state_uploader.upload_state.fail'' (f32_of_uint 1) (metricTags f) w2
        | (Inl e, w2) \<Rightarrow> (Inl e, w2)
        | (Inr _, w2) \<Rightarrow> SubmitMetricCount ''state_uploader.upload_state.success'' (f32_of_uint 1) (metricTags f) w2))"

text \<open>\<open>elapsed\<close> is the time in nanoseconds from \<open>stop\<close> to the deferred report.\<close>

definition uploadState ::
  "(State \<Rightarrow> goerr + bytes) \<Rightarrow> RovingServerClient \<Rightarrow> int \<Rightarrow> Fuzzer \<Rightarrow> ('s3, 'n, 'z, unit) fgo" where
  "uploadState marshal srv elapsed f =
     go_then stop
       (go_defer
         (go_defer (upload_body marshal srv f)
           (SubmitMetricGauge ''state_uploader.upload_state.time_paused_s'' (f32_of_f64 (secs_of_ns elapsed)) (metricTags f)))
         start_fuzzer)"

text \<open>
  The first loop of the uploader's \<open>run\<close>, for as many rounds as the environment acts: what
  the fuzzer, and everything else, does during the round's sleep is the element of \<open>envs\<close>. The result says
  whether the first upload has been made.
\<close>

primrec first_upload ::
  "('s3, 'n, 'z, unit) fgo \<Rightarrow> Fuzzer \<Rightarrow> (('s3, 'n, 'z) fuzz_world_scheme \<Rightarrow> ('s3, 'n, 'z) fuzz_world_scheme) list \<Rightarrow> ('s3, 'n, 'z, bool) fgo" where
  "first_upload upload f [] w = (Inr False, w)"
| "first_upload upload f (env # envs) w =
     (if started w \<and> hasBegunFuzzing f (w_fs w) then go_then upload (go_ret True) w
      else first_upload upload f envs (env (sleep (5 * 1000000000) w)))"

text \<open>The second loop: one upload at each tick, after what the environment did before it.\<close>

definition upload_ticks ::
  "('s3, 'n, 'z, unit) fgo \<Rightarrow> (('s3, 'n, 'z) fuzz_world_scheme \<Rightarrow> ('s3, 'n, 'z) fuzz_world_scheme) list \<Rightarrow> ('s3, 'n, 'z, unit) fgo" where
  "upload_ticks upload = each (\<lambda>env w. upload (env w))"

subsection \<open>Lemmas on ids\<close>

lemma hex_digits_chars:
  assumes "0 \<le> n" shows "list_all valid_id_char (hex_digits n)"
  using assms
proof (induction n rule: hex_digits.induct)
  case (1 n)
  have c: "valid_id_char (hex_char d)" if "0 \<le> d" "d < 16" for d
  proof -
    have "d \<in> set (upto 0 15)" using that by simp
    moreover have "list_all (\<lambda>d. valid_id_char (hex_char d)) (upto 0 15)" by code_simp
    ultimately show ?thesis by (auto simp: list_all_iff)
  qed
  show ?case using 1 c[of n] c[of "n mod 16"] by (subst hex_digits.simps) (cases "n < 16", auto)
qed

lemma hex_digits_len:
  assumes "0 \<le> n" and "n < 16 ^ Suc k" shows "1 \<le> length (hex_digits n) \<and> length (hex_digits n) \<le> Suc k"
  using assms
proof (induction k arbitrary: n)
  case 0
  then show ?case by (simp add: hex_digits.simps[of n])
next
  case (Suc k)
  have "n < 16 * p \<Longrightarrow> n div 16 < p" for p :: int by presburger
  then have "n div 16 < 16 ^ Suc k" using Suc.prems by simp
  then show ?case using Suc.IH[of "n div 16"] Suc.prems(1) by (subst (1 2) hex_digits.simps) auto
qed

lemma mask16: "uint (r AND 0xffff :: uint64) = uint r mod 65536"
proof -
  have "uint (r AND 0xffff :: uint64) = uint r AND mask 16" by (simp add: unsigned_and_eq mask_eq_exp_minus_1)
  then show ?thesis by (simp only: flip: take_bit_eq_mask) (simp add: take_bit_eq_mod)
qed

lemma replace_invalid_chars: "list_all valid_id_char (replace_invalid s)"
proof (induction s rule: replace_invalid.induct)
  case (1 s)
  have "valid_id_char (CHR ''_'')" by (simp add: valid_id_char_def)
  then show ?case using 1 by (cases s) simp_all
qed

lemma replace_invalid_ascii:
  "list_all (\<lambda>c. byte_of c < 128) s \<Longrightarrow>
   replace_invalid s = map (\<lambda>c. if valid_id_char c then c else CHR ''_'') s"
proof (induction s)
  case Nil
  then show ?case by simp
next
  case (Cons c s)
  then have "rune_len (c # s) = 1" by (simp add: is_ascii_def)
  then show ?case using Cons by simp
qed

lemma valid_id_char_name: "list_all valid_id_char s \<Longrightarrow> slash \<notin> set s \<and> CHR 0x00 \<notin> set s \<and> CHR ''.'' \<notin> set s"
  by (auto simp: list_all_iff valid_id_char_def is_digit_def byte_of_def lower_def)

lemma mkFuzzerId_chars: "list_all valid_id_char (mkFuzzerId h r)"
  by (simp add: mkFuzzerId_def Let_def replace_invalid_chars hex_digits_chars)
    (simp add: valid_id_char_def)

subsection \<open>Properties of ids and command lines\<close>

text \<open>
  Whatever the host is called, a fuzzer id consists of characters AFL accepts, and names a
  directory entry: it has no slash, and it is neither empty nor dot nor dot-dot.
\<close>

theorem mkFuzzerId_safe: "list_all valid_id_char (mkFuzzerId h r) \<and> valid_name (mkFuzzerId h r)"
proof -
  have "CHR ''-'' \<in> set (mkFuzzerId h r)" by (simp add: mkFuzzerId_def Let_def)
  then show ?thesis
    using mkFuzzerId_chars[of h r] valid_id_char_name[OF mkFuzzerId_chars[of h r]]
    by (auto simp: valid_name_def)
qed

text \<open>
  For an ASCII host name the id is the whole name, with underscores, then a minus and one to four
  hex digits: the host name is not cut to 27 characters, so an id can be longer than the 32 AFL takes.
\<close>

theorem mkFuzzerId_ascii:
  assumes "list_all (\<lambda>c. byte_of c < 128) h"
  shows "mkFuzzerId h r =
      map (\<lambda>c. if valid_id_char c then c else CHR ''_'') h @ ''-'' @ hex_digits (uint r mod 65536) \<and>
    length h + 2 \<le> length (mkFuzzerId h r) \<and> length (mkFuzzerId h r) \<le> length h + 5"
proof -
  have eq: "mkFuzzerId h r =
      map (\<lambda>c. if valid_id_char c then c else CHR ''_'') h @ ''-'' @ hex_digits (uint r mod 65536)"
    using replace_invalid_ascii[OF assms] by (simp add: mkFuzzerId_def Let_def mask16)
  have "1 \<le> length (hex_digits (uint r mod 65536)) \<and> length (hex_digits (uint r mod 65536)) \<le> Suc 3"
    by (rule hex_digits_len) simp_all
  then show ?thesis unfolding eq by simp
qed

lemma mkFuzzerId_ascii_witness:
  "length (mkFuzzerId ''a-very-long-host-name-in.example.com'' 7) = 38 \<and>
   mkFuzzerId ''ab.c'' 0x1234f = ''ab_c-234f''"
proof -
  have a: "list_all (\<lambda>c. byte_of c < 128) ''a-very-long-host-name-in.example.com''"
    "list_all (\<lambda>c. byte_of c < 128) ''ab.c''" by code_simp+
  show ?thesis
    unfolding mkFuzzerId_ascii[OF a(1), THEN conjunct1] mkFuzzerId_ascii[OF a(2), THEN conjunct1]
    by code_simp
qed

text \<open>
  How AFL reads its options: a word of a minus and a letter takes the next word as its value; the
  first other word begins the target command.
\<close>

fun afl_opts :: "string list \<Rightarrow> (char \<times> string) list \<times> string list" where
  "afl_opts (a # v # rest) =
     (if length a = 2 \<and> hd a = CHR ''-'' then (case afl_opts rest of (os, r) \<Rightarrow> ((last a, v) # os, r))
      else ([], a # v # rest))"
| "afl_opts ws = ([], ws)"

lemma afl_opts_command:
  "(case ws of [] \<Rightarrow> True | w # _ \<Rightarrow> w = [] \<or> hd w \<noteq> CHR ''-'') \<Longrightarrow> afl_opts ws = ([], ws)"
  by (cases ws rule: afl_opts.cases) auto

text \<open>
  AFL reads from the command line the fuzzer's id, the directories, the limits that are not zero
  and the dictionary if there is one, each once, and the target command unchanged, when its first word
  does not begin with a minus.
\<close>

theorem aflFuzzCmd_parsed:
  assumes "case targetCommand of [] \<Rightarrow> True | c # _ \<Rightarrow> c = [] \<or> hd c \<noteq> CHR ''-''"
  shows "afl_opts (CmdArgs (aflFuzzCmd fid targetCommand out inp dict afl t m)) =
    ([(CHR ''S'', fid), (CHR ''o'', out), (CHR ''i'', inp)] @
     (if t = 0 then [] else [(CHR ''t'', format_int t)]) @
     (if m = 0 then [] else [(CHR ''m'', format_int m)]) @
     (if dict = [] then [] else [(CHR ''x'', dict)]), targetCommand)"
  by (simp add: aflFuzzCmd_def Let_def afl_opts_command[OF assms])

lemma aflFuzzCmd_parsed_witness:
  "afl_opts (CmdArgs (aflFuzzCmd ''h-1'' [''./target'', ''-n''] ''/w/output'' ''/w/input'' [] ''afl-fuzz'' 250 0)) =
    ([(CHR ''S'', ''h-1''), (CHR ''o'', ''/w/output''), (CHR ''i'', ''/w/input''), (CHR ''t'', format_int 250)],
     [''./target'', ''-n''])"
  by (subst aflFuzzCmd_parsed) simp_all

subsection \<open>Uploading leaves the fuzzer running\<close>

lemma errs_ReadOutput: "errs (ReadOutput m)"
proof -
  have r: "errs (readInput x)" for x
    by (auto simp: errs_def readInput_def split: sum.splits dest: fs_read_file_Inl)
  have e: "errs (read_entries d c fis)" for d c fis
    by (induction fis arbitrary: c) (auto intro!: errs_ret errs_try errs_stat r)
  have "errs (ReadInputCorpus d)" for d
    using e by (auto simp: errs_def ReadInputCorpus_def split: sum.splits dest: fs_read_dir_Inl)
  then show ?thesis unfolding ReadOutput_def ReadQueue_def ReadCrashes_def ReadHangs_def
    by (intro errs_try errs_ret)
qed

lemma ParseStats_not_fatal: "ParseStats s \<noteq> Inl (Fatal e)"
  by (auto simp: ParseStats_eq_ref' ParseStats_ref_def Let_def line_fault_def invalid_value_def split: option.split)

text \<open>Reading the state leaves the files alone, and does not end the process.\<close>

lemma ReadState_frame:
  assumes "ReadState f fs = (r, fs')" shows "fs' = fs \<and> r \<noteq> Inl (Fatal e)"
proof -
  have "reads (ReadFuzzerStats m)" for m
    by (auto simp: within_def ReadFuzzerStats_def split: sum.split)
  then have "reads (ReadState f)" unfolding ReadState_def
    by (intro within_try within_ret reads_ReadOutput eq_preorder)
  moreover have "r \<noteq> Inl (Fatal e)"
  proof
    assume fatal: "r = Inl (Fatal e)"
    obtain x t where o: "ReadOutput (FileManager f) fs = (x, t)" by (cases "ReadOutput (FileManager f) fs")
    show False
      using assms fatal o errsD[OF errs_ReadOutput, of "FileManager f" fs] ParseStats_not_fatal
        fs_read_file_Inl[of t "FuzzerStatsPath (FileManager f)"]
      by (cases x) (auto simp: ReadState_def go_try_def ReadFuzzerStats_def split: sum.splits prod.splits)
  qed
  ultimately show ?thesis using withinD[where m = "ReadState f", OF _ assms] by blast
qed

text \<open>A statistics file whose first bad line has no colon; nothing else makes reading the state panic.\<close>

definition stats_torn :: "Fuzzer \<Rightarrow> fs \<Rightarrow> bool" where
  "stats_torn f fs = (case fs_read_file fs (FuzzerStatsPath (FileManager f)) of
     Inl e \<Rightarrow> False
   | Inr buf \<Rightarrow> (case first_bad (split_on (CHR ''\<newline>'') (string_of_bytes buf)) of
       None \<Rightarrow> False
     | Some l \<Rightarrow> CHR '':'' \<notin> set l))"

lemma ReadState_panics:
  assumes "ReadState f fs = (Inl (Panic m), fs')" shows "stats_torn f fs"
proof -
  obtain x t where o: "ReadOutput (FileManager f) fs = (x, t)" by (cases "ReadOutput (FileManager f) fs")
  then have t: "t = fs" using withinD[OF reads_ReadOutput o] by simp
  obtain out where x: "x = Inr out"
    using assms o errsD[OF errs_ReadOutput, of "FileManager f" fs] by (cases x) (auto simp: ReadState_def go_try_def)
  obtain buf where buf: "fs_read_file fs (FuzzerStatsPath (FileManager f)) = Inr buf" "ParseStats (string_of_bytes buf) = Inl (Panic m)"
    using assms o fs_read_file_Inl[of fs "FuzzerStatsPath (FileManager f)"] unfolding x t
    by (auto simp: ReadState_def go_try_def ReadFuzzerStats_def split: sum.splits)
  then show ?thesis using ParseStats_panics_iff[of "string_of_bytes buf"] by (auto simp: stats_torn_def)
qed

definition upload_event :: "('s3, 'z) world_scheme \<Rightarrow> Fuzzer \<Rightarrow> bool \<Rightarrow> event" where
  "upload_event w f ok =
     metric_event w Counter (if ok then ''state_uploader.upload_state.success'' else ''state_uploader.upload_state.fail'')
       (f32_of_uint 1) (metricTags f)"

definition paused_event :: "('s3, 'z) world_scheme \<Rightarrow> Fuzzer \<Rightarrow> int \<Rightarrow> event" where
  "paused_event w f elapsed =
     metric_event w Gauge ''state_uploader.upload_state.time_paused_s'' (f32_of_f64 (secs_of_ns elapsed)) (metricTags f)"

lemma metric_event_net [simp]:
  "metric_event (w\<lparr>net := n, c_log := l\<rparr>) = metric_event w" "metric_event (w\<lparr>net := n, c_log := l, w_events := es\<rparr>) = metric_event w"
  by (simp_all add: metric_event_def fun_eq_iff)

text \<open>What one upload does between the two signals.\<close>

lemma upload_body_effect:
  fixes w :: "('s3, 'n, 'z) fuzz_world_scheme"
  assumes "upload_body marshal srv f w = (r, w')"
  shows "\<exists>n acts es. w' = w\<lparr>net := n, c_log := c_log w @ acts, w_events := w_events w @ es\<rparr> \<and> signals acts = [] \<and>
    ((\<exists>m. r = Inl (Panic m) \<and> fst (ReadState f (w_fs w)) = Inl (Panic m)) \<and> es = [] \<or> r = Inr () \<and> (\<exists>ok. es = [upload_event w f ok]))"
proof -
  obtain x fs' where x: "ReadState f (w_fs w) = (x, fs')" by (cases "ReadState f (w_fs w)")
  have fs: "on_fs (ReadState f) w = (x, w)" "\<And>e. x \<noteq> Inl (Fatal e)"
    using ReadState_frame[OF x] x by (auto simp: on_fs_def)
  show ?thesis
  proof (cases x)
    case (Inl e)
    show ?thesis
    proof (cases e)
      case (Err g)
      then have "upload_body marshal srv f w = (Inr (), w\<lparr>w_events := w_events w @ [upload_event w f False]\<rparr>)"
        using fs(1) Inl by (simp add: upload_body_def Submit_ok upload_event_def)
      then show ?thesis using assms
        by (intro exI[of _ "net w"] exI[of _ "[]"] exI[of _ "[upload_event w f False]"]) auto
    next
      case (Fatal m)
      then have False using fs(2) Inl by blast
      then show ?thesis ..
    next
      case (Panic m)
      then have "upload_body marshal srv f w = (Inl (Panic m), w)" using fs(1) Inl by (simp add: upload_body_def)
      then show ?thesis using assms x Inl Panic by (intro exI[of _ "net w"] exI[of _ "[]"]) auto
    qed
  next
    case (Inr state)
    obtain y w1 where y: "UploadState marshal srv state w = (y, w1)" by (cases "UploadState marshal srv state w")
    have "talks w w1" using withinD[OF Fetch_talks(5) y] .
    then obtain n acts where t: "w1 = w\<lparr>net := n, c_log := c_log w @ acts\<rparr>" "signals acts = []"
      unfolding talks_def by blast
    have ev: "upload_event w1 f ok = upload_event w f ok" for ok by (simp add: upload_event_def t(1))
    have "\<exists>ok. upload_body marshal srv f w = (Inr (), w1\<lparr>w_events := w_events w1 @ [upload_event w1 f ok]\<rparr>)"
    proof (cases y)
      case (Inl e)
      then obtain g where "e = Err g" using errsD[OF errs_Fetch(2)] y by blast
      then show ?thesis using fs(1) Inr y Inl
        by (intro exI[of _ False]) (simp add: upload_body_def Submit_ok upload_event_def)
    next
      case (Inr u)
      then show ?thesis using fs(1) \<open>x = Inr state\<close> y
        by (intro exI[of _ True]) (simp add: upload_body_def Submit_ok upload_event_def)
    qed
    then obtain ok where "r = Inr ()" and w': "w' = w1\<lparr>w_events := w_events w1 @ [upload_event w f ok]\<rparr>"
      using assms ev by auto
    moreover have "w' = w\<lparr>net := n, c_log := c_log w @ acts, w_events := w_events w @ [upload_event w f ok]\<rparr>"
      unfolding w' t(1) by simp
    ultimately show ?thesis using t(2) by blast
  qed
qed

text \<open>The world while the fuzzer is stopped for an upload.\<close>

definition paused :: "('s3, 'n, 'z) fuzz_world_scheme \<Rightarrow> ('s3, 'n, 'z) fuzz_world_scheme" where
  "paused w = w\<lparr>proc := Paused, c_log := c_log w @ [Signalled SIGSTOP]\<rparr>"

lemma metric_event_paused [simp]: "metric_event (paused w) = metric_event w"
  by (simp add: fun_eq_iff metric_event_def paused_def)

lemma uploadState_body:
  fixes w :: "('s3, 'n, 'z) fuzz_world_scheme"
  assumes "proc w \<in> {Running, Paused}" and "upload_body marshal srv f (paused w) = (x, w2)"
  shows "uploadState marshal srv elapsed f w = (x, w2\<lparr>w_events := w_events w2 @ [paused_event w f elapsed],
    proc := Running, c_log := c_log w2 @ [Signalled SIGCONT]\<rparr>)"
proof -
  have st: "stop w = (Inr (), paused w)" using assms(1) by (auto simp: paused_def stop_def send_signal_def)
  obtain n acts es where w2: "w2 = (paused w)\<lparr>net := n, c_log := c_log (paused w) @ acts, w_events := w_events (paused w) @ es\<rparr>"
    "(\<exists>m. x = Inl (Panic m)) \<or> x = Inr ()"
    using upload_body_effect[OF assms(2)] by auto
  have pe: "paused_event w2 f elapsed = paused_event w f elapsed" and p: "proc w2 = Paused"
    by (simp_all add: paused_event_def metric_event_def w2(1) paused_def)
  let ?w3 = "w2\<lparr>w_events := w_events w2 @ [paused_event w f elapsed]\<rparr>"
  have "go_defer (upload_body marshal srv f)
      (SubmitMetricGauge ''state_uploader.upload_state.time_paused_s'' (f32_of_f64 (secs_of_ns elapsed)) (metricTags f))
      (paused w) = (x, ?w3)"
    using w2(2) assms(2) pe by (auto simp: go_defer_def Submit_ok paused_event_def)
  moreover have "start_fuzzer ?w3 = (Inr (), ?w3\<lparr>proc := Running, c_log := c_log ?w3 @ [Signalled SIGCONT]\<rparr>)"
    by (simp add: start_fuzzer_def send_signal_def p)
  ultimately show ?thesis using w2(2) st by (auto simp: uploadState_def go_defer_def)
qed

text \<open>A whole upload; only a panic while the state is read makes it fail.\<close>

lemma uploadState_effect:
  fixes w :: "('s3, 'n, 'z) fuzz_world_scheme"
  assumes "proc w \<in> {Running, Paused}" and "uploadState marshal srv elapsed f w = (r, w')"
  shows "proc w' = Running \<and> signals (c_log w') = signals (c_log w) @ [SIGSTOP, SIGCONT] \<and> w_fs w' = w_fs w \<and>
    ((\<exists>m. r = Inl (Panic m) \<and> fst (ReadState f (w_fs w)) = Inl (Panic m)) \<and> w_events w' = w_events w @ [paused_event w f elapsed] \<or>
     r = Inr () \<and> (\<exists>ok. w_events w' = w_events w @ [upload_event w f ok, paused_event w f elapsed]))"
proof -
  obtain x w2 where b: "upload_body marshal srv f (paused w) = (x, w2)" by fastforce
  obtain n acts es where w2: "w2 = (paused w)\<lparr>net := n, c_log := c_log (paused w) @ acts, w_events := w_events (paused w) @ es\<rparr>"
    "signals acts = []" "(\<exists>m. x = Inl (Panic m) \<and> fst (ReadState f (w_fs w)) = Inl (Panic m)) \<and> es = [] \<or>
      x = Inr () \<and> (\<exists>ok. es = [upload_event (paused w) f ok])"
    using upload_body_effect[OF b] by (auto simp: paused_def)
  have ev: "upload_event (paused w) f ok = upload_event w f ok" for ok
    by (simp add: upload_event_def metric_event_def paused_def)
  have "r = x" and w': "w' = w2\<lparr>w_events := w_events w2 @ [paused_event w f elapsed], proc := Running,
      c_log := c_log w2 @ [Signalled SIGCONT]\<rparr>"
    using assms(2) uploadState_body[OF assms(1) b, of elapsed] by simp_all
  then show ?thesis using w2(2,3) ev unfolding w2(1) by (auto simp: paused_def)
qed

text \<open>
  C8: Whatever happens while the state is read and uploaded, the fuzzer's process, stopped before, is running again
  afterwards: exactly one stop and one continue signal are sent, no file is changed, and the pause is reported last.
  Between the two: a state that cannot be read (a missing directory, an unreadable or
  malformed statistics file) counts as a failure, without talking to the server; a state that
  is read is uploaded, with the fuzzer stopped, and counts as a success when the upload succeeds and as a failure when it
  gives an error. The call then returns; only a torn statistics file, which makes the parser panic,
  is not counted and passes the panic on.
\<close>

theorem uploadState_resumes:
  fixes w :: "('s3, 'n, 'z) fuzz_world_scheme"
  assumes "proc w \<in> {Running, Paused}" and "uploadState marshal srv elapsed f w = (r, w')"
  shows "proc w' = Running \<and> signals (c_log w') = signals (c_log w) @ [SIGSTOP, SIGCONT] \<and> w_fs w' = w_fs w \<and>
    (case fst (ReadState f (w_fs w)) of
       Inr state \<Rightarrow> r = Inr () \<and> net w' = net (snd (UploadState marshal srv state (paused w))) \<and>
         w_events w' = w_events w @
           [upload_event w f (fst (UploadState marshal srv state (paused w)) = Inr ()), paused_event w f elapsed]
     | Inl (Err e) \<Rightarrow> r = Inr () \<and> net w' = net w \<and>
         w_events w' = w_events w @ [upload_event w f False, paused_event w f elapsed]
     | Inl x \<Rightarrow> stats_torn f (w_fs w) \<and> r = Inl x \<and> net w' = net w \<and> w_events w' = w_events w @ [paused_event w f elapsed])"
proof -
  let ?p = "paused w"
  have p: "w_fs ?p = w_fs w" "net ?p = net w" "w_events ?p = w_events w" by (simp_all add: paused_def)
  have ev: "upload_event ?p f ok = upload_event w f ok" for ok by (simp add: upload_event_def metric_event_def paused_def)
  obtain x fs' where x: "ReadState f (w_fs w) = (x, fs')" by fastforce
  have rd: "on_fs (ReadState f) ?p = (x, ?p)" "\<And>e. x \<noteq> Inl (Fatal e)"
    using ReadState_frame[OF x] x p(1) by (auto simp: on_fs_def paused_def)
  obtain b w2 where b: "upload_body marshal srv f ?p = (b, w2)" by fastforce
  have "case x of
       Inr state \<Rightarrow> b = Inr () \<and> net w2 = net (snd (UploadState marshal srv state ?p)) \<and>
         w_events w2 = w_events w @ [upload_event w f (fst (UploadState marshal srv state ?p) = Inr ())]
     | Inl (Err e) \<Rightarrow> b = Inr () \<and> net w2 = net w \<and> w_events w2 = w_events w @ [upload_event w f False]
     | Inl y \<Rightarrow> stats_torn f (w_fs w) \<and> b = Inl y \<and> net w2 = net w \<and> w_events w2 = w_events w"
  proof (cases x)
    case (Inl e)
    show ?thesis
    proof (cases e)
      case (Panic m)
      then show ?thesis using b rd(1) p Inl ReadState_panics[of f "w_fs w" m fs'] x by (auto simp: upload_body_def)
    qed (use b rd p Inl ev in \<open>auto simp: upload_body_def Submit_ok upload_event_def\<close>)
  next
    case (Inr state)
    obtain y w1 where y: "UploadState marshal srv state ?p = (y, w1)" by fastforce
    have "talks ?p w1" using withinD[OF Fetch_talks(5) y] .
    then obtain n acts where t: "w1 = ?p\<lparr>net := n, c_log := c_log ?p @ acts\<rparr>" unfolding talks_def by blast
    have ev1: "upload_event w1 f ok = upload_event w f ok" for ok by (simp add: upload_event_def metric_event_def t paused_def)
    have "y = Inr () \<or> (\<exists>g. y = Inl (Err g))" using errsD[OF errs_Fetch(2)] y by (cases y) auto
    then have "b = Inr () \<and> w2 = w1\<lparr>w_events := w_events w1 @ [upload_event w1 f (y = Inr ())]\<rparr>"
      using b rd(1) Inr y by (auto simp: upload_body_def Submit_ok upload_event_def)
    then show ?thesis using Inr y ev1 p(3) t by simp
  qed
  moreover have "r = b" "net w' = net w2" "w_events w' = w_events w2 @ [paused_event w f elapsed]"
    using assms(2) uploadState_body[OF assms(1) b, of elapsed] by auto
  ultimately show ?thesis
    using uploadState_effect[OF assms] x by (auto split: sum.splits fault.splits)
qed

definition sample_aflfuzzer :: Fuzzer where
  "sample_aflfuzzer = \<lparr>FuzzerId = ''h-1'', FileManager = NewAflFileManagerWithFuzzerId ''/w'' ''h-1'',
     FuzzCmd = \<lparr>CmdName = ''afl-fuzz'', CmdArgs = []\<rparr>\<rparr>"

definition fuzzing :: "fs \<Rightarrow> (unit, nat) fuzz_world" where
  "fuzzing fs = client_world.extend (flaky_world fs target_stream) \<lparr>proc = Running, started = True\<rparr>"

lemma uploadState_resumes_witness:
  "\<exists>r w'. uploadState (\<lambda>_. Inr []) (NewRovingServerClient ''s'') 5 sample_aflfuzzer (fuzzing sample_fs) = (r, w') \<and>
    proc w' = Running \<and> signals (c_log w') = [SIGSTOP, SIGCONT]"
proof -
  obtain r w' where run: "uploadState (\<lambda>_. Inr []) (NewRovingServerClient ''s'') 5 sample_aflfuzzer (fuzzing sample_fs) = (r, w')"
    by (cases "uploadState (\<lambda>_. Inr []) (NewRovingServerClient ''s'') 5 sample_aflfuzzer (fuzzing sample_fs)")
  have "proc (fuzzing sample_fs) \<in> {Running, Paused}" "c_log (fuzzing sample_fs) = []"
    by (simp_all add: fuzzing_def flaky_world_def client_world.defs)
  then show ?thesis using uploadState_resumes[OF _ run] run by auto
qed

end
