(* ===== verification/ClientMain.thy ===== *)
theory ClientMain
  imports Fuzzer
begin

text \<open>
  The client program (\<open>client/client.go\<close>, \<open>client/queue_downloader.go\<close>): downloading the queues of the
  cluster, preparing and running one fuzzer, and setting up a fleet of them. The JSON codec is an argument,
  \<open>codec\<close>. What happens while a fuzzer runs (AFL's work, and the uploads of its task) is an argument of
  \<open>RunFuzzerForever\<close>; the goroutines \<open>SetupAndRun\<close> starts are the list \<open>c_tasks\<close>.
\<close>

record codec =
  DecodeConfig :: "stream \<Rightarrow> FuzzerConfig \<Rightarrow> FuzzerConfig"
  DecodeInputs :: "stream \<Rightarrow> InputCorpus option \<Rightarrow> InputCorpus option"
  DecodeQueues :: "stream \<Rightarrow> queues \<Rightarrow> queues"
  Marshal :: "State \<Rightarrow> goerr + bytes"

subsection \<open>The queue downloader\<close>

definition download_fail :: "('s3, 'z, unit) wgo" where
  "download_fail = SubmitMetricCount ''queue_downloader.download_queue.fail'' (f32_of_uint 1) []"

definition downloadQueues :: "codec \<Rightarrow> RovingServerClient \<Rightarrow> FleetFileManager \<Rightarrow> ('s3, 'n, 'z, unit) cgo" where
  "downloadQueues c srv fm w =
     (case FetchQueues (DecodeQueues c) srv w of
        (Inl (Err e), w1) \<Rightarrow> download_fail w1
      | (Inl e, w1) \<Rightarrow> (Inl e, w1)
      | (Inr queues, w1) \<Rightarrow> (case on_fs (WriteQueues fm queues) w1 of
          (Inl (Err e), w2) \<Rightarrow> download_fail w2
        | (Inl e, w2) \<Rightarrow> (Inl e, w2)
        | (Inr _, w2) \<Rightarrow> SubmitMetricCount ''queue_downloader.download_queue.success'' (f32_of_uint 1) [] w2))"

text \<open>The ticks of \<open>run\<close>; \<open>env\<close> is what the rest of the machine does before a tick.\<close>

definition download_ticks ::
  "codec \<Rightarrow> RovingServerClient \<Rightarrow> FleetFileManager \<Rightarrow>
   (('s3, 'n, 'z) client_world_scheme \<Rightarrow> ('s3, 'n, 'z) client_world_scheme) list \<Rightarrow> ('s3, 'n, 'z, unit) cgo" where
  "download_ticks c srv fm = each (\<lambda>env w. downloadQueues c srv fm (env w))"

subsection \<open>One fuzzer\<close>

text \<open>\<open>RunFuzzerForever\<close> up to where it starts the fuzzer.\<close>

definition prepare_fuzzer :: "codec \<Rightarrow> RovingServerClient \<Rightarrow> Fuzzer \<Rightarrow> ('s3, 'n, 'z, unit) cgo" where
  "prepare_fuzzer c srv f =
     go_then (go_fatal (on_fs (MkInputDir (FileManager f))))
       (go_try (go_fatal (FetchInputs (DecodeInputs c) srv)) (\<lambda>inputs.
         go_try (pure (corpus_len inputs)) (\<lambda>_.
           go_then (go_fatal (on_fs (WriteInputs (FileManager f) inputs)))
             (go_fatal (on_fs (MkAllOutputDirs (FileManager f)))))))"

text \<open>
  \<open>running\<close> is what happens from the start of the command to its exit, with the error of \<open>cmd.Wait\<close>;
  \<open>elapsed\<close> is the time the last upload takes.
\<close>

definition RunFuzzerForever ::
  "codec \<Rightarrow> RovingServerClient \<Rightarrow> Fuzzer \<Rightarrow> string res \<Rightarrow> goerr option \<Rightarrow>
   (('s3, 'n, 'z) fuzz_world_scheme \<Rightarrow> goerr option \<times> ('s3, 'n, 'z) fuzz_world_scheme) \<Rightarrow> int \<Rightarrow> ('s3, 'n, 'z, unit) fgo" where
  "RunFuzzerForever c srv f cwd start_err running elapsed =
     go_then (prepare_fuzzer c srv f)
       (go_then (run_fuzzer cwd start_err) (\<lambda>w.
         case running w of
           (err, w1) \<Rightarrow>
             go_then (uploadState (Marshal c) srv elapsed f)
               (case err of None \<Rightarrow> go_ret () | Some _ \<Rightarrow> go_fail (Fatal ''log.Fatal'')) (w1\<lparr>proc := Exited\<rparr>)))"

subsection \<open>A fleet of fuzzers\<close>

datatype client_task =
    DownloadTask int
  | FuzzerTask "string list" string string int int int

record ('s3, 'n) fleet_world = "('s3, 'n) client_world" +
  c_tasks :: "client_task list"

type_synonym ('s3, 'n, 'z, 'a) flgo = "(('s3, 'n, 'z) fleet_world_scheme, 'a) go"

definition spawn :: "client_task \<Rightarrow> ('s3, 'n, 'z, unit) flgo" where
  "spawn t w = (Inr (), w\<lparr>c_tasks := c_tasks w @ [t]\<rparr>)"

definition fetch_target :: "RovingServerClient \<Rightarrow> bool \<Rightarrow> FuzzerConfig \<Rightarrow> ('s3, 'n, 'z, string list) cgo" where
  "fetch_target srv isNewRun cfg w =
     (if UseBinary cfg then
        (case FetchTargetBinary srv ''./target'' w of
           (Inl (Err e), w1) \<Rightarrow> (if isNewRun then Inl (Fatal ''Couldn't fetch target'') else Inr [''./target''], w1)
         | (Inl e, w1) \<Rightarrow> (Inl e, w1)
         | (Inr _, w1) \<Rightarrow> (Inr [''./target''], w1))
      else (Inr (Command cfg), w))"

definition fetch_dict :: "RovingServerClient \<Rightarrow> FleetFileManager \<Rightarrow> FuzzerConfig \<Rightarrow> ('s3, 'n, 'z, string) cgo" where
  "fetch_dict srv fm cfg =
     (if UseDict cfg then
        go_try (go_fatal (FetchDict srv)) (\<lambda>d.
          if length d > 0 then go_then (go_fatal (on_fs (WriteDict fm d))) (go_ret (DictPath fm))
          else go_fail (Fatal ''Server did not return a dict!''))
      else go_ret [])"

definition SetupAndRun :: "codec \<Rightarrow> ClientConfig \<Rightarrow> string \<Rightarrow> bool \<Rightarrow> ('s3, 'n, 'z, unit) flgo" where
  "SetupAndRun c conf workdir isNewRun =
     (let srv = NewRovingServerClient (ServerAddress conf); fm = \<lparr>Basedir = workdir\<rparr>
      in go_try (go_fatal (FetchFuzzerConfig (DecodeConfig c) srv)) (\<lambda>cfg.
           go_try (fetch_target srv isNewRun cfg) (\<lambda>targetCommand.
             go_try (fetch_dict srv fm cfg) (\<lambda>dictPath.
               go_then (downloadQueues c srv fm)
                 (go_then (spawn (DownloadTask (SyncInterval cfg)))
                   (each spawn (replicate (nat (Parallelism conf))
                     (FuzzerTask targetCommand workdir dictPath (TimeoutMs cfg) (MemLimitMb cfg) (SyncInterval cfg)))))))))"

text \<open>The goroutine of one fuzzer of the fleet.\<close>

definition run_fuzzer_task ::
  "codec \<Rightarrow> RovingServerClient \<Rightarrow> string res \<Rightarrow> goerr + bytes \<Rightarrow> (string \<Rightarrow> string) \<Rightarrow> string res \<Rightarrow> goerr option \<Rightarrow>
   (('s3, 'n, 'z) fuzz_world_scheme \<Rightarrow> goerr option \<times> ('s3, 'n, 'z) fuzz_world_scheme) \<Rightarrow> int \<Rightarrow>
   string list \<Rightarrow> string \<Rightarrow> string \<Rightarrow> int \<Rightarrow> int \<Rightarrow> ('s3, 'n, 'z, unit) fgo" where
  "run_fuzzer_task c srv hostname source getenv cwd start_err running elapsed targetCommand workdir dictPath timeoutMs memLimitMb =
     go_try (pure (newAFLFuzzer hostname source getenv targetCommand workdir dictPath timeoutMs memLimitMb)) (\<lambda>f.
       RunFuzzerForever c srv f cwd start_err running elapsed)"

subsection \<open>Preparing a fuzzer in a fresh working directory\<close>

lemma no_file_on_cong:
  assumes "no_file_on fs p" and "\<And>d. strict_prefix d p \<Longrightarrow> dir_files fs' d = dir_files fs d"
  shows "no_file_on fs' p"
  using assms unfolding no_file_on_dir_files by (metis prefix_snocD)

lemma fresh_mkdirs_empty:
  assumes "fresh_dir fs p" shows "fs_entries (mkdirs p fs) p = []"
proof (rule fs_entries_eqI)
  fix n
  show "n \<in> set [] \<longleftrightarrow> fs_lookup (mkdirs p fs) (p @ [n]) \<noteq> None"
    using fresh_dir_below[OF assms, of "[n]"] by (simp add: fs_lookup_mkdirs)
qed simp_all

lemma prepare_fs:
  assumes b: "valid_names bs" "fuzzer_ok fid" and i: "fresh_dir fs (bs @ [''input''])"
    and o: "fresh_dir fs (out_path bs fid)" and n: "names_ok is"
  defines "fs1 \<equiv> mkdirs (bs @ [''input'']) fs"
  shows "\<exists>fs2. MkInputDir (mgr bs fid) fs = (Inr (), fs1) \<and>
    WriteInputs (mgr bs fid) (Some \<lparr>Inputs = is\<rparr>) fs1 = (Inr (), fs2) \<and>
    MkAllOutputDirs (mgr bs fid) fs2 = (Inr (), mk_out (out_path bs fid) fs2) \<and>
    ReadInputs (mgr bs fid) (mk_out (out_path bs fid) fs2) =
      (Inr \<lparr>Inputs = sort_key Name is\<rparr>, mk_out (out_path bs fid) fs2) \<and>
    out_ready (mk_out (out_path bs fid) fs2) (out_path bs fid) \<and>
    (\<forall>d. d \<noteq> bs @ [''input''] \<longrightarrow> dir_files (mk_out (out_path bs fid) fs2) d = dir_files fs d)"
proof -
  let ?i = "bs @ [''input'']" and ?p = "out_path bs fid"
  have fi: "fs_wf fs" "fs_reach fs ?i" "no_file_on fs ?i" using i by (simp_all add: fresh_dir_def)
  have ready: "dir_ready fs1 ?i" unfolding fs1_def using fi by (rule dir_ready_mkdirs)
  have empty: "fs_entries fs1 ?i = []" unfolding fs1_def using i by (rule fresh_mkdirs_empty)
  have mk: "MkInputDir (mgr bs fid) fs = (Inr (), fs1)"
    using fi b by (simp add: MkInputDir_def InputDir_mgr os_mkdir_all_ok fs1_def)
  have "fs_corpora.writable fs1 ?i is" using n ready empty_no_subdir[OF empty] by (rule names_ok_writable)
  from fs_corpora.write_all[OF this] obtain fs2 where
    w: "each (\<lambda>j. WriteInputToFile j (abs_of ?i)) is fs1 = (Inr (), fs2)" "fs_corpora.keeps fs1 fs2"
      "\<forall>e. dir_files fs2 e = (if e = ?i then stored (dir_files fs1 ?i) is else dir_files fs1 e)" by blast
  have r2: "dir_ready fs2 ?i" using w(2) ready by (simp add: fs_corpora.keeps_def)
  have rp: "fs_reach fs2 ?p"
  proof -
    have "WriteInputs (mgr bs fid) (Some \<lparr>Inputs = is\<rparr>) fs1 = (Inr (), fs2)"
      using w(1) b by (simp add: WriteInputs_def InputDir_mgr WriteInputCorpusToFile_Some)
    from withinD[OF grows_WriteCorpora(4) this] have "fs_denied fs2 = fs_denied fs1"
      unfolding fs_grows_def by blast
    then have "fs_denied fs2 = fs_denied fs" by (simp add: fs1_def)
    then show ?thesis using o by (simp add: fresh_dir_def fs_reach_def)
  qed
  have free: "out_free fs2 ?p"
    unfolding out_free_def list_all_iff
  proof
    fix c assume c: "c \<in> set (corpus_paths ?p)"
    then have "no_file_on fs c" using fresh_out_free[OF o] by (simp add: out_free_def list_all_iff)
    then have "no_file_on fs1 c" using fi(3) by (simp add: fs1_def no_file_on_mkdirs)
    moreover have "dir_files fs2 d = dir_files fs1 d" if "strict_prefix d c" for d
      using that c w(3) by (auto simp: corpus_paths_def out_path_def strict_prefix_def)
    ultimately show "no_file_on fs2 c" by (rule no_file_on_cong)
  qed
  have wf2: "fs_wf fs2" using r2 by (simp add: dir_ready_def)
  note mo = mk_out_facts[OF wf2 rp free]
  let ?fs3 = "mk_out ?p fs2"
  have "dir_files ?fs3 ?i = stored Map.empty is"
    using mo(3)[of ?i] w(3) dir_files_empty[OF empty] by simp
  moreover have r3: "dir_ready ?fs3 ?i"
    using r2 mo(1) mo(4)[of ?i] by (simp add: dir_ready_def fs_lookup_mk_out)
  ultimately have "ReadInputs (mgr bs fid) ?fs3 = (Inr \<lparr>Inputs = sort_key Name is\<rparr>, ?fs3)"
    using corpus_of_stored[OF r3 _ n] b by (simp add: ReadInputs_def InputDir_mgr ReadInputCorpus_ok)
  moreover have "dir_files ?fs3 d = dir_files fs d" if "d \<noteq> ?i" for d
    using that mo(3)[of d] w(3) fi(3) by (simp add: fs1_def dir_files_mkdirs)
  ultimately show ?thesis
    using mk w(1) mo(2) b MkAllOutputDirs_ok[OF rp b free]
    by (intro exI[of _ fs2]) (simp add: WriteInputs_def InputDir_mgr WriteInputCorpusToFile_Some)
qed

subsection \<open>Which faults writing the queues can have\<close>

lemma errs_WriteInputs:
  "errs (WriteInputToFile i dir)" "c \<noteq> None \<Longrightarrow> errs (WriteInputCorpusToFile c dir)"
  by (auto simp: WriteInputToFile_def WriteInputCorpusToFile_def intro!: errs_rules errs_calls)

lemma errs_WriteQueues:
  assumes "list_all (\<lambda>(_, q). q \<noteq> None) qs" shows "errs (WriteQueues fm qs)"
  using assms
  by (auto simp: WriteQueues_def list_all_iff MkQueueDir_fleet_def MkQueueDir_def WriteQueue_def
      intro!: errs_rules errs_calls errs_WriteInputs)

text \<open>The event a download leaves.\<close>

definition download_event :: "('s3, 'z) world_scheme \<Rightarrow> bool \<Rightarrow> event" where
  "download_event w ok =
     metric_event w Counter
       (if ok then ''queue_downloader.download_queue.success'' else ''queue_downloader.download_queue.fail'')
       (f32_of_uint 1) []"

text \<open>A codec that gives the same inputs and queues whatever the server sends.\<close>

definition const_codec :: "Input list \<Rightarrow> codec" where
  "const_codec is = \<lparr>DecodeConfig = (\<lambda>_ cfg. cfg), DecodeInputs = (\<lambda>_ _. Some \<lparr>Inputs = is\<rparr>),
     DecodeQueues = (\<lambda>_ _. [(''f-1'', Some \<lparr>Inputs = is\<rparr>)]), Marshal = (\<lambda>_. Inr [])\<rparr>"

text \<open>One download.\<close>

lemma downloadQueues_effect:
  assumes "FetchQueues (DecodeQueues c) srv w = (r, w1)"
    and "case r of Inl _ \<Rightarrow> True | Inr qs \<Rightarrow> list_all (\<lambda>(_, q). q \<noteq> None) qs"
  shows "\<exists>fs' ok. downloadQueues c srv fm w =
      (Inr (), w1\<lparr>w_fs := fs', w_events := w_events w @ [download_event w ok]\<rparr>) \<and>
    (ok \<longleftrightarrow> (\<exists>qs. r = Inr qs \<and> WriteQueues fm qs (w_fs w) = (Inr (), fs')))"
proof -
  have t: "w_fs w1 = w_fs w" "w_events w1 = w_events w" "metric_event w1 = metric_event w"
    using withinD[OF Fetch_talks(4) assms(1)] by (auto simp: talks_def metric_event_def fun_eq_iff)
  show ?thesis
  proof (cases r)
    case (Inl e)
    then obtain g where "e = Err g" using errsD[OF errs_Fetch(1)] assms(1) by blast
    then show ?thesis using Inl assms(1) t
      by (intro exI[of _ "w_fs w"] exI[of _ False])
        (simp add: downloadQueues_def download_fail_def Submit_ok download_event_def)
  next
    case (Inr qs)
    obtain x fs' where x: "WriteQueues fm qs (w_fs w) = (x, fs')" by (cases "WriteQueues fm qs (w_fs w)")
    have "x = Inr () \<or> (\<exists>g. x = Inl (Err g))"
      using errsD[OF errs_WriteQueues[of qs fm] , of "w_fs w"] assms x Inr by (cases x) auto
    then show ?thesis
    proof
      assume "x = Inr ()"
      then show ?thesis using Inr assms(1) t x
        by (intro exI[of _ fs'] exI[of _ True])
          (simp add: downloadQueues_def Submit_ok download_event_def)
    next
      assume "\<exists>g. x = Inl (Err g)"
      then show ?thesis using Inr assms(1) t x
        by (intro exI[of _ fs'] exI[of _ False])
          (auto simp: downloadQueues_def download_fail_def Submit_ok download_event_def)
    qed
  qed
qed

subsection \<open>Properties\<close>

text \<open>
  C22: Before AFL is started in a working directory without input or output of this fuzzer, the input
  directory holds the inputs the server sent, readable in name order, the three output directories
  are there, and no other directory has changed its files.
\<close>

theorem prepare_fuzzer_ready:
  fixes w :: "('s3, 'n, 'z) client_world_scheme"
  assumes "FileManager f = mgr bs fid" and "valid_names bs" and "fuzzer_ok fid"
    and "fresh_dir (w_fs w) (bs @ [''input''])" and "fresh_dir (w_fs w) (out_path bs fid)" and "names_ok is"
    and "FetchInputs (DecodeInputs c) srv (w\<lparr>w_fs := mkdirs (bs @ [''input'']) (w_fs w)\<rparr>) =
      (Inr (Some \<lparr>Inputs = is\<rparr>), w1)"
  shows "\<exists>w2. prepare_fuzzer c srv f w = (Inr (), w2) \<and>
    ReadInputs (FileManager f) (w_fs w2) = (Inr \<lparr>Inputs = sort_key Name is\<rparr>, w_fs w2) \<and>
    out_ready (w_fs w2) (out_path bs fid) \<and>
    (\<forall>d. d \<noteq> bs @ [''input''] \<longrightarrow> dir_files (w_fs w2) d = dir_files (w_fs w) d)"
proof -
  let ?fs1 = "mkdirs (bs @ [''input'']) (w_fs w)"
  obtain fs2 where p: "MkInputDir (mgr bs fid) (w_fs w) = (Inr (), ?fs1)"
    "WriteInputs (mgr bs fid) (Some \<lparr>Inputs = is\<rparr>) ?fs1 = (Inr (), fs2)"
    "MkAllOutputDirs (mgr bs fid) fs2 = (Inr (), mk_out (out_path bs fid) fs2)"
    "ReadInputs (mgr bs fid) (mk_out (out_path bs fid) fs2) =
      (Inr \<lparr>Inputs = sort_key Name is\<rparr>, mk_out (out_path bs fid) fs2)"
    "out_ready (mk_out (out_path bs fid) fs2) (out_path bs fid)"
    "\<forall>d. d \<noteq> bs @ [''input''] \<longrightarrow> dir_files (mk_out (out_path bs fid) fs2) d = dir_files (w_fs w) d"
    using prepare_fs[OF assms(2-6)] by blast
  have fs: "w_fs w1 = ?fs1" using withinD[OF Fetch_talks(2) assms(7)] by (auto simp: talks_def)
  let ?w2 = "w1\<lparr>w_fs := mk_out (out_path bs fid) fs2\<rparr>"
  have "go_fatal (on_fs (MkInputDir (mgr bs fid))) w = (Inr (), w\<lparr>w_fs := ?fs1\<rparr>)"
    using p(1) by simp
  moreover have "go_fatal (on_fs (WriteInputs (mgr bs fid) (Some \<lparr>Inputs = is\<rparr>))) w1 = (Inr (), w1\<lparr>w_fs := fs2\<rparr>)"
    using p(2) fs by simp
  moreover have "go_fatal (on_fs (MkAllOutputDirs (mgr bs fid))) (w1\<lparr>w_fs := fs2\<rparr>) = (Inr (), ?w2)"
    using p(3) by simp
  ultimately have "prepare_fuzzer c srv f w = (Inr (), ?w2)"
    using assms(1,7) by (simp add: prepare_fuzzer_def pure_def corpus_len_def)
  then show ?thesis using p(4-6) assms(1) by (intro exI[of _ ?w2]) simp
qed

lemma prepare_fuzzer_ready_witness:
  "\<exists>w2. prepare_fuzzer (const_codec [sample_input ''b'' ''2'', sample_input ''a'' ''1'']) (NewRovingServerClient ''s'')
      \<lparr>FuzzerId = ''h-1'', FileManager = mgr [''d''] ''h-1'', FuzzCmd = \<lparr>CmdName = ''afl-fuzz'', CmdArgs = []\<rparr>\<rparr>
      (flaky_world sample_fs target_stream) = (Inr (), w2) \<and>
    ReadInputs (mgr [''d''] ''h-1'') (w_fs w2) =
      (Inr \<lparr>Inputs = [sample_input ''a'' ''1'', sample_input ''b'' ''2'']\<rparr>, w_fs w2)"
proof -
  let ?is = "[sample_input ''b'' ''2'', sample_input ''a'' ''1'']" and ?w = "flaky_world sample_fs target_stream"
  let ?f = "\<lparr>FuzzerId = ''h-1'', FileManager = mgr [''d''] ''h-1'', FuzzCmd = \<lparr>CmdName = ''afl-fuzz'', CmdArgs = []\<rparr>\<rparr>"
  have fs: "w_fs ?w = sample_fs" by (simp add: flaky_world_def)
  have h: "valid_names [''d'']" "fuzzer_ok ''h-1''" "fresh_dir sample_fs ([''d''] @ [''input''])"
    "fresh_dir sample_fs (out_path [''d''] ''h-1'')" "names_ok ?is" by code_simp+
  have s: "sort_key Name ?is = [sample_input ''a'' ''1'', sample_input ''b'' ''2'']" by code_simp
  have "?w\<lparr>w_fs := mkdirs ([''d''] @ [''input'']) sample_fs\<rparr> = flaky_world (mkdirs ([''d''] @ [''input'']) sample_fs) target_stream"
    by (simp add: flaky_world_def)
  then obtain w1 where "FetchInputs (DecodeInputs (const_codec ?is)) (NewRovingServerClient ''s'')
      (?w\<lparr>w_fs := mkdirs ([''d''] @ [''input'']) (w_fs ?w)\<rparr>) = (Inr (Some \<lparr>Inputs = ?is\<rparr>), w1)"
    using flaky_get[of "''s''" "''inputs''" "mkdirs ([''d''] @ [''input'']) sample_fs" target_stream]
    by (auto simp: FetchInputs_def const_codec_def fs)
  from prepare_fuzzer_ready[OF _ h(1,2) _ _ h(5) this, of ?f] show ?thesis
    using h(3,4) unfolding fs s by auto
qed

text \<open>
  Whatever the server and the disk do, a download of the queues lets the client go on, as long as
  the decoder gives no nil queue: it returns, having written queues or not, and reports one success or
  failure; it is a success exactly when the queues were fetched and all of them written.
\<close>

theorem downloadQueues_survives:
  assumes "FetchQueues (DecodeQueues c) srv w = (r, w1)"
    and "case r of Inl _ \<Rightarrow> True | Inr qs \<Rightarrow> list_all (\<lambda>(_, q). q \<noteq> None) qs"
  shows "\<exists>fs' ok. downloadQueues c srv fm w =
      (Inr (), w1\<lparr>w_fs := fs', w_events := w_events w @ [download_event w ok]\<rparr>) \<and>
    (ok \<longleftrightarrow> (\<exists>qs. r = Inr qs \<and> WriteQueues fm qs (w_fs w) = (Inr (), fs')))"
  using assms by (rule downloadQueues_effect)

lemma downloadQueues_survives_witness:
  "\<exists>w'. downloadQueues (const_codec []) (NewRovingServerClient ''s'') \<lparr>Basedir = ''/d''\<rparr>
      (flaky_world sample_fs target_stream) = (Inr (), w') \<and> length (w_events w') = 1"
proof -
  let ?w = "flaky_world sample_fs target_stream"
  obtain w1 where run: "FetchQueues (DecodeQueues (const_codec [])) (NewRovingServerClient ''s'') ?w =
      (Inr [(''f-1'', Some \<lparr>Inputs = []\<rparr>)], w1)"
    using flaky_get[of "''s''" "''queue''" sample_fs target_stream]
    by (auto simp: FetchQueues_def const_codec_def)
  have "w_events ?w = []" by (simp add: flaky_world_def)
  then show ?thesis using downloadQueues_survives[OF run, of "\<lparr>Basedir = ''/d''\<rparr>"] by auto
qed

end
