(* ===== verification/GoJson.thy ===== *)
theory GoJson
  imports GoUtf8
begin

text \<open>
  \<open>encoding/json\<close> (Go 1.18): values, how the encoder writes them and how the decoder reads them. A number
  is its text, a string its bytes; the members of an object keep their order. Written values have no
  white space, \<open><\<close>, \<open>>\<close> and \<open>&\<close> are escaped, and a byte that is not UTF-8 becomes \<open>\ufffd\<close>. The reader
  takes the first value of a text and gives what follows it.
\<close>

datatype json =
    JNull
  | JBool bool
  | JNum string
  | JStr string
  | JArr "json list"
  | JObj "(string \<times> json) list"

subsection \<open>Strings\<close>

definition hex_digit :: "int \<Rightarrow> char" where
  "hex_digit d = char_of (if d < 10 then 48 + d else 87 + d)"

text \<open>One ASCII character in a written string.\<close>

definition escape_ascii :: "char \<Rightarrow> string" where
  "escape_ascii c =
     (if c = CHR 0x22 \<or> c = CHR 0x5C then [CHR 0x5C, c]
      else if c = CHR 0x0A then [CHR 0x5C, CHR ''n'']
      else if c = CHR 0x0D then [CHR 0x5C, CHR ''r'']
      else if c = CHR 0x09 then [CHR 0x5C, CHR ''t'']
      else if byte_of c < 32 \<or> c = CHR ''<'' \<or> c = CHR ''>'' \<or> c = CHR ''&'' then
        [CHR 0x5C, CHR ''u'', CHR ''0'', CHR ''0'', hex_digit (byte_of c div 16), hex_digit (byte_of c mod 16)]
      else [c])"

text \<open>A piece of a string that is no ASCII character: a rune, or a byte that is none.\<close>

definition escape_rune :: "string \<Rightarrow> string" where
  "escape_rune r =
     (if length r = 1 then [CHR 0x5C, CHR ''u'', CHR ''f'', CHR ''f'', CHR ''f'', CHR ''d'']
      else if r = [CHR 0xE2, CHR 0x80, CHR 0xA8] then [CHR 0x5C, CHR ''u'', CHR ''2'', CHR ''0'', CHR ''2'', CHR ''8'']
      else if r = [CHR 0xE2, CHR 0x80, CHR 0xA9] then [CHR 0x5C, CHR ''u'', CHR ''2'', CHR ''0'', CHR ''2'', CHR ''9'']
      else r)"

definition escape :: "string \<Rightarrow> string" where
  "escape r = (if list_all is_ascii r then concat (map escape_ascii r) else escape_rune r)"

definition quote :: "string \<Rightarrow> string" where
  "quote s = CHR 0x22 # concat (map escape (runes s)) @ [CHR 0x22]"

text \<open>\<open>getu4\<close>: four hexadecimal digits.\<close>

definition hex4 :: "string \<Rightarrow> int option" where
  "hex4 s =
     (let ds = take 4 s
      in if length ds = 4 \<and> list_all (\<lambda>c. is_digit c \<or> is_hex_letter c) ds
         then Some (foldl (\<lambda>n c. 16 * n + hex_val c) 0 ds) else None)"

definition simple_escape :: "char \<Rightarrow> char option" where
  "simple_escape c =
     (if c = CHR 0x22 \<or> c = CHR 0x5C \<or> c = CHR ''/'' then Some c
      else if c = CHR ''b'' then Some (CHR 0x08)
      else if c = CHR ''f'' then Some (CHR 0x0C)
      else if c = CHR ''n'' then Some (CHR 0x0A)
      else if c = CHR ''r'' then Some (CHR 0x0D)
      else if c = CHR ''t'' then Some (CHR 0x09)
      else None)"

definition is_surrogate :: "int \<Rightarrow> bool" where
  "is_surrogate r \<longleftrightarrow> 0xD800 \<le> r \<and> r < 0xE000"

text \<open>
  The rune of an escape with the number \<open>r\<close>, where \<open>s\<close> follows, and how much of \<open>s\<close> belongs to it: a high
  surrogate takes the escape of a low one behind it.
\<close>

definition escaped_rune :: "int \<Rightarrow> string \<Rightarrow> string \<times> nat" where
  "escaped_rune r s =
     (if \<not> is_surrogate r then (encode_rune r, 0)
      else if take 2 s = [CHR 0x5C, CHR ''u''] then
        (case hex4 (drop 2 s) of
           Some r1 \<Rightarrow>
             if r < 0xDC00 \<and> 0xDC00 \<le> r1 \<and> r1 < 0xE000
             then (encode_rune (0x10000 + (r - 0xD800) * 1024 + (r1 - 0xDC00)), 6)
             else (replacement, 0)
         | None \<Rightarrow> (replacement, 0))
      else (replacement, 0))"

text \<open>A string behind its opening quote, up to the closing one, and what follows.\<close>

function unquote :: "string \<Rightarrow> (string \<times> string) option" where
  "unquote s =
     (case s of
        [] \<Rightarrow> None
      | c # t \<Rightarrow>
          if c = CHR 0x22 then Some ([], t)
          else if c = CHR 0x5C then
            (case t of
               [] \<Rightarrow> None
             | e # u \<Rightarrow>
                 if e = CHR ''u'' then
                   (case hex4 u of
                      None \<Rightarrow> None
                    | Some r \<Rightarrow>
                        let v = drop 4 u; p = escaped_rune r v
                        in map_option (apfst ((@) (fst p))) (unquote (drop (snd p) v)))
                 else (case simple_escape e of
                     None \<Rightarrow> None
                   | Some d \<Rightarrow> map_option (apfst ((#) d)) (unquote u)))
          else if byte_of c < 32 then None
          else if is_ascii c then map_option (apfst ((#) c)) (unquote t)
          else if rune_len s = 1 then map_option (apfst ((@) replacement)) (unquote t)
          else map_option (apfst ((@) (take (rune_len s) s))) (unquote (drop (rune_len s) s)))"
  by pat_completeness auto
termination
  by (relation "measure length") (auto simp: rune_len_pos)

declare unquote.simps [simp del]

lemma hex_digit_val:
  assumes "0 \<le> d" and "d < 16"
  shows "(is_digit (hex_digit d) \<or> is_hex_letter (hex_digit d)) \<and> hex_val (hex_digit d) = d"
proof -
  have "d \<in> set (upto 0 15)" using assms by simp
  moreover have "list_all (\<lambda>d. (is_digit (hex_digit d) \<or> is_hex_letter (hex_digit d)) \<and> hex_val (hex_digit d) = d) (upto 0 15)"
    by code_simp
  ultimately show ?thesis by (auto simp: list_all_iff)
qed

lemma byte_of_pos [simp]: "0 \<le> byte_of c"
  by (metis byte_of_def of_nat_of_char of_nat_0_le_iff)

lemma char_of_byte [simp]: "char_of (byte_of c) = c"
  by (simp add: byte_of_def)

lemma hex4_byte:
  assumes "is_ascii c"
  shows "hex4 (CHR ''0'' # CHR ''0'' # hex_digit (byte_of c div 16) # hex_digit (byte_of c mod 16) # t) = Some (byte_of c)"
proof -
  have d: "0 \<le> byte_of c div 16" "byte_of c div 16 < 16" "0 \<le> byte_of c mod 16" "byte_of c mod 16 < 16"
    using assms by (auto simp: is_ascii_def pos_imp_zdiv_nonneg_iff)
  have z: "is_digit (CHR ''0'')" "hex_val (CHR ''0'') = 0" by code_simp+
  show ?thesis
    using hex_digit_val[OF d(1,2)] hex_digit_val[OF d(3,4)] by (simp add: hex4_def z)
qed

lemma unquote_ascii:
  assumes "is_ascii c"
  shows "unquote (escape_ascii c @ t) = map_option (apfst ((#) c)) (unquote t)"
proof -
  have e: "byte_of (CHR 0x22) = 34" "byte_of (CHR 0x5C) = 92" by (simp_all add: byte_of_def)
  have r: "escaped_rune (byte_of c) u = ([c], 0)" for u
    using assms by (simp add: escaped_rune_def is_surrogate_def is_ascii_def encode_rune_def)
  have k: "(@) [c] = (#) c" by auto
  show ?thesis
    using assms hex4_byte[OF assms, of t]
    by (subst unquote.simps)
      (auto simp: escape_ascii_def simple_escape_def r k option.map_comp)
qed

lemma escaped_runes:
  "hex4 (''fffd'' @ t) = Some 0xFFFD" "hex4 (''2028'' @ t) = Some 0x2028" "hex4 (''2029'' @ t) = Some 0x2029"
  by (simp_all add: hex4_def is_digit_def is_hex_letter_def hex_val_def digit_val_def lower_def)

lemma encoded_runes:
  "encode_rune 0xFFFD = replacement" "encode_rune 0x2028 = [CHR 0xE2, CHR 0x80, CHR 0xA8]"
  "encode_rune 0x2029 = [CHR 0xE2, CHR 0x80, CHR 0xA9]"
  by code_simp+

lemma unquote_u:
  assumes "hex4 u = Some r" and "\<not> is_surrogate r"
  shows "unquote (CHR 0x5C # CHR ''u'' # u) = map_option (apfst ((@) (encode_rune r))) (unquote (drop 4 u))"
  using assms by (subst unquote.simps) (simp add: escaped_rune_def)

text \<open>What the encoder writes for a piece that is no ASCII character, the decoder reads as that piece.\<close>

lemma unquote_rune:
  assumes "\<not> is_ascii c" and "r = take (rune_len (c # s)) (c # s)"
  shows "unquote (escape_rune r @ t) =
    map_option (apfst ((@) (if length r = 1 then replacement else r))) (unquote t)"
proof -
  have n: "length r = rune_len (c # s)" using rune_len_le[of "c # s"] assms(2) by simp
  have plain: "unquote (r @ t) = map_option (apfst ((@) r)) (unquote t)" if "length r \<noteq> 1"
  proof -
    obtain u where u: "r = c # u" using assms(2) rune_len_pos[of "c # s"] by (cases "rune_len (c # s)") auto
    have "rune_len (r @ t) = length r" using rune_len_append[of "c # s" t] that n assms(2) by simp
    then have "rune_len (c # u @ t) = Suc (length u)" by (simp add: u)
    moreover have "c \<noteq> CHR 0x22" "c \<noteq> CHR 0x5C" "\<not> byte_of c < 32"
      using assms(1) by (auto simp: is_ascii_def byte_of_def)
    moreover have "u \<noteq> []" using that by (simp add: u)
    ultimately show ?thesis using assms(1) by (simp add: u) (simp add: unquote.simps[of "c # u @ t"])
  qed
  have "\<not> is_surrogate 0xFFFD" "\<not> is_surrogate 0x2028" "\<not> is_surrogate 0x2029"
    by (simp_all add: is_surrogate_def)
  then show ?thesis
    using plain unquote_u[OF escaped_runes(1)[of t]] unquote_u[OF escaped_runes(2)[of t]] unquote_u[OF escaped_runes(3)[of t]]
    by (simp add: escape_rune_def encoded_runes)
qed

lemma unquote_quote: "unquote (concat (map escape (runes s)) @ CHR 0x22 # t) = Some (utf8_fix s, t)"
proof (induction s rule: runes.induct)
  case (1 s)
  show ?case
  proof (cases s)
    case Nil
    then show ?thesis by (simp add: unquote.simps)
  next
    case (Cons c u)
    let ?r = "take (rune_len s) s" and ?d = "drop (rune_len s) s"
    have "?r = c # take (rune_len s - 1) u" using Cons rune_len_pos[of s] by (cases "rune_len s") auto
    then show ?thesis
    proof (cases "is_ascii c")
      case True
      then show ?thesis using 1 Cons by (simp add: escape_def unquote_ascii utf8_fix_Cons)
    next
      case False
      then have "escape ?r = escape_rune ?r"
        using \<open>?r = c # take (rune_len s - 1) u\<close> by (simp add: escape_def)
      then show ?thesis
        using 1 Cons False unquote_rune[OF False, of ?r u] rune_len_le[of s]
        by (simp add: runes_Cons utf8_fix_Cons)
    qed
  qed
qed

subsection \<open>Numbers\<close>

text \<open>The digits at the beginning of a text; there must be one.\<close>

definition scan_digits :: "string \<Rightarrow> (string \<times> string) option" where
  "scan_digits s =
     (if takeWhile is_digit s = [] then None else Some (takeWhile is_digit s, dropWhile is_digit s))"

text \<open>An optional part of a number: the part with its first characters, if they are there.\<close>

definition scan_int :: "string \<Rightarrow> (string \<times> string) option" where
  "scan_int s =
     (case s of
        [] \<Rightarrow> None
      | c # t \<Rightarrow> if c = CHR ''0'' then Some ([c], t) else scan_digits s)"

definition scan_frac :: "string \<Rightarrow> (string \<times> string) option" where
  "scan_frac s =
     (case s of
        c # t \<Rightarrow> if c = CHR ''.'' then map_option (apfst ((#) c)) (scan_digits t) else Some ([], s)
      | [] \<Rightarrow> Some ([], s))"

definition scan_exp :: "string \<Rightarrow> (string \<times> string) option" where
  "scan_exp s =
     (case s of
        c # t \<Rightarrow>
          if lower c = CHR ''e'' then
            (case t of
               d # u \<Rightarrow> if d = CHR ''+'' \<or> d = CHR ''-'' then map_option (apfst (\<lambda>ds. c # d # ds)) (scan_digits u)
                         else map_option (apfst ((#) c)) (scan_digits t)
             | [] \<Rightarrow> None)
          else Some ([], s)
      | [] \<Rightarrow> Some ([], s))"

definition scan_unsigned :: "string \<Rightarrow> (string \<times> string) option" where
  "scan_unsigned s =
     (case scan_int s of
        None \<Rightarrow> None
      | Some (i, s1) \<Rightarrow> (case scan_frac s1 of
          None \<Rightarrow> None
        | Some (f, s2) \<Rightarrow> map_option (apfst (\<lambda>e. i @ f @ e)) (scan_exp s2)))"

definition scan_number :: "string \<Rightarrow> (string \<times> string) option" where
  "scan_number s =
     (case s of
        c # t \<Rightarrow> if c = CHR ''-'' then map_option (apfst ((#) c)) (scan_unsigned t) else scan_unsigned s
      | [] \<Rightarrow> None)"

text \<open>A text that is a number as a whole, and what may follow one.\<close>

definition is_number :: "string \<Rightarrow> bool" where
  "is_number s \<longleftrightarrow> scan_number s = Some (s, [])"

definition ends_number :: "string \<Rightarrow> bool" where
  "ends_number t \<longleftrightarrow> (case t of [] \<Rightarrow> True | c # _ \<Rightarrow> \<not> is_digit c \<and> c \<noteq> CHR ''.'' \<and> lower c \<noteq> CHR ''e'')"

subsection \<open>Values\<close>

fun print_json :: "json \<Rightarrow> string" where
  "print_json JNull = ''null''"
| "print_json (JBool b) = (if b then ''true'' else ''false'')"
| "print_json (JNum n) = n"
| "print_json (JStr s) = quote s"
| "print_json (JArr vs) = ''['' @ join_with (CHR '','') (map print_json vs) @ '']''"
| "print_json (JObj ms) = ''{'' @ join_with (CHR '','') (map (\<lambda>(k, v). quote k @ '':'' @ print_json v) ms) @ ''}''"

definition is_space :: "char \<Rightarrow> bool" where
  "is_space c \<longleftrightarrow> c = CHR '' '' \<or> c = CHR 0x09 \<or> c = CHR 0x0A \<or> c = CHR 0x0D"

definition skip_space :: "string \<Rightarrow> string" where
  "skip_space s = dropWhile is_space s"

text \<open>The text after an expected word.\<close>

definition expect :: "string \<Rightarrow> string \<Rightarrow> string option" where
  "expect w s = (if take (length w) s = w then Some (drop (length w) s) else None)"

text \<open>After an element or a member: whether there is another one.\<close>

definition separator :: "char \<Rightarrow> string \<Rightarrow> (bool \<times> string) option" where
  "separator close s =
     (case skip_space s of
        c # t \<Rightarrow> if c = CHR '','' then Some (True, t) else if c = close then Some (False, t) else None
      | [] \<Rightarrow> None)"

text \<open>
  The reader. \<open>d\<close> is how deep the value may still nest, of which the library allows 10000; the first argument is fuel for
  the recursion.
\<close>

fun parse_value :: "nat \<Rightarrow> nat \<Rightarrow> string \<Rightarrow> (json \<times> string) option"
  and parse_elems :: "nat \<Rightarrow> nat \<Rightarrow> string \<Rightarrow> (json list \<times> string) option"
  and parse_members :: "nat \<Rightarrow> nat \<Rightarrow> string \<Rightarrow> ((string \<times> json) list \<times> string) option"
where
  "parse_value 0 d s = None"
| "parse_value (Suc k) d s =
     (case skip_space s of
        [] \<Rightarrow> None
      | c # t \<Rightarrow>
          if c = CHR ''['' then
            (if d = 0 then None
             else case skip_space t of
               [] \<Rightarrow> None
             | e # u \<Rightarrow> if e = CHR '']'' then Some (JArr [], u)
                         else map_option (apfst JArr) (parse_elems k (d - 1) t))
          else if c = CHR ''{'' then
            (if d = 0 then None
             else case skip_space t of
               [] \<Rightarrow> None
             | e # u \<Rightarrow> if e = CHR ''}'' then Some (JObj [], u)
                         else map_option (apfst JObj) (parse_members k (d - 1) t))
          else if c = CHR 0x22 then map_option (apfst JStr) (unquote t)
          else if c = CHR ''n'' then map_option (Pair JNull) (expect ''ull'' t)
          else if c = CHR ''t'' then map_option (Pair (JBool True)) (expect ''rue'' t)
          else if c = CHR ''f'' then map_option (Pair (JBool False)) (expect ''alse'' t)
          else map_option (apfst JNum) (scan_number (c # t)))"
| "parse_elems 0 d s = None"
| "parse_elems (Suc k) d s =
     (case parse_value k d s of
        None \<Rightarrow> None
      | Some (v, u) \<Rightarrow> (case separator (CHR '']'') u of
          None \<Rightarrow> None
        | Some (more, r) \<Rightarrow>
            if more then map_option (apfst ((#) v)) (parse_elems k d r) else Some ([v], r)))"
| "parse_members 0 d s = None"
| "parse_members (Suc k) d s =
     (case skip_space s of
        [] \<Rightarrow> None
      | c # t \<Rightarrow>
          if c \<noteq> CHR 0x22 then None
          else (case unquote t of
              None \<Rightarrow> None
            | Some (key, u) \<Rightarrow> (case expect '':'' (skip_space u) of
                None \<Rightarrow> None
              | Some r \<Rightarrow> (case parse_value k d r of
                  None \<Rightarrow> None
                | Some (v, u) \<Rightarrow> (case separator (CHR ''}'') u of
                    None \<Rightarrow> None
                  | Some (more, r) \<Rightarrow>
                      if more then map_option (apfst ((#) (key, v))) (parse_members k d r) else Some ([(key, v)], r))))))"

definition maxNestingDepth :: nat where "maxNestingDepth = 10000"

definition parse_json :: "string \<Rightarrow> (json \<times> string) option" where
  "parse_json s = parse_value (length s) maxNestingDepth s"

subsection \<open>What is written is read back\<close>

primrec fix_json :: "json \<Rightarrow> json" where
  "fix_json JNull = JNull"
| "fix_json (JBool b) = JBool b"
| "fix_json (JNum n) = JNum n"
| "fix_json (JStr s) = JStr (utf8_fix s)"
| "fix_json (JArr vs) = JArr (map fix_json vs)"
| "fix_json (JObj ms) = JObj (map (map_prod utf8_fix fix_json) ms)"

text \<open>The numbers of a value are numbers, and it nests at most \<open>d\<close> deep.\<close>

fun json_ok :: "nat \<Rightarrow> json \<Rightarrow> bool" where
  "json_ok d (JNum n) = is_number n"
| "json_ok d (JArr vs) = (0 < d \<and> list_all (json_ok (d - 1)) vs)"
| "json_ok d (JObj ms) = (0 < d \<and> list_all (\<lambda>(_, v). json_ok (d - 1) v) ms)"
| "json_ok d _ = True"

lemma ends_number_simps [simp]:
  "ends_number []" "ends_number (c # t) \<longleftrightarrow> \<not> is_digit c \<and> c \<noteq> CHR ''.'' \<and> lower c \<noteq> CHR ''e''"
  by (simp_all add: ends_number_def)

text \<open>A scanner that stops at what may follow a number does so wherever the number stands.\<close>

definition stops :: "(string \<Rightarrow> (string \<times> string) option) \<Rightarrow> bool" where
  "stops f \<longleftrightarrow> (\<forall>s a u t. f s = Some (a, u) \<longrightarrow> ends_number t \<longrightarrow> f (s @ t) = Some (a, u @ t))"

lemma stopsD: "stops f \<Longrightarrow> f s = Some (a, u) \<Longrightarrow> ends_number t \<Longrightarrow> f (s @ t) = Some (a, u @ t)"
  unfolding stops_def by blast

lemma stops_Cons: "stops f \<Longrightarrow> f (c # s) = Some (a, u) \<Longrightarrow> ends_number t \<Longrightarrow> f (c # s @ t) = Some (a, u @ t)"
  using stopsD[of f "c # s"] by simp

lemma stops_scan_digits: "stops scan_digits"
proof -
  have "takeWhile is_digit (s @ t) = takeWhile is_digit s \<and> dropWhile is_digit (s @ t) = dropWhile is_digit s @ t"
    if "ends_number t" for s t
    using that by (induction s) (cases t, auto)
  then show ?thesis by (auto simp: stops_def scan_digits_def)
qed

lemma stops_scan_int: "stops scan_int"
  by (auto simp: stops_def[of scan_int] scan_int_def stops_Cons[OF stops_scan_digits] split: list.splits)

lemma stops_scan_frac: "stops scan_frac"
proof -
  have "scan_frac (s @ t) = Some (a, u @ t)" if "scan_frac s = Some (a, u)" "ends_number t" for s a u t
    using that by (cases s; cases t) (auto simp: scan_frac_def stopsD[OF stops_scan_digits] split: if_splits)
  then show ?thesis by (simp add: stops_def)
qed

lemma stops_scan_exp: "stops scan_exp"
proof -
  have "scan_exp (s @ t) = Some (a, u @ t)" if "scan_exp s = Some (a, u)" "ends_number t" for s a u t
    using that
    by (cases s; cases "tl s"; cases t)
      (auto simp: scan_exp_def stops_Cons[OF stops_scan_digits] stopsD[OF stops_scan_digits] split: if_splits)
  then show ?thesis by (simp add: stops_def)
qed

lemma stops_scan_unsigned: "stops scan_unsigned"
proof -
  have "scan_unsigned (s @ t) = Some (a, u @ t)" if "scan_unsigned s = Some (a, u)" "ends_number t" for s a u t
    using that
    by (auto simp: scan_unsigned_def stopsD[OF stops_scan_int] stopsD[OF stops_scan_frac] stopsD[OF stops_scan_exp]
        split: option.splits)
  then show ?thesis by (simp add: stops_def)
qed

lemma stops_scan_number: "stops scan_number"
proof -
  have "scan_number (s @ t) = Some (a, u @ t)" if "scan_number s = Some (a, u)" "ends_number t" for s a u t
    using that
    by (cases s)
      (auto simp: scan_number_def stopsD[OF stops_scan_unsigned] stops_Cons[OF stops_scan_unsigned] split: if_splits)
  then show ?thesis by (simp add: stops_def)
qed

lemma is_number_append: "is_number n \<Longrightarrow> ends_number t \<Longrightarrow> scan_number (n @ t) = Some (n, t)"
  using stopsD[OF stops_scan_number, of n n "[]"] by (simp add: is_number_def)

lemma is_number_hd:
  assumes "is_number n" shows "\<exists>c s. n = c # s \<and> (is_digit c \<or> c = CHR ''-'')"
proof (cases n)
  case (Cons c s)
  have "is_digit c" if "scan_unsigned (c # s) = Some r" for r
    using that by (auto simp: scan_unsigned_def scan_int_def scan_digits_def is_digit_def split: option.splits if_splits)
  then show ?thesis using assms Cons by (auto simp: is_number_def scan_number_def split: if_splits)
qed (use assms in \<open>simp add: is_number_def scan_number_def\<close>)

lemma skip_space_id [simp]: "\<not> is_space c \<Longrightarrow> skip_space (c # s) = c # s"
  by (simp add: skip_space_def)

lemma separator_simps [simp]:
  "separator (CHR '']'') (CHR '','' # t) = Some (True, t)" "separator (CHR '']'') (CHR '']'' # t) = Some (False, t)"
  "separator (CHR ''}'') (CHR '','' # t) = Some (True, t)" "separator (CHR ''}'') (CHR ''}'' # t) = Some (False, t)"
  by (simp_all add: separator_def is_space_def)

text \<open>Every written value begins with a character of its own.\<close>

lemma print_json_hd:
  assumes "json_ok d v"
  shows "\<exists>c s. print_json v = c # s \<and> \<not> is_space c \<and> c \<noteq> CHR '']''"
proof (cases v)
  case (JNum n)
  then show ?thesis using assms is_number_hd[of n] by (auto simp: is_space_def is_digit_def)
next
  case (JBool b)
  then show ?thesis by (cases b) (simp_all add: is_space_def)
qed (auto simp: quote_def is_space_def)

lemma print_json_pos: "json_ok d v \<Longrightarrow> 0 < length (print_json v)"
  using print_json_hd by fastforce

lemma parse_elems_print:
  assumes "\<And>v k rest. v \<in> set vs \<Longrightarrow> length (print_json v) \<le> k \<Longrightarrow> ends_number rest \<Longrightarrow>
      parse_value k d (print_json v @ rest) = Some (fix_json v, rest)"
    and "vs \<noteq> []" and "list_all (json_ok d) vs"
    and "length (join_with (CHR '','') (map print_json vs)) < k"
  shows "parse_elems k d (join_with (CHR '','') (map print_json vs) @ CHR '']'' # rest) = Some (map fix_json vs, rest)"
  using assms
proof (induction vs arbitrary: k)
  case Nil
  then show ?case by simp
next
  case (Cons v vs)
  then obtain k' where k: "k = Suc k'" by (cases k) auto
  have e: "lower (CHR '','') \<noteq> CHR ''e''" "lower (CHR '']'') \<noteq> CHR ''e''" by code_simp+
  show ?case
  proof (cases "vs = []")
    case True
    then show ?thesis using Cons.prems(1)[of v k' "CHR '']'' # rest"] Cons.prems(4) k e by (simp add: is_digit_def)
  next
    case False
    have "0 < length (print_json v)" using Cons.prems(3) print_json_pos[of d v] by simp
    then show ?thesis
      using Cons.prems(1)[of v k' "CHR '','' # join_with (CHR '','') (map print_json vs) @ CHR '']'' # rest"]
        Cons.IH[of k'] Cons.prems False k e
      by (simp add: is_digit_def join_with_Cons)
  qed
qed

abbreviation print_member :: "string \<times> json \<Rightarrow> string" where
  "print_member m \<equiv> (case m of (k, v) \<Rightarrow> quote k @ '':'' @ print_json v)"

lemma unquote_quoted: "unquote (tl (quote s) @ t) = Some (utf8_fix s, t)"
  by (simp add: quote_def unquote_quote)

lemma parse_members_print:
  assumes "\<And>n v k rest. (n, v) \<in> set ms \<Longrightarrow> length (print_json v) \<le> k \<Longrightarrow> ends_number rest \<Longrightarrow>
      parse_value k d (print_json v @ rest) = Some (fix_json v, rest)"
    and "ms \<noteq> []" and "length (join_with (CHR '','') (map print_member ms)) < k"
  shows "parse_members k d (join_with (CHR '','') (map print_member ms) @ CHR ''}'' # rest) =
    Some (map (map_prod utf8_fix fix_json) ms, rest)"
  using assms
proof (induction ms arbitrary: k)
  case Nil
  then show ?case by simp
next
  case (Cons m ms)
  then obtain k' where k: "k = Suc k'" by (cases k) auto
  obtain n v where m: "m = (n, v)" by (cases m)
  have e: "lower (CHR '','') \<noteq> CHR ''e''" "lower (CHR ''}'') \<noteq> CHR ''e''" by code_simp+
  have q: "skip_space (quote n @ t) = CHR 0x22 # concat (map escape (runes n)) @ CHR 0x22 # t" for t
    by (simp add: quote_def is_space_def)
  show ?case
  proof (cases "ms = []")
    case True
    then show ?thesis
      using Cons.prems(1)[of n v k' "CHR ''}'' # rest"] Cons.prems(3) k m e
      by (simp add: is_digit_def q unquote_quote expect_def is_space_def)
  next
    case False
    have "length (join_with (CHR '','') (map print_member ms)) < k'"
      using Cons.prems(3) False k m by (simp add: join_with_Cons)
    from Cons.IH[OF _ False this] have "parse_members k' d (join_with (CHR '','') (map print_member ms) @ CHR ''}'' # rest) =
        Some (map (map_prod utf8_fix fix_json) ms, rest)"
      by (metis Cons.prems(1) list.set_intros(2))
    then show ?thesis
      using Cons.prems(1)[of n v k' "CHR '','' # join_with (CHR '','') (map print_member ms) @ CHR ''}'' # rest"]
        Cons.prems(3) False k m e
      by (simp add: is_digit_def q unquote_quote expect_def is_space_def join_with_Cons)
  qed
qed

lemma parse_print:
  "json_ok d v \<Longrightarrow> length (print_json v) \<le> k \<Longrightarrow> ends_number rest \<Longrightarrow>
   parse_value k d (print_json v @ rest) = Some (fix_json v, rest)"
proof (induction v arbitrary: d k rest)
  case (JNum n)
  then obtain c s k' where n: "n = c # s" "is_digit c \<or> c = CHR ''-''" and k: "k = Suc k'"
    using is_number_hd[of n] by (cases k) auto
  have "\<not> is_space c" "c \<noteq> CHR ''[''" "c \<noteq> CHR ''{''" "c \<noteq> CHR 0x22" "c \<noteq> CHR ''n''" "c \<noteq> CHR ''t''" "c \<noteq> CHR ''f''"
    using n(2) by (auto simp: is_space_def is_digit_def)
  then show ?case using is_number_append[of n rest] JNum n(1) k by simp
next
  case (JArr vs)
  then obtain k' where k: "k = Suc k'" by (cases k) auto
  show ?case
  proof (cases vs)
    case Nil
    then show ?thesis using JArr k by (simp add: is_space_def)
  next
    case (Cons v vs')
    have ok: "list_all (json_ok (d - 1)) vs" using JArr.prems(1) by simp
    then obtain c s where "print_json v = c # s" "\<not> is_space c" "c \<noteq> CHR '']''"
      using print_json_hd[of "d - 1" v] Cons by auto
    then obtain u where "join_with (CHR '','') (map print_json vs) = c # u"
      using Cons by (cases vs') auto
    moreover have "parse_elems k' (d - 1) (join_with (CHR '','') (map print_json vs) @ CHR '']'' # rest) =
        Some (map fix_json vs, rest)"
      using JArr ok Cons k by (intro parse_elems_print) (auto simp: list_all_iff)
    ultimately show ?thesis
      using JArr.prems k \<open>\<not> is_space c\<close> \<open>c \<noteq> CHR '']''\<close> by (simp add: is_space_def)
  qed
next
  case (JObj ms)
  then obtain k' where k: "k = Suc k'" by (cases k) auto
  show ?case
  proof (cases ms)
    case Nil
    then show ?thesis using JObj k by (simp add: is_space_def)
  next
    case (Cons m ms')
    then obtain u where "join_with (CHR '','') (map print_member ms) = CHR 0x22 # u"
      by (cases m; cases ms') (auto simp: quote_def)
    moreover have "parse_members k' (d - 1) (join_with (CHR '','') (map print_member ms) @ CHR ''}'' # rest) =
        Some (map (map_prod utf8_fix fix_json) ms, rest)"
      using JObj Cons k by (intro parse_members_print) (force simp: list_all_iff)+
    ultimately show ?thesis using JObj.prems k by (simp add: is_space_def)
  qed
next
  case (JStr s)
  then obtain k' where "k = Suc k'" by (cases k) (auto simp: quote_def)
  then show ?case by (simp add: quote_def is_space_def unquote_quote)
next
  case JNull
  then obtain k' where "k = Suc k'" by (cases k) auto
  then show ?case by (simp add: is_space_def expect_def)
next
  case (JBool b)
  then obtain k' where "k = Suc k'" by (cases k) (auto split: if_splits)
  then show ?case by (simp add: is_space_def expect_def)
qed

subsection \<open>The fuel is enough\<close>

lemma scan_digits_shorter: "scan_digits s = Some (a, u) \<Longrightarrow> length u < length s"
proof -
  assume "scan_digits s = Some (a, u)"
  then have "a \<noteq> []" "s = a @ u" by (auto simp: scan_digits_def split: if_splits)
  then show ?thesis by simp
qed

lemma scan_parts_shorter:
  "scan_int s = Some (a, u) \<Longrightarrow> length u < length s"
  "scan_frac s = Some (a, u) \<Longrightarrow> length u \<le> length s"
  "scan_exp s = Some (a, u) \<Longrightarrow> length u \<le> length s"
  by (auto simp: scan_int_def scan_frac_def scan_exp_def split: list.splits if_splits dest: scan_digits_shorter)

lemma scan_number_shorter: "scan_number s = Some (a, u) \<Longrightarrow> length u < length s"
proof -
  have "length u < length s" if "scan_unsigned s = Some (a, u)" for s a u
    using that by (auto simp: scan_unsigned_def split: option.splits dest!: scan_parts_shorter)
  then show "scan_number s = Some (a, u) \<Longrightarrow> length u < length s"
    by (fastforce simp: scan_number_def split: list.splits if_splits)
qed

lemma skip_space_shorter: "length (skip_space s) \<le> length s"
  by (simp add: skip_space_def length_dropWhile_le)

lemma expect_shorter: "expect w s = Some t \<Longrightarrow> length t \<le> length s"
  by (auto simp: expect_def split: if_splits)

lemma separator_shorter: "separator c s = Some (more, t) \<Longrightarrow> length t < length s"
  using skip_space_shorter[of s] by (auto simp: separator_def split: list.splits if_splits)

lemma unquote_shorter: "unquote s = Some (x, t) \<Longrightarrow> length t < length s"
proof (induction s arbitrary: x t rule: length_induct)
  case (1 s)
  then obtain c u where s: "s = c # u" by (cases s) (auto simp: unquote.simps)
  have rec: "length t < Suc (length u)" if "unquote y = Some (a, t)" "length y \<le> length u" for y a
    using 1(1)[rule_format, of y a t] that by (simp add: s)
  have "length (drop (rune_len (c # u)) (c # u)) \<le> length u" using rune_len_pos[of "c # u"] by simp
  then show ?case using 1(2)
    by (auto simp: s unquote.simps[of "c # u"] Let_def split: if_splits list.splits option.splits dest!: rec)
qed

text \<open>What is read is shorter than the text, and fuel for the part that was read is enough.\<close>

lemma parse_uses:
  "parse_value k d s = Some (v, u) \<Longrightarrow>
    length u < length s \<and> (\<forall>m. length s - length u \<le> m \<longrightarrow> parse_value m d s = Some (v, u))"
  "parse_elems k d s = Some (vs, u) \<Longrightarrow>
    length u < length s \<and> (\<forall>m. length s - length u \<le> m \<longrightarrow> parse_elems m d s = Some (vs, u))"
  "parse_members k d s = Some (ms, u) \<Longrightarrow>
    length u < length s \<and> (\<forall>m. length s - length u \<le> m \<longrightarrow> parse_members m d s = Some (ms, u))"
proof (induction k d s and k d s and k d s arbitrary: v u and vs u and ms u
    rule: parse_value_parse_elems_parse_members.induct)
  case (2 k d s)
  note IH = 2(1,2) and res = 2(3)
  obtain c t where t: "skip_space s = c # t" using res by (cases "skip_space s") auto
  have le: "Suc (length t) \<le> length s" using skip_space_shorter[of s] t by simp
  have m: "\<exists>m'. m = Suc m' \<and> length t - length u \<le> m'" if "length s - length u \<le> m" "length u < length t" for m
    using that le by (cases m) auto
  consider "c = CHR ''[''" | "c = CHR ''{''" | "c \<noteq> CHR ''[''" "c \<noteq> CHR ''{''" by blast
  then show ?case
  proof cases
    case 1
    obtain e w where e: "d \<noteq> 0" "skip_space t = e # w" using res t 1 by (cases "skip_space t") (auto split: if_splits)
    have "length u < length t \<and> (\<forall>m. length t - length u \<le> m \<longrightarrow> parse_value (Suc m) d s = Some (v, u))"
    proof (cases "e = CHR '']''")
      case True
      then show ?thesis using res t e 1 skip_space_shorter[of t] by auto
    next
      case False
      then obtain vs where vs: "parse_elems k (d - 1) t = Some (vs, u)" "v = JArr vs" using res t e 1 by auto
      then show ?thesis using IH(1)[OF t 1 e(1,2) False vs(1)] t e 1 False by simp
    qed
    then show ?thesis using le m by fastforce
  next
    case 2
    obtain e w where e: "d \<noteq> 0" "skip_space t = e # w" using res t 2 by (cases "skip_space t") (auto split: if_splits)
    have "length u < length t \<and> (\<forall>m. length t - length u \<le> m \<longrightarrow> parse_value (Suc m) d s = Some (v, u))"
    proof (cases "e = CHR ''}''")
      case True
      then show ?thesis using res t e 2 skip_space_shorter[of t] by auto
    next
      case False
      then obtain ms where ms: "parse_members k (d - 1) t = Some (ms, u)" "v = JObj ms" using res t e 2 by auto
      then show ?thesis using IH(2)[OF t _ 2 e(1,2) False ms(1)] t e 2 False by simp
    qed
    then show ?thesis using le m by fastforce
  next
    case 3
    have "length u < length s"
      using res t 3 le by (auto split: if_splits dest: unquote_shorter expect_shorter scan_number_shorter)
    moreover have "parse_value (Suc m) d s = parse_value (Suc k) d s" for m using t 3 by simp
    moreover have "\<exists>m'. m = Suc m'" if "length s - length u \<le> m" "length u < length s" for m
      using that by (cases m) auto
    ultimately show ?thesis using res by metis
  qed
next
  case (4 k d s)
  obtain v r where v: "parse_value k d s = Some (v, r)" using 4(3) by (cases "parse_value k d s") auto
  obtain more r' where r': "separator (CHR '']'') r = Some (more, r')" using 4(3) v by (cases "separator (CHR '']'') r") auto
  note lv = 4(1)[OF v] and lr = separator_shorter[OF r']
  show ?case
  proof (cases more)
    case True
    then obtain vs' where vs': "parse_elems k d r' = Some (vs', u)" "vs = v # vs'" using 4(3) v r' by auto
    note lu = 4(2)[OF v refl r' refl True vs'(1)]
    have "\<exists>m'. m = Suc m' \<and> length s - length r \<le> m' \<and> length r' - length u \<le> m'" if "length s - length u \<le> m" for m
      using that lv lr lu by (cases m) auto
    then show ?thesis using lv lr lu v r' vs' True by fastforce
  next
    case False
    have "\<exists>m'. m = Suc m' \<and> length s - length r \<le> m'" if "length s - length r' \<le> m" for m
      using that lv lr by (cases m) auto
    then show ?thesis using lv lr 4(3) v r' False by fastforce
  qed
next
  case (6 k d s)
  note IH = 6(1,2) and res = 6(3)
  obtain t where t: "skip_space s = CHR 0x22 # t" using res by (cases "skip_space s") (auto split: if_splits)
  obtain key x where x: "unquote t = Some (key, x)" using res t by (cases "unquote t") auto
  obtain y where y: "expect '':'' (skip_space x) = Some y" using res t x by (cases "expect '':'' (skip_space x)") auto
  obtain v r where v: "parse_value k d y = Some (v, r)" using res t x y by (cases "parse_value k d y") auto
  obtain more r' where r': "separator (CHR ''}'') r = Some (more, r')"
    using res t x y v by (cases "separator (CHR ''}'') r") auto
  have ly: "length y < length s"
    using skip_space_shorter[of s] t unquote_shorter[OF x] expect_shorter[OF y] skip_space_shorter[of x] by simp
  note lv = IH(1)[OF t _ x refl y v, simplified] and lr = separator_shorter[OF r']
  show ?case
  proof (cases more)
    case True
    then obtain ms' where ms': "parse_members k d r' = Some (ms', u)" "ms = (key, v) # ms'" using res t x y v r' by auto
    note lu = IH(2)[OF t _ x refl y v refl r' refl True ms'(1), simplified]
    have "\<exists>m'. m = Suc m' \<and> length y - length r \<le> m' \<and> length r' - length u \<le> m'" if "length s - length u \<le> m" for m
      using that lv lr lu ly by (cases m) auto
    then show ?thesis using lv lr lu ly t x y v r' ms' True by fastforce
  next
    case False
    have "\<exists>m'. m = Suc m' \<and> length y - length r \<le> m'" if "length s - length r' \<le> m" for m
      using that lv lr ly by (cases m) auto
    then show ?thesis using lv lr ly res t x y v r' False by fastforce
  qed
qed simp_all

text \<open>
  Parsing takes no more fuel than the text has characters: with any larger amount the result is the
  same, a value or a syntax error, so \<open>parse_json\<close> never fails for want of fuel.
\<close>

theorem parse_json_fuel:
  assumes "length s \<le> k" shows "parse_value k maxNestingDepth s = parse_json s"
proof (cases "parse_value k maxNestingDepth s")
  case None
  have "parse_value (length s) maxNestingDepth s = None"
    using None parse_uses(1)[of "length s" maxNestingDepth s] assms by (cases "parse_value (length s) maxNestingDepth s") fastforce+
  then show ?thesis using None by (simp add: parse_json_def)
next
  case (Some r)
  then show ?thesis
    using parse_uses(1)[of k maxNestingDepth s "fst r" "snd r"] by (auto simp: parse_json_def)
qed

lemma parse_json_fuel_witness:
  "parse_value 1000 maxNestingDepth ''[1, true]'' = Some (JArr [JNum ''1'', JBool True], [])"
proof -
  have "length ''[1, true]'' \<le> 1000" by simp
  moreover have "parse_json ''[1, true]'' = Some (JArr [JNum ''1'', JBool True], [])" by code_simp
  ultimately show ?thesis using parse_json_fuel[of "''[1, true]''" 1000] by metis
qed

subsection \<open>What is read is UTF-8\<close>

text \<open>An escape gives a rune, and so a string that was read is UTF-8 however it was written.\<close>

lemma whole_encode_rune:
  assumes "0 \<le> r" and "r < 0x110000" and "\<not> is_surrogate r"
  shows "whole_rune (encode_rune r)"
proof -
  consider "r < 0x80" | "0x80 \<le> r" "r < 0x800" | "0x800 \<le> r" "r < 0x10000" | "0x10000 \<le> r" by linarith
  then show ?thesis
  proof cases
    case 1
    then show ?thesis using assms(1) by (simp add: encode_rune_def whole_ascii is_ascii_def)
  next
    case 2
    then have "2 \<le> r div 64" "r div 64 < 32" by auto
    then show ?thesis using 2 whole_two[of "r div 64" "r mod 64"] by (simp add: encode_rune_def)
  next
    case 3
    define a b c where abc: "a = r div 4096" "b = r div 64 mod 64" "c = r mod 64"
    have d: "r = 4096 * a + 64 * b + c" by (rule two_digits) (simp_all add: abc)
    have r: "0 \<le> b" "b < 64" "0 \<le> c" "c < 64" "0 \<le> a" "a < 16" using 3 by (simp_all add: abc)
    then have "a = 0 \<Longrightarrow> 32 \<le> b" "a = 13 \<Longrightarrow> b \<le> 31" using d 3 assms(3) by (auto simp: is_surrogate_def)
    then have "whole_rune [char_of (224 + a), char_of (128 + b), char_of (128 + c)]" using r by (intro whole_three)
    then show ?thesis using 3 by (simp add: encode_rune_def abc)
  next
    case 4
    define a b c d where abc: "a = r div 262144" "b = r div 4096 mod 64" "c = r div 64 mod 64" "d = r mod 64"
    have e: "r = 262144 * a + 4096 * b + 64 * c + d" by (rule three_digits) (simp_all add: abc)
    have r: "0 \<le> b" "b < 64" "0 \<le> c" "c < 64" "0 \<le> d" "d < 64" "0 \<le> a" "a < 5" using 4 assms(2) by (simp_all add: abc)
    then have "a = 0 \<Longrightarrow> 16 \<le> b" "a = 4 \<Longrightarrow> b \<le> 15" using e 4 assms(2) by auto
    then have "whole_rune [char_of (240 + a), char_of (128 + b), char_of (128 + c), char_of (128 + d)]"
      using r by (intro whole_four)
    then show ?thesis using 4 by (simp add: encode_rune_def abc)
  qed
qed

lemma whole_escaped_rune: "0 \<le> r \<Longrightarrow> r < 0x10000 \<Longrightarrow> whole_rune (fst (escaped_rune r s))"
proof -
  have "\<not> is_surrogate (0x10000 + (r - 0xD800) * 1024 + (r1 - 0xDC00))" if "0xD800 \<le> r" "0xDC00 \<le> r1" for r1
    using that by (simp add: is_surrogate_def)
  then show "0 \<le> r \<Longrightarrow> r < 0x10000 \<Longrightarrow> whole_rune (fst (escaped_rune r s))"
    by (auto simp: escaped_rune_def whole_encode_rune whole_replacement is_surrogate_def split: option.split intro!: whole_encode_rune)
qed

lemma hex4_bounds:
  assumes "hex4 s = Some r" shows "0 \<le> r \<and> r < 0x10000"
proof -
  have h: "0 \<le> hex_val c \<and> hex_val c < 16" if "is_digit c \<or> is_hex_letter c" for c
    using that by (auto simp: hex_val_def is_digit_def is_hex_letter_def digit_val_def Let_def)
  obtain a b c d where t: "take 4 s = [a, b, c, d]" "\<forall>e\<in>{a, b, c, d}. is_digit e \<or> is_hex_letter e"
    using assms by (auto simp: hex4_def Let_def length_Suc_conv numeral_eq_Suc split: if_splits)
  then have "r = 16 * (16 * (16 * hex_val a + hex_val b) + hex_val c) + hex_val d"
    using assms by (simp add: hex4_def Let_def split: if_splits)
  then show ?thesis using t(2) h[of a] h[of b] h[of c] h[of d] by auto
qed

lemma unquote_utf8: "unquote s = Some (x, t) \<Longrightarrow> utf8_ok x"
proof (induction s arbitrary: x t rule: length_induct)
  case (1 s)
  then obtain c u where s: "s = c # u" by (cases s) (auto simp: unquote.simps)
  have rec: "utf8_ok a" if "unquote y = Some (a, t)" "length y \<le> length u" for y a t
    using 1(1)[rule_format, of y a t] that by (simp add: s)
  have nil: "utf8_ok []" by (simp add: utf8_ok_def)
  have cons: "is_ascii d \<Longrightarrow> utf8_ok a \<Longrightarrow> utf8_ok (d # a)" for d a
    using utf8_ok_whole[OF whole_ascii, of d a] by simp
  have esc: "is_ascii d" if "simple_escape e = Some d" for d e
    using that by (auto simp: simple_escape_def is_ascii_def byte_of_def split: if_splits)
  have "length (drop (rune_len (c # u)) (c # u)) \<le> length u" using rune_len_pos[of "c # u"] by simp
  then show ?case using 1(2)
    by (auto simp: s unquote.simps[of "c # u"] Let_def utf8_ok_whole whole_replacement whole_escaped_rune whole_first[of c u, simplified]
        split: if_splits list.splits option.splits dest!: rec hex4_bounds intro: nil cons esc)
qed

text \<open>A value all of whose strings and names are UTF-8.\<close>

fun json_utf8 :: "json \<Rightarrow> bool" where
  "json_utf8 (JStr s) = utf8_ok s"
| "json_utf8 (JArr vs) = list_all json_utf8 vs"
| "json_utf8 (JObj ms) = list_all (\<lambda>(k, v). utf8_ok k \<and> json_utf8 v) ms"
| "json_utf8 _ = True"

lemma parse_utf8:
  "parse_value k d s = Some (v, u) \<Longrightarrow> json_utf8 v"
  "parse_elems k d s = Some (vs, u) \<Longrightarrow> list_all json_utf8 vs"
  "parse_members k d s = Some (ms, u) \<Longrightarrow> list_all (\<lambda>(k, v). utf8_ok k \<and> json_utf8 v) ms"
proof (induction k d s and k d s and k d s arbitrary: v u and vs u and ms u
    rule: parse_value_parse_elems_parse_members.induct)
  case (2 k d s)
  note IH = 2(1,2) and res = 2(3)
  obtain c t where t: "skip_space s = c # t" using res by (cases "skip_space s") auto
  consider "c = CHR ''[''" | "c = CHR ''{''" | "c \<noteq> CHR ''[''" "c \<noteq> CHR ''{''" by blast
  then show ?case
  proof cases
    case 1
    obtain e w where e: "d \<noteq> 0" "skip_space t = e # w" using res t 1 by (cases "skip_space t") (auto split: if_splits)
    then show ?thesis using res t 1 IH(1)[OF t 1 e] by (auto split: if_splits)
  next
    case 2
    obtain e w where e: "d \<noteq> 0" "skip_space t = e # w" using res t 2 by (cases "skip_space t") (auto split: if_splits)
    then show ?thesis using res t 2 IH(2)[OF t _ 2 e] by (auto split: if_splits)
  next
    case 3
    then show ?thesis using res t by (auto split: if_splits dest: unquote_utf8)
  qed
next
  case (4 k d s)
  obtain v r where v: "parse_value k d s = Some (v, r)" using 4(3) by (cases "parse_value k d s") auto
  obtain more r' where r': "separator (CHR '']'') r = Some (more, r')" using 4(3) v by (cases "separator (CHR '']'') r") auto
  show ?case using 4(1)[OF v] 4(2)[OF v refl r' refl] 4(3) v r' by (auto split: if_splits)
next
  case (6 k d s)
  note IH = 6(1,2) and res = 6(3)
  obtain t where t: "skip_space s = CHR 0x22 # t" using res by (cases "skip_space s") (auto split: if_splits)
  obtain key x where x: "unquote t = Some (key, x)" using res t by (cases "unquote t") auto
  obtain y where y: "expect '':'' (skip_space x) = Some y" using res t x by (cases "expect '':'' (skip_space x)") auto
  obtain v r where v: "parse_value k d y = Some (v, r)" using res t x y by (cases "parse_value k d y") auto
  obtain more r' where r': "separator (CHR ''}'') r = Some (more, r')"
    using res t x y v by (cases "separator (CHR ''}'') r") auto
  have "json_utf8 v" using IH(1)[OF t _ x refl y v] by simp
  moreover have "utf8_ok key" using x by (rule unquote_utf8)
  moreover have "list_all (\<lambda>(k, v). utf8_ok k \<and> json_utf8 v) ms'" if "more" "parse_members k d r' = Some (ms', u)" for ms'
    using IH(2)[OF t _ x refl y v refl r' refl that] by simp
  ultimately show ?case using res t x y v r' by (auto split: if_splits)
qed simp_all

lemma parse_json_utf8: "parse_json s = Some (v, u) \<Longrightarrow> json_utf8 v"
  unfolding parse_json_def by (rule parse_utf8(1))

end
