(* ===== verification/GoFormat.thy ===== *)
theory GoFormat
  imports GoJson
begin

text \<open>
  The numbers \<open>encoding/json\<close> writes: \<open>strconv.FormatFloat(f, _, -1, 64)\<close>, which takes the smallest number of
  digits \<open>ParseFloat\<close> reads back as \<open>f\<close>, in the notation the encoder chooses, and \<open>ParseInt(s, 10, 64)\<close>.
\<close>

subsection \<open>Integers\<close>

definition parse_int :: "string \<Rightarrow> int res" where
  "parse_int s =
     (case read_sign s of (neg, t) \<Rightarrow>
        if t = [] then Inl num_syntax
        else case parse_uint_from 0 t of
            Inl e \<Rightarrow> Inl e
          | Inr n \<Rightarrow>
              if neg then (if n > 2 ^ 63 then Inl num_range else Inr (- n))
              else if n \<ge> 2 ^ 63 then Inl num_range else Inr n)"

subsection \<open>Floating-point numbers\<close>

text \<open>The value of the bit pattern of a positive finite number, as a fraction.\<close>

definition f64_frac :: "int \<Rightarrow> int \<times> int" where
  "f64_frac b =
     (let ex = b div 2 ^ 52; fr = b mod 2 ^ 52;
          m = (if ex = 0 then fr else fr + 2 ^ 52);
          e = (if ex = 0 then - 1074 else ex - 1075)
      in (m * 2 ^ nat e, 2 ^ nat (- e)))"

text \<open>How many digits a positive fraction has before the point; zeros behind the point count negative.\<close>

definition decimal_point :: "int \<Rightarrow> int \<Rightarrow> int" where
  "decimal_point num den =
     (if num \<ge> den then int (length (dec_digits (num div den)))
      else 1 - int (length (dec_digits ((den - 1) div num))))"

definition strip_zeros :: "string \<Rightarrow> string" where
  "strip_zeros s = rev (dropWhile (\<lambda>c. c = CHR ''0'') (rev s))"

text \<open>Digits with the point at \<open>dp\<close>: the notations \<open>'f'\<close> and \<open>'e'\<close>, the exponent without a leading zero.\<close>

definition place_f :: "string \<Rightarrow> int \<Rightarrow> string" where
  "place_f ds dp =
     (if dp \<le> 0 then ''0.'' @ replicate (nat (- dp)) (CHR ''0'') @ ds
      else if nat dp < length ds then take (nat dp) ds @ ''.'' @ drop (nat dp) ds
      else ds @ replicate (nat dp - length ds) (CHR ''0''))"

definition place_e :: "string \<Rightarrow> int \<Rightarrow> string" where
  "place_e ds dp =
     [hd ds] @ (if tl ds = [] then [] else ''.'' @ tl ds) @ ''e'' @ (if dp < 1 then ''-'' else ''+'') @
     dec_digits \<bar>dp - 1\<bar>"

text \<open>The text of \<open>q\<close> times ten to the \<open>x\<close>; \<open>small\<close> or \<open>large\<close> numbers get an exponent.\<close>

definition decimal_text :: "bool \<Rightarrow> int \<Rightarrow> int \<Rightarrow> string" where
  "decimal_text expo q x =
     (let ds = dec_digits q; dp = int (length ds) + x
      in (if expo then place_e else place_f) (strip_zeros ds) dp)"

text \<open>The text with \<open>n\<close> digits that reads back as \<open>w\<close>: of two the nearer one.\<close>

definition digits_text :: "float64 \<Rightarrow> bool \<Rightarrow> string \<Rightarrow> int \<Rightarrow> int \<Rightarrow> int \<Rightarrow> string option" where
  "digits_text w expo sign num den n =
     (let dp = decimal_point num den;
          a = num * 10 ^ nat (n - dp); d = den * 10 ^ nat (dp - n);
          q = a div d; r = a mod d;
          down = sign @ decimal_text expo q (dp - n); up = sign @ decimal_text expo (q + 1) (dp - n);
          good = (\<lambda>t. parse_float t = Inr w)
      in if good down \<and> \<not> (good up \<and> (2 * r > d \<or> 2 * r = d \<and> odd q)) then Some down
         else if good up then Some up else None)"

primrec shortest_text :: "nat \<Rightarrow> float64 \<Rightarrow> bool \<Rightarrow> string \<Rightarrow> int \<Rightarrow> int \<Rightarrow> int \<Rightarrow> string option" where
  "shortest_text 0 w expo sign num den n = None"
| "shortest_text (Suc k) w expo sign num den n =
     (case digits_text w expo sign num den n of
        Some t \<Rightarrow> Some t
      | None \<Rightarrow> shortest_text k w expo sign num den (n + 1))"

text \<open>The bounds of the notation without an exponent, \<open>1e-6\<close> and \<open>1e21\<close>.\<close>

definition f64_1em6 :: int where "f64_1em6 = 0x3eb0c6f7a0b5ed8d"
definition f64_1e21 :: int where "f64_1e21 = 0x444b1ae4d6e2ef50"

text \<open>
  The encoder's text of a number: none for infinities and NaN, which it refuses. Seventeen digits
  are enough for every other one.
\<close>

definition json_float :: "float64 \<Rightarrow> string option" where
  "json_float w =
     (let sign = (if uint w \<ge> 2 ^ 63 then ''-'' else []); b = uint w mod 2 ^ 63
      in if b \<ge> f64_inf then None
         else if b = 0 then Some (sign @ ''0'')
         else case f64_frac b of (num, den) \<Rightarrow> shortest_text 17 w (b < f64_1em6 \<or> b \<ge> f64_1e21) sign num den 1)"

lemma f64_bounds: "parse_float ''1e-6'' = Inr (of_int f64_1em6)" "parse_float ''1e21'' = Inr (of_int f64_1e21)"
  by code_simp+

subsection \<open>Laws\<close>

lemma dec_digits_hd: "0 < n \<Longrightarrow> hd (dec_digits n) \<noteq> CHR ''0''"
proof (induction n rule: dec_digits.induct)
  case (1 n)
  have "digit_char d \<noteq> CHR ''0''" if "0 < d" "d < 10" for d
  proof -
    have "digit_val (CHR ''0'') = 0" by code_simp
    then show ?thesis using that digit_char_val[of d] by force
  qed
  then show ?case using 1 by (subst dec_digits.simps) auto
qed

lemma digits_scan:
  assumes "list_all is_digit ds" and "ds \<noteq> []"
  shows "scan_digits ds = Some (ds, [])" and "\<not> is_digit c \<Longrightarrow> scan_digits (ds @ c # t) = Some (ds, c # t)"
proof -
  have t: "takeWhile is_digit (ds @ u) = ds @ takeWhile is_digit u \<and> dropWhile is_digit (ds @ u) = dropWhile is_digit u" for u
    using assms(1) by (induction ds) auto
  show "scan_digits ds = Some (ds, [])"
    using t[of "[]"] assms(2) by (metis append_Nil2 dropWhile.simps(1) scan_digits_def takeWhile.simps(1))
  show "scan_digits (ds @ c # t) = Some (ds, c # t)" if "\<not> is_digit c"
    using t[of "c # t"] that assms(2) by (simp add: scan_digits_def)
qed

text \<open>A numeral: digits without a leading zero, or the zero.\<close>

lemma dec_is_number:
  assumes "0 \<le> n" shows "scan_int (dec_digits n) = Some (dec_digits n, [])"
proof (cases "n = 0")
  case True
  then show ?thesis by simp code_simp
next
  case False
  then have "hd (dec_digits n) \<noteq> CHR ''0''" using assms by (intro dec_digits_hd) simp
  moreover have "scan_digits (dec_digits n) = Some (dec_digits n, [])"
    using dec_digits_chars[OF assms] by (intro digits_scan) (auto simp: list_all_iff)
  ultimately show ?thesis by (cases "dec_digits n") (auto simp: scan_int_def)
qed

lemma scan_unsigned_dec: "0 \<le> n \<Longrightarrow> scan_unsigned (dec_digits n) = Some (dec_digits n, [])"
  by (simp add: scan_unsigned_def dec_is_number scan_frac_def scan_exp_def)

lemma scan_number_minus [simp]: "scan_number (CHR ''-'' # s) = map_option (apfst ((#) (CHR ''-''))) (scan_unsigned s)"
  by (simp add: scan_number_def)

lemma scan_number_unsigned: "scan_unsigned s = Some (s, []) \<Longrightarrow> scan_number s = Some (s, [])"
  by (cases s) (auto simp: scan_number_def scan_unsigned_def scan_int_def scan_digits_def is_digit_def split: if_splits option.splits)

lemma is_number_uint [simp]: "is_number (format_uint w)"
  by (simp add: is_number_def format_uint_def scan_number_unsigned scan_unsigned_dec)

lemma is_number_int [simp]: "is_number (format_int i)"
  by (simp add: is_number_def format_int_def scan_number_unsigned scan_unsigned_dec)

lemma parse_format_int:
  assumes "- (2 ^ 63) \<le> i" and "i < 2 ^ 63" shows "parse_int (format_int i) = Inr i"
proof -
  have "read_sign (dec_digits n) = (False, dec_digits n)" if "0 \<le> n" for n
    using dec_digits_chars[OF that, of "hd (dec_digits n)"] by (cases "dec_digits n") (auto simp: read_sign_def is_digit_def)
  then show ?thesis using assms
    by (auto simp: parse_int_def format_int_def parse_dec_digits read_sign_def)
qed

lemma digits_text_good: "digits_text w expo sign num den n = Some t \<Longrightarrow> parse_float t = Inr w"
  by (auto simp: digits_text_def Let_def split: if_splits)

lemma shortest_text_good: "shortest_text k w expo sign num den n = Some t \<Longrightarrow> parse_float t = Inr w"
  by (induction k arbitrary: n) (auto split: option.splits dest: digits_text_good)

text \<open>The digits of a written number: not none, and no zero in front.\<close>

definition numeral_ok :: "string \<Rightarrow> bool" where
  "numeral_ok ds \<longleftrightarrow> ds \<noteq> [] \<and> list_all is_digit ds \<and> hd ds \<noteq> CHR ''0''"

lemma strip_zeros_ok:
  assumes "numeral_ok ds" shows "numeral_ok (strip_zeros ds)"
proof -
  obtain c s where ds: "ds = c # s" "c \<noteq> CHR ''0''" using assms by (cases ds) (auto simp: numeral_ok_def)
  have "strip_zeros ds = c # strip_zeros s"
    using ds by (auto simp: strip_zeros_def dropWhile_append)
  moreover have "set (strip_zeros s) \<subseteq> set s"
    by (auto simp: strip_zeros_def dest: set_dropWhileD)
  ultimately show ?thesis using assms ds by (auto simp: numeral_ok_def list_all_iff)
qed

lemma numeral_scan:
  assumes "numeral_ok ds"
  shows "scan_int ds = Some (ds, [])" and "\<not> is_digit c \<Longrightarrow> scan_int (ds @ c # t) = Some (ds, c # t)"
  using assms digits_scan[of ds] by (cases ds; auto simp: numeral_ok_def scan_int_def)+

lemma place_f_number:
  assumes "numeral_ok ds" shows "scan_unsigned (place_f ds dp) = Some (place_f ds dp, [])"
proof -
  have ds: "list_all is_digit ds" "ds \<noteq> []" and z: "is_digit (CHR ''0'')" "\<not> is_digit (CHR ''.'')"
    using assms by (auto simp: numeral_ok_def is_digit_def)
  consider "dp \<le> 0" | "0 < dp" "nat dp < length ds" | "0 < dp" "length ds \<le> nat dp" by linarith
  then show ?thesis
  proof cases
    case 1
    have "scan_digits (replicate n (CHR ''0'') @ ds) = Some (replicate n (CHR ''0'') @ ds, [])" for n
      using ds z by (intro digits_scan(1)) (auto simp: list_all_iff)
    then show ?thesis using 1 by (simp add: place_f_def scan_unsigned_def scan_int_def scan_frac_def scan_exp_def)
  next
    case 2
    have "numeral_ok (take (nat dp) ds)"
      using assms 2 by (auto simp: numeral_ok_def list_all_iff dest: in_set_takeD)
    moreover have "scan_digits (drop (nat dp) ds) = Some (drop (nat dp) ds, [])"
      using ds 2 by (intro digits_scan(1)) (auto simp: list_all_iff dest: in_set_dropD)
    ultimately show ?thesis
      using 2 z(2) numeral_scan(2)[of "take (nat dp) ds" "CHR ''.''" "drop (nat dp) ds"]
      by (simp add: place_f_def scan_unsigned_def scan_frac_def scan_exp_def)
  next
    case 3
    have "numeral_ok (ds @ replicate n (CHR ''0''))" for n
      using assms z by (cases ds) (auto simp: numeral_ok_def list_all_iff)
    then show ?thesis
      using 3 numeral_scan(1) by (simp add: place_f_def scan_unsigned_def scan_frac_def scan_exp_def)
  qed
qed

lemma place_e_number:
  assumes "numeral_ok ds" shows "scan_unsigned (place_e ds dp) = Some (place_e ds dp, [])"
proof -
  obtain c s where ds: "ds = c # s" "is_digit c" "c \<noteq> CHR ''0''" "list_all is_digit s"
    using assms by (cases ds) (auto simp: numeral_ok_def)
  have z: "\<not> is_digit (CHR ''.'')" "\<not> is_digit (CHR ''e'')" "lower (CHR ''e'') = CHR ''e''" by code_simp+
  let ?x = "dec_digits \<bar>dp - 1\<bar>"
  define d where "d = (if dp < 1 then CHR ''-'' else CHR ''+'')"
  have x: "scan_digits ?x = Some (?x, [])"
    using dec_digits_chars[of "\<bar>dp - 1\<bar>"] by (intro digits_scan(1)) (auto simp: list_all_iff)
  have e: "scan_exp (CHR ''e'' # d # ?x) = Some (CHR ''e'' # d # ?x, [])"
    using x z by (simp add: scan_exp_def d_def)
  have p: "place_e ds dp = c # (if s = [] then [] else CHR ''.'' # s) @ CHR ''e'' # d # ?x"
    by (simp add: place_e_def ds(1) d_def)
  have n: "numeral_ok [c]" using ds by (simp add: numeral_ok_def)
  show ?thesis
  proof (cases "s = []")
    case True
    then show ?thesis
      using e numeral_scan(2)[OF n z(2), of "d # ?x"] by (simp add: p scan_unsigned_def scan_frac_def)
  next
    case False
    then show ?thesis
      using e numeral_scan(2)[OF n z(1)] digits_scan(2)[OF ds(4) False z(2)]
      by (simp add: p scan_unsigned_def scan_frac_def)
  qed
qed

lemma decimal_text_number:
  assumes "0 < q" shows "scan_unsigned (decimal_text expo q x) = Some (decimal_text expo q x, [])"
proof -
  have "numeral_ok (dec_digits q)"
    using assms dec_digits_hd dec_digits_chars[of q] by (auto simp: numeral_ok_def list_all_iff)
  from strip_zeros_ok[OF this] show ?thesis
    by (simp add: decimal_text_def Let_def place_e_number place_f_number)
qed

lemma dec_digits_length:
  assumes "0 < n" shows "10 ^ (length (dec_digits n) - 1) \<le> n \<and> n < 10 ^ length (dec_digits n)"
  using assms
proof (induction n rule: dec_digits.induct)
  case (1 n)
  show ?case
  proof (cases "n < 10")
    case True
    then show ?thesis using 1 by (simp add: dec_digits.simps[of n])
  next
    case False
    then obtain k where k: "length (dec_digits (n div 10)) = Suc k" by (cases "dec_digits (n div 10)") auto
    have "10 ^ k \<le> n div 10" "n div 10 < 10 ^ Suc k" using 1 False k by auto
    moreover have "10 * p \<le> n" if "p \<le> n div 10" for p using that by presburger
    moreover have "n < 10 * p" if "n div 10 < p" for p using that by presburger
    ultimately have "10 ^ Suc k \<le> n" "n < 10 ^ Suc (Suc k)" by simp_all
    then show ?thesis using False k by (simp add: dec_digits.simps[of n])
  qed
qed

text \<open>The number has its first digit where \<open>decimal_point\<close> says, so \<open>n\<close> digits of it are no zero.\<close>

lemma leading_digits_pos:
  assumes "0 < num" and "0 < den" and "0 < n" and "dp = decimal_point num den"
  shows "0 < num * 10 ^ nat (n - dp) div (den * 10 ^ nat (dp - n))"
proof -
  have "den * 10 ^ nat (dp - n) \<le> num * 10 ^ nat (n - dp)"
  proof (cases "num \<ge> den")
    case True
    then have pos: "0 < num div den" using assms by (simp add: pos_imp_zdiv_pos_iff)
    have dp: "dp = int (length (dec_digits (num div den)))" using True assms(4) by (simp add: decimal_point_def)
    then have "nat (dp - n) \<le> length (dec_digits (num div den)) - 1" using assms(3) by linarith
    then have "(10 :: int) ^ nat (dp - n) \<le> num div den"
      using dec_digits_length[OF pos] by (meson order_trans power_increasing one_le_numeral)
    then have "den * 10 ^ nat (dp - n) \<le> den * (num div den)" using assms(2) by simp
    also have "\<dots> \<le> num"
      using mult_div_mod_eq[of den num] pos_mod_sign[of den num] assms(2) by linarith
    also have "num \<le> num * 10 ^ nat (n - dp)" using assms(1) by simp
    finally show ?thesis .
  next
    case False
    let ?k = "length (dec_digits ((den - 1) div num))"
    have pos: "0 < (den - 1) div num" using False assms by (simp add: pos_imp_zdiv_pos_iff)
    have "(den - 1) div num < 10 ^ ?k" using dec_digits_length[OF pos] by simp
    then have "num * ((den - 1) div num + 1) \<le> num * 10 ^ ?k" using assms(1) by (intro mult_left_mono) auto
    moreover have "den - 1 < num * ((den - 1) div num + 1)"
      using mult_div_mod_eq[of num "den - 1"] pos_mod_bound[OF assms(1), of "den - 1"]
      unfolding distrib_left mult_1_right by linarith
    ultimately have "den - 1 < num * 10 ^ ?k" by linarith
    then have "den \<le> num * 10 ^ ?k" by simp
    moreover have dp: "dp = 1 - int ?k" using False assms(4) by (simp add: decimal_point_def)
    moreover have "num * 10 ^ ?k \<le> num * 10 ^ nat (n - dp)"
      using assms(1,3) dp by (intro mult_left_mono power_increasing) auto
    moreover have "nat (dp - n) = 0"
      using dp assms(3) by (cases "dec_digits ((den - 1) div num)") auto
    ultimately show ?thesis by simp
  qed
  then show ?thesis using assms(1,2) by (simp add: pos_imp_zdiv_pos_iff)
qed

lemma digits_text_number:
  assumes "digits_text w expo sign num den n = Some t" and "0 < num" and "0 < den" and "0 < n" and "sign \<in> {[], ''-''}"
  shows "is_number t"
proof -
  obtain q x where t: "t = sign @ decimal_text expo q x" "0 < q"
    using assms(1) leading_digits_pos[OF assms(2-4) refl] by (auto simp: digits_text_def Let_def split: if_splits)
  then show ?thesis
    using decimal_text_number[OF t(2), of expo x] assms(5) by (auto simp: is_number_def scan_number_unsigned)
qed

lemma shortest_text_number:
  "shortest_text k w expo sign num den n = Some t \<Longrightarrow> 0 < num \<Longrightarrow> 0 < den \<Longrightarrow> 0 < n \<Longrightarrow> sign \<in> {[], ''-''} \<Longrightarrow>
   is_number t"
  by (induction k arbitrary: n) (auto split: option.splits dest: digits_text_number)

lemma zero_magnitude:
  assumes "uint (w :: uint64) mod 0x8000000000000000 = 0" shows "w = 0 \<or> w = 0x8000000000000000"
proof -
  define u where "u = uint w"
  have "0 \<le> u" by (simp add: u_def)
  moreover have "u < 18446744073709551616" using unsigned_less[of w, where ?'a = int] by (simp add: u_def)
  moreover have "u mod 9223372036854775808 = 0" unfolding u_def by (rule assms)
  then obtain k where k: "u = 9223372036854775808 * k" by (metis mod_eq_0_iff_dvd dvdE)
  ultimately have "0 \<le> k" "k < 2" by linarith+
  then have "k = 0 \<or> k = 1" by linarith
  then have "u = 0 \<or> u = 9223372036854775808" using k by auto
  moreover have "w = of_int u" by (simp add: u_def)
  ultimately show ?thesis by auto
qed

lemma f64_frac_pos:
  assumes "f64_frac b = (num, den)" and "0 < b" shows "0 < num \<and> 0 < den"
proof -
  let ?m = "if b div 2 ^ 52 = 0 then b mod 2 ^ 52 else b mod 2 ^ 52 + 2 ^ 52"
  have "0 < b mod 2 ^ 52" if "b div 2 ^ 52 = 0"
    using that assms(2) by (metis div_mult_mod_eq add_0 mult_zero_left)
  moreover have "0 \<le> b mod 2 ^ 52" by simp
  ultimately have "0 < ?m" by auto
  then show ?thesis using assms(1) by (auto simp: f64_frac_def Let_def zero_less_mult_iff simp del: power_numeral)
qed

lemma json_float_good:
  assumes "json_float w = Some t" shows "is_number t \<and> parse_float t = Inr w"
proof -
  let ?b = "uint w mod 2 ^ 63"
  show ?thesis
  proof (cases "?b = 0")
    case True
    then have "w = 0 \<or> w = 0x8000000000000000" by (intro zero_magnitude) simp
    moreover have "json_float 0 = Some ''0''" "json_float 0x8000000000000000 = Some ''-0''" by code_simp+
    moreover have "is_number ''0''" "is_number ''-0''" "parse_float ''0'' = Inr 0"
      "parse_float ''-0'' = Inr 0x8000000000000000" by code_simp+
    ultimately show ?thesis using assms by auto
  next
    case False
    obtain num den where f: "f64_frac ?b = (num, den)" by (cases "f64_frac ?b")
    have "0 \<le> ?b" by simp
    then have "0 < num \<and> 0 < den" using f64_frac_pos[OF f] False by linarith
    moreover have "shortest_text 17 w (?b < f64_1em6 \<or> ?b \<ge> f64_1e21) (if uint w \<ge> 2 ^ 63 then ''-'' else []) num den 1 = Some t"
      using assms False f by (simp add: json_float_def Let_def split: if_splits)
    ultimately show ?thesis using shortest_text_number[of 17 w] shortest_text_good[of 17 w] by auto
  qed
qed

end
