(* ===== verification/GoBase64.thy ===== *)
theory GoBase64
  imports GoBase
begin

text \<open>
  \<open>base64.StdEncoding\<close>, in which \<open>encoding/json\<close> writes a byte slice: three bytes are four characters of
  the alphabet, the last ones padded. The decoder ignores line ends and wants the padding.
\<close>

definition b64_alphabet :: string where
  "b64_alphabet = ''ABCDEFGHIJKLMNOPQRSTUVWXYZabcdefghijklmnopqrstuvwxyz0123456789+/''"

definition b64_char :: "nat \<Rightarrow> char" where
  "b64_char n = b64_alphabet ! n"

definition b64_val :: "char \<Rightarrow> nat option" where
  "b64_val c =
     (let n = length (takeWhile (\<lambda>d. d \<noteq> c) b64_alphabet)
      in if n < 64 then Some n else None)"

text \<open>The four sextets of a group of three bytes, and back.\<close>

definition sextets :: "nat \<Rightarrow> nat \<Rightarrow> nat \<Rightarrow> nat list" where
  "sextets a b c = (let n = a * 65536 + b * 256 + c in [n div 262144, n div 4096 mod 64, n div 64 mod 64, n mod 64])"

definition group_bytes :: "nat \<Rightarrow> nat \<Rightarrow> nat \<Rightarrow> nat \<Rightarrow> bytes" where
  "group_bytes p q r s =
     (let n = p * 262144 + q * 4096 + r * 64 + s in map of_nat [n div 65536, n div 256 mod 256, n mod 256])"

definition b64_group :: "8 word \<Rightarrow> 8 word \<Rightarrow> 8 word \<Rightarrow> string" where
  "b64_group a b c = map b64_char (sextets (unat a) (unat b) (unat c))"

fun b64_encode :: "bytes \<Rightarrow> string" where
  "b64_encode [] = []"
| "b64_encode [a] = take 2 (b64_group a 0 0) @ ''==''"
| "b64_encode [a, b] = take 3 (b64_group a b 0) @ ''=''"
| "b64_encode (a # b # c # bs) = b64_group a b c @ b64_encode bs"

definition b64_quad :: "nat option \<Rightarrow> nat option \<Rightarrow> nat option \<Rightarrow> nat option \<Rightarrow> bytes option" where
  "b64_quad p q r s =
     (case (p, q, r, s) of (Some p, Some q, Some r, Some s) \<Rightarrow> Some (group_bytes p q r s) | _ \<Rightarrow> None)"

fun b64_quads :: "string \<Rightarrow> bytes option" where
  "b64_quads [] = Some []"
| "b64_quads (a # b # c # d # s) =
     (if c = CHR ''='' \<and> d = CHR ''='' \<and> s = [] then map_option (take 1) (b64_quad (b64_val a) (b64_val b) (Some 0) (Some 0))
      else if d = CHR ''='' \<and> s = [] then map_option (take 2) (b64_quad (b64_val a) (b64_val b) (b64_val c) (Some 0))
      else case b64_quad (b64_val a) (b64_val b) (b64_val c) (b64_val d) of
          None \<Rightarrow> None
        | Some bs \<Rightarrow> map_option ((@) bs) (b64_quads s))"
| "b64_quads _ = None"

definition b64_decode :: "string \<Rightarrow> bytes option" where
  "b64_decode s = b64_quads (filter (\<lambda>c. c \<noteq> CHR 0x0A \<and> c \<noteq> CHR 0x0D) s)"

subsection \<open>Round trip\<close>

lemma b64_alphabet_ok:
  "list_all (\<lambda>n. b64_val (b64_char n) = Some n \<and> b64_char n \<notin> {CHR ''='', CHR 0x0A, CHR 0x0D} \<and>
     of_char (b64_char n) < (128 :: int)) [0..<64]"
  by code_simp

lemma b64_char_simps [simp]:
  assumes "n < 64"
  shows "b64_val (b64_char n) = Some n" "b64_char n \<noteq> CHR ''=''" "b64_char n \<noteq> CHR 0x0A" "b64_char n \<noteq> CHR 0x0D"
    "of_char (b64_char n) < (128 :: int)"
  using b64_alphabet_ok assms by (auto simp: list_all_iff)

lemma sextets_sum:
  "n div 262144 * 262144 + n div 4096 mod 64 * 4096 + n div 64 mod 64 * 64 + n mod 64 = (n :: nat)"
proof -
  have d: "n div 4096 = n div 64 div 64" "n div 262144 = n div 64 div 64 div 64" by (simp_all flip: div_mult2_eq)
  have "n = 64 * (n div 64) + n mod 64" by simp
  moreover have "n div 64 = 64 * (n div 64 div 64) + n div 64 mod 64" by simp
  moreover have "n div 64 div 64 = 64 * (n div 64 div 64 div 64) + n div 64 div 64 mod 64" by simp
  ultimately show ?thesis unfolding d by linarith
qed

lemma group_sextets:
  assumes "a < 256" "b < 256" "c < 256"
  shows "\<exists>p q r s. sextets a b c = [p, q, r, s] \<and> p < 64 \<and> q < 64 \<and> r < 64 \<and> s < 64 \<and>
    group_bytes p q r s = [of_nat a, of_nat b, of_nat c]"
proof -
  define n where "n = a * 65536 + b * 256 + c"
  have "n div 262144 < 64" using assms by (simp add: n_def)
  moreover have "n div 256 = 256 * a + b" unfolding n_def using assms(3) by (intro div_nat_eqI) auto
  then have "n div 256 mod 256 = b" using assms(2) by simp
  moreover have "n div 65536 = a" unfolding n_def using assms(2,3) by (intro div_nat_eqI) auto
  moreover have "n = c + 256 * (256 * a + b)" by (simp add: n_def)
  then have "n mod 256 = c" using assms(3) by (metis mod_less mod_mult_self2)
  ultimately have "group_bytes (n div 262144) (n div 4096 mod 64) (n div 64 mod 64) (n mod 64) = [of_nat a, of_nat b, of_nat c]"
    by (simp only: group_bytes_def Let_def sextets_sum list.map)
  moreover have "sextets a b c = [n div 262144, n div 4096 mod 64, n div 64 mod 64, n mod 64]"
    by (simp add: sextets_def Let_def n_def)
  ultimately show ?thesis using \<open>n div 262144 < 64\<close> by auto
qed

text \<open>A group of three bytes is four characters, which are their sextets.\<close>

lemma b64_group_ok:
  obtains p q r s where "b64_group a b c = map b64_char [p, q, r, s]" "p < 64" "q < 64" "r < 64" "s < 64"
    "group_bytes p q r s = [a, b, c]" "c = 0 \<Longrightarrow> s = 0" "b = 0 \<Longrightarrow> c = 0 \<Longrightarrow> r = 0"
proof -
  have lt: "unat a < 256" "unat b < 256" "unat c < 256"
    using unsigned_less[where ?'a = nat, of a] unsigned_less[where ?'a = nat, of b] unsigned_less[where ?'a = nat, of c]
    by simp_all
  from group_sextets[OF this] obtain p q r s where
    1: "sextets (unat a) (unat b) (unat c) = [p, q, r, s]" "p < 64" "q < 64" "r < 64" "s < 64"
      "group_bytes p q r s = [a, b, c]" by auto
  have "s = 0" if "c = 0" using 1(1) that by (auto simp: sextets_def Let_def mod_eq_0_iff_dvd)
  moreover have "r = 0" if "b = 0" "c = 0" using 1(1) that by (auto simp: sextets_def Let_def mod_eq_0_iff_dvd)
  ultimately show ?thesis using that 1 by (simp add: b64_group_def)
qed

lemma b64_encode_clean:
  "c \<in> set (b64_encode bs) \<Longrightarrow> c \<noteq> CHR 0x0A \<and> c \<noteq> CHR 0x0D \<and> of_char c < (128 :: int)"
proof (induction bs rule: b64_encode.induct)
  case (2 a)
  obtain p q r s where "b64_group a 0 0 = map b64_char [p, q, r, s]" "p < 64" "q < 64" by (rule b64_group_ok)
  with 2 show ?case by auto
next
  case (3 a b)
  obtain p q r s where "b64_group a b 0 = map b64_char [p, q, r, s]" "p < 64" "q < 64" "r < 64" by (rule b64_group_ok)
  with 3 show ?case by auto
next
  case (4 a b c bs)
  obtain p q r s where "b64_group a b c = map b64_char [p, q, r, s]" "p < 64" "q < 64" "r < 64" "s < 64" by (rule b64_group_ok)
  with 4 show ?case by auto
qed simp

lemma b64_quads_encode: "b64_quads (b64_encode bs) = Some bs"
proof (induction bs rule: b64_encode.induct)
  case (2 a)
  obtain p q r s where "b64_group a 0 0 = map b64_char [p, q, r, s]" "p < 64" "q < 64"
    "group_bytes p q r s = [a, 0, 0]" "r = 0" "s = 0" by (rule b64_group_ok[of a 0 0]) simp
  then show ?case by (simp add: b64_quad_def)
next
  case (3 a b)
  obtain p q r s where "b64_group a b 0 = map b64_char [p, q, r, s]" "p < 64" "q < 64" "r < 64"
    "group_bytes p q r s = [a, b, 0]" "s = 0" by (rule b64_group_ok[of a b 0]) simp
  then show ?case by (simp add: b64_quad_def)
next
  case (4 a b c bs)
  obtain p q r s where "b64_group a b c = map b64_char [p, q, r, s]" "p < 64" "q < 64" "r < 64" "s < 64"
    "group_bytes p q r s = [a, b, c]" by (rule b64_group_ok)
  with 4 show ?case by (simp add: b64_quad_def)
qed simp

lemma b64_roundtrip: "b64_decode (b64_encode bs) = Some bs"
proof -
  have "filter (\<lambda>c. c \<noteq> CHR 0x0A \<and> c \<noteq> CHR 0x0D) (b64_encode bs) = b64_encode bs"
    by (intro filter_True) (auto dest: b64_encode_clean)
  then show ?thesis by (simp add: b64_decode_def b64_quads_encode)
qed

end
