(* ===== verification/Codec.thy ===== *)
theory Codec
  imports GoFormat GoBase64 FleetFiles Config
begin

text \<open>
  The JSON of the data the server and the clients exchange: the structs of \<open>types/types.go\<close>,
  \<open>types/stats.go\<close> and \<open>types/config.go\<close> as \<open>encoding/json\<close> writes and reads them by their field names.
  Reading goes into a variable that has a value already: a member the struct does not have is ignored, a value
  of the wrong type and a null leave the field as it is, and null makes a slice, a map or a pointer nil.
\<close>

subsection \<open>Reading\<close>

definition decode_string :: "json \<Rightarrow> string \<Rightarrow> string" where
  "decode_string j old = (case j of JStr s \<Rightarrow> s | _ \<Rightarrow> old)"

definition decode_bool :: "json \<Rightarrow> bool \<Rightarrow> bool" where
  "decode_bool j old = (case j of JBool b \<Rightarrow> b | _ \<Rightarrow> old)"

definition decode_num :: "(string \<Rightarrow> 'a res) \<Rightarrow> json \<Rightarrow> 'a \<Rightarrow> 'a" where
  "decode_num parse j old = (case j of JNum t \<Rightarrow> (case parse t of Inr x \<Rightarrow> x | Inl _ \<Rightarrow> old) | _ \<Rightarrow> old)"

text \<open>A slice keeps the elements it has as the values its elements are read into.\<close>

definition decode_list :: "(json \<Rightarrow> 'a \<Rightarrow> 'a) \<Rightarrow> 'a \<Rightarrow> json \<Rightarrow> 'a list \<Rightarrow> 'a list" where
  "decode_list f z j old =
     (case j of
        JNull \<Rightarrow> []
      | JArr vs \<Rightarrow> map (\<lambda>(v, x). f v x) (zip vs (old @ replicate (length vs - length old) z))
      | _ \<Rightarrow> old)"

definition parse_byte :: "string \<Rightarrow> 8 word res" where
  "parse_byte t = (case parse_uint t of Inl e \<Rightarrow> Inl e | Inr n \<Rightarrow> if n < 256 then Inr (ucast n) else Inl num_range)"

definition decode_bytes :: "json \<Rightarrow> bytes \<Rightarrow> bytes" where
  "decode_bytes j old =
     (case j of
        JStr s \<Rightarrow> (case b64_decode s of Some b \<Rightarrow> b | None \<Rightarrow> old)
      | _ \<Rightarrow> decode_list (decode_num parse_byte) 0 j old)"

definition decode_ptr :: "(json \<Rightarrow> 'a \<Rightarrow> 'a) \<Rightarrow> 'a \<Rightarrow> json \<Rightarrow> 'a option \<Rightarrow> 'a option" where
  "decode_ptr f z j old =
     (case j of JNull \<Rightarrow> None | _ \<Rightarrow> Some (f j (case old of None \<Rightarrow> z | Some x \<Rightarrow> x)))"

text \<open>A map, in the order its keys were met; an entry is read into the zero value.\<close>

definition decode_map :: "(json \<Rightarrow> 'a \<Rightarrow> 'a) \<Rightarrow> 'a \<Rightarrow> json \<Rightarrow> (string \<times> 'a) list \<Rightarrow> (string \<times> 'a) list" where
  "decode_map f z j old =
     (case j of
        JNull \<Rightarrow> []
      | JObj ms \<Rightarrow> fold (\<lambda>(k, v). AList.update k (f v z)) ms old
      | _ \<Rightarrow> old)"

text \<open>Field names are compared without case; the long s and the Kelvin sign are an s and a k.\<close>

function fold_key :: "string \<Rightarrow> string" where
  "fold_key [] = []"
| "fold_key (c # s) =
     (if c = CHR 0xC5 \<and> take 1 s = [CHR 0xBF] then CHR ''s'' # fold_key (drop 1 s)
      else if c = CHR 0xE2 \<and> take 2 s = [CHR 0x84, CHR 0xAA] then CHR ''k'' # fold_key (drop 2 s)
      else lower c # fold_key s)"
  by pat_completeness auto
termination
  by (relation "measure length") auto

type_synonym 'r field = "string \<times> (json \<Rightarrow> 'r \<Rightarrow> 'r)"

definition set_member :: "'r field list \<Rightarrow> string \<times> json \<Rightarrow> 'r \<Rightarrow> 'r" where
  "set_member fs m r =
     (case find (\<lambda>f. fold_key (fst f) = fold_key (fst m)) fs of None \<Rightarrow> r | Some f \<Rightarrow> snd f (snd m) r)"

definition decode_struct :: "'r field list \<Rightarrow> json \<Rightarrow> 'r \<Rightarrow> 'r" where
  "decode_struct fs j r = (case j of JObj ms \<Rightarrow> fold (set_member fs) ms r | _ \<Rightarrow> r)"

subsection \<open>The structs\<close>

definition input_fields :: "Input field list" where
  "input_fields =
     [(''Name'', \<lambda>j i. i\<lparr>Name := decode_string j (Name i)\<rparr>),
      (''Body'', \<lambda>j i. i\<lparr>Body := decode_bytes j (Body i)\<rparr>)]"

definition encode_input :: "Input \<Rightarrow> json" where
  "encode_input i = JObj [(''Name'', JStr (Name i)), (''Body'', JStr (b64_encode (Body i)))]"

definition corpus_fields :: "InputCorpus field list" where
  "corpus_fields =
     [(''Inputs'', \<lambda>j c. c\<lparr>Inputs := decode_list (decode_struct input_fields) \<lparr>Name = [], Body = []\<rparr> j (Inputs c)\<rparr>)]"

definition encode_corpus :: "InputCorpus \<Rightarrow> json" where
  "encode_corpus c = JObj [(''Inputs'', JArr (map encode_input (Inputs c)))]"

definition decode_corpus_ptr :: "json \<Rightarrow> InputCorpus option \<Rightarrow> InputCorpus option" where
  "decode_corpus_ptr = decode_ptr (decode_struct corpus_fields) \<lparr>Inputs = []\<rparr>"

definition encode_corpus_ptr :: "InputCorpus option \<Rightarrow> json" where
  "encode_corpus_ptr c = (case c of None \<Rightarrow> JNull | Some c \<Rightarrow> encode_corpus c)"

definition output_fields :: "AflOutput field list" where
  "output_fields =
     [(''Queue'', \<lambda>j out. out\<lparr>Queue := decode_corpus_ptr j (Queue out)\<rparr>),
      (''Crashes'', \<lambda>j out. out\<lparr>Crashes := decode_corpus_ptr j (Crashes out)\<rparr>),
      (''Hangs'', \<lambda>j out. out\<lparr>Hangs := decode_corpus_ptr j (Hangs out)\<rparr>)]"

definition encode_output :: "AflOutput \<Rightarrow> json" where
  "encode_output out =
     JObj [(''Queue'', encode_corpus_ptr (Queue out)), (''Crashes'', encode_corpus_ptr (Crashes out)),
       (''Hangs'', encode_corpus_ptr (Hangs out))]"

definition stats_fields :: "FuzzerStats field list" where
  "stats_fields =
     [(''StartTime'', \<lambda>j s. s\<lparr>StartTime := decode_num parse_uint j (StartTime s)\<rparr>),
      (''LastUpdate'', \<lambda>j s. s\<lparr>LastUpdate := decode_num parse_uint j (LastUpdate s)\<rparr>),
      (''FuzzerPid'', \<lambda>j s. s\<lparr>FuzzerPid := decode_num parse_uint j (FuzzerPid s)\<rparr>),
      (''CyclesDone'', \<lambda>j s. s\<lparr>CyclesDone := decode_num parse_uint j (CyclesDone s)\<rparr>),
      (''ExecsDone'', \<lambda>j s. s\<lparr>ExecsDone := decode_num parse_uint j (ExecsDone s)\<rparr>),
      (''ExecsPerSec'', \<lambda>j s. s\<lparr>ExecsPerSec := decode_num parse_float j (ExecsPerSec s)\<rparr>),
      (''PathsTotal'', \<lambda>j s. s\<lparr>PathsTotal := decode_num parse_uint j (PathsTotal s)\<rparr>),
      (''PathsFavored'', \<lambda>j s. s\<lparr>PathsFavored := decode_num parse_uint j (PathsFavored s)\<rparr>),
      (''PathsFound'', \<lambda>j s. s\<lparr>PathsFound := decode_num parse_uint j (PathsFound s)\<rparr>),
      (''PathsImported'', \<lambda>j s. s\<lparr>PathsImported := decode_num parse_uint j (PathsImported s)\<rparr>),
      (''MaxDepth'', \<lambda>j s. s\<lparr>MaxDepth := decode_num parse_uint j (MaxDepth s)\<rparr>),
      (''CurPath'', \<lambda>j s. s\<lparr>CurPath := decode_num parse_uint j (CurPath s)\<rparr>),
      (''PendingFavs'', \<lambda>j s. s\<lparr>PendingFavs := decode_num parse_uint j (PendingFavs s)\<rparr>),
      (''PendingTotal'', \<lambda>j s. s\<lparr>PendingTotal := decode_num parse_uint j (PendingTotal s)\<rparr>),
      (''VariablePaths'', \<lambda>j s. s\<lparr>VariablePaths := decode_num parse_uint j (VariablePaths s)\<rparr>),
      (''BitmapCvg'', \<lambda>j s. s\<lparr>BitmapCvg := decode_num parse_float j (BitmapCvg s)\<rparr>),
      (''UniqueCrashes'', \<lambda>j s. s\<lparr>UniqueCrashes := decode_num parse_uint j (UniqueCrashes s)\<rparr>),
      (''UniqueHangs'', \<lambda>j s. s\<lparr>UniqueHangs := decode_num parse_uint j (UniqueHangs s)\<rparr>),
      (''LastPath'', \<lambda>j s. s\<lparr>LastPath := decode_num parse_uint j (LastPath s)\<rparr>),
      (''LastCrash'', \<lambda>j s. s\<lparr>LastCrash := decode_num parse_uint j (LastCrash s)\<rparr>),
      (''LastHang'', \<lambda>j s. s\<lparr>LastHang := decode_num parse_uint j (LastHang s)\<rparr>),
      (''ExecTimeout'', \<lambda>j s. s\<lparr>ExecTimeout := decode_num parse_uint j (ExecTimeout s)\<rparr>),
      (''AflBanner'', \<lambda>j s. s\<lparr>AflBanner := decode_string j (AflBanner s)\<rparr>),
      (''AflVersion'', \<lambda>j s. s\<lparr>AflVersion := decode_string j (AflVersion s)\<rparr>),
      (''CommandLine'', \<lambda>j s. s\<lparr>CommandLine := decode_string j (CommandLine s)\<rparr>)]"

text \<open>Writing fails on numbers JSON does not have.\<close>

definition encode_stats :: "FuzzerStats \<Rightarrow> json option" where
  "encode_stats s =
     (case (json_float (ExecsPerSec s), json_float (BitmapCvg s)) of
        (Some e, Some b) \<Rightarrow> Some (JObj
          [(''StartTime'', JNum (format_uint (StartTime s))),
           (''LastUpdate'', JNum (format_uint (LastUpdate s))),
           (''FuzzerPid'', JNum (format_uint (FuzzerPid s))),
           (''CyclesDone'', JNum (format_uint (CyclesDone s))),
           (''ExecsDone'', JNum (format_uint (ExecsDone s))),
           (''ExecsPerSec'', JNum e),
           (''PathsTotal'', JNum (format_uint (PathsTotal s))),
           (''PathsFavored'', JNum (format_uint (PathsFavored s))),
           (''PathsFound'', JNum (format_uint (PathsFound s))),
           (''PathsImported'', JNum (format_uint (PathsImported s))),
           (''MaxDepth'', JNum (format_uint (MaxDepth s))),
           (''CurPath'', JNum (format_uint (CurPath s))),
           (''PendingFavs'', JNum (format_uint (PendingFavs s))),
           (''PendingTotal'', JNum (format_uint (PendingTotal s))),
           (''VariablePaths'', JNum (format_uint (VariablePaths s))),
           (''BitmapCvg'', JNum b),
           (''UniqueCrashes'', JNum (format_uint (UniqueCrashes s))),
           (''UniqueHangs'', JNum (format_uint (UniqueHangs s))),
           (''LastPath'', JNum (format_uint (LastPath s))),
           (''LastCrash'', JNum (format_uint (LastCrash s))),
           (''LastHang'', JNum (format_uint (LastHang s))),
           (''ExecTimeout'', JNum (format_uint (ExecTimeout s))),
           (''AflBanner'', JStr (AflBanner s)),
           (''AflVersion'', JStr (AflVersion s)),
           (''CommandLine'', JStr (CommandLine s))])
      | _ \<Rightarrow> None)"

definition state_fields :: "State field list" where
  "state_fields =
     [(''Id'', \<lambda>j s. s\<lparr>Id := decode_string j (Id s)\<rparr>),
      (''Stats'', \<lambda>j s. s\<lparr>State.Stats := decode_struct stats_fields j (State.Stats s)\<rparr>),
      (''AflOutput'', \<lambda>j s. s\<lparr>Output := decode_struct output_fields j (Output s)\<rparr>)]"

definition encode_state :: "State \<Rightarrow> json option" where
  "encode_state s =
     map_option (\<lambda>st. JObj [(''Id'', JStr (Id s)), (''Stats'', st), (''AflOutput'', encode_output (Output s))])
       (encode_stats (State.Stats s))"

definition zero_State :: State where
  "zero_State = \<lparr>Id = [], Stats = zero_stats, Output = \<lparr>Queue = None, Crashes = None, Hangs = None\<rparr>\<rparr>"

definition config_fields :: "FuzzerConfig field list" where
  "config_fields =
     [(''UseBinary'', \<lambda>j c. c\<lparr>UseBinary := decode_bool j (UseBinary c)\<rparr>),
      (''UseDict'', \<lambda>j c. c\<lparr>UseDict := decode_bool j (UseDict c)\<rparr>),
      (''SyncInterval'', \<lambda>j c. c\<lparr>SyncInterval := decode_num parse_int j (SyncInterval c)\<rparr>),
      (''Command'', \<lambda>j c. c\<lparr>Command := decode_list decode_string [] j (Command c)\<rparr>),
      (''MemLimitMb'', \<lambda>j c. c\<lparr>MemLimitMb := decode_num parse_int j (MemLimitMb c)\<rparr>),
      (''TimeoutMs'', \<lambda>j c. c\<lparr>TimeoutMs := decode_num parse_int j (TimeoutMs c)\<rparr>)]"

definition encode_config :: "FuzzerConfig \<Rightarrow> json" where
  "encode_config c =
     JObj [(''UseBinary'', JBool (UseBinary c)), (''UseDict'', JBool (UseDict c)),
       (''SyncInterval'', JNum (format_int (SyncInterval c))), (''Command'', JArr (map JStr (Command c))),
       (''MemLimitMb'', JNum (format_int (MemLimitMb c))), (''TimeoutMs'', JNum (format_int (TimeoutMs c)))]"

text \<open>A map is written in the order of its keys.\<close>

definition encode_queues :: "(string \<times> InputCorpus) list \<Rightarrow> json" where
  "encode_queues qs = JObj (map (\<lambda>(k, c). (k, encode_corpus c)) (sort_key fst qs))"

definition decode_queues :: "json \<Rightarrow> (string \<times> InputCorpus option) list \<Rightarrow> (string \<times> InputCorpus option) list" where
  "decode_queues = decode_map decode_corpus_ptr None"

subsection \<open>Texts\<close>

text \<open>\<open>json.Marshal\<close>, and \<open>Encode\<close>, which ends the line.\<close>

definition json_bytes :: "json \<Rightarrow> bytes" where
  "json_bytes j = bytes_of_string (print_json j)"

definition json_line :: "json \<Rightarrow> bytes" where
  "json_line j = bytes_of_string (print_json j @ [CHR 0x0A])"

definition marshal_state :: "State \<Rightarrow> goerr + bytes" where
  "marshal_state s =
     (case encode_state s of None \<Rightarrow> Inl (ErrMsg ''json: unsupported value'') | Some j \<Rightarrow> Inr (json_bytes j))"

text \<open>\<open>Decode\<close> of a body that is there as a whole: no value, no change.\<close>

definition decode_body :: "(json \<Rightarrow> 'a \<Rightarrow> 'a) \<Rightarrow> bytes \<Rightarrow> 'a \<Rightarrow> 'a" where
  "decode_body f b old = (case parse_json (string_of_bytes b) of None \<Rightarrow> old | Some (j, _) \<Rightarrow> f j old)"

definition decode_state :: "bytes \<Rightarrow> State" where
  "decode_state b = decode_body (decode_struct state_fields) b zero_State"

subsection \<open>What is written is read back\<close>

lemma decode_body_printed:
  assumes "json_ok maxNestingDepth j" and "ends_number t"
  shows "decode_body f (bytes_of_string (print_json j @ t)) old = f (fix_json j) old"
  using parse_print[OF assms(1) _ assms(2), of "length (print_json j @ t)"]
  by (simp add: decode_body_def parse_json_def)

text \<open>The names of a struct: different for the reader, and unchanged by the writer.\<close>

definition names_differ :: "string list \<Rightarrow> bool" where
  "names_differ ns \<longleftrightarrow> distinct (map fold_key ns) \<and> list_all (list_all is_ascii) ns"

lemma set_member_there:
  assumes "distinct (map (fold_key \<circ> fst) fs)" and "f \<in> set fs"
  shows "set_member fs (fst f, v) r = snd f v r"
proof -
  have "find (\<lambda>g. fold_key (fst g) = fold_key (fst f)) fs = Some f"
    using assms by (induction fs) (auto simp: image_iff)
  then show ?thesis by (simp add: set_member_def)
qed

lemma decode_struct_printed:
  assumes "names_differ (map fst fs)" and "map fst ms = map fst fs"
  shows "decode_struct fs (fix_json (JObj ms)) r = fold (\<lambda>(f, m). snd f (fix_json (snd m))) (zip fs ms) r"
proof -
  have d: "distinct (map (fold_key \<circ> fst) fs)" using assms(1) by (simp add: names_differ_def)
  have fix_name: "utf8_fix (fst f) = fst f" if "f \<in> set fs" for f
    using assms(1) that by (auto simp: names_differ_def list_all_iff intro!: utf8_fix_ok utf8_ok_ascii)
  have "fold (set_member fs) (map (map_prod utf8_fix fix_json) ms') r =
      fold (\<lambda>(f, m). snd f (fix_json (snd m))) (zip fs' ms') r"
    if "set fs' \<subseteq> set fs" "map fst ms' = map fst fs'" for fs' ms'
    using that
  proof (induction fs' arbitrary: ms' r)
    case (Cons f fs')
    then obtain m ms'' where ms': "ms' = m # ms''" "fst m = fst f" by (cases ms') auto
    then have "set_member fs (map_prod utf8_fix fix_json m) r = snd f (fix_json (snd m)) r"
      using set_member_there[OF d, of f "fix_json (snd m)" r] fix_name[of f] Cons.prems(1) by (cases m) simp
    then show ?case using Cons.IH[of ms''] Cons.prems ms' by simp
  qed simp
  from this[of fs ms] assms(2) show ?thesis by (simp add: decode_struct_def)
qed

lemma decode_bytes_printed [simp]: "decode_bytes (fix_json (JStr (b64_encode b))) old = b"
proof -
  have "list_all is_ascii (b64_encode b)"
    by (auto simp: list_all_iff is_ascii_def byte_of_def dest: b64_encode_clean)
  then show ?thesis by (simp add: decode_bytes_def utf8_fix_ok utf8_ok_ascii b64_roundtrip)
qed

lemma decode_list_printed:
  assumes "\<And>x. f (fix_json (e x)) z = g x"
  shows "decode_list f z (fix_json (JArr (map e xs))) [] = map g xs"
  by (induction xs) (simp_all add: decode_list_def assms)

definition fix_input :: "Input \<Rightarrow> Input" where
  "fix_input i = i\<lparr>Name := utf8_fix (Name i)\<rparr>"

definition fix_corpus :: "InputCorpus \<Rightarrow> InputCorpus" where
  "fix_corpus c = \<lparr>Inputs = map fix_input (Inputs c)\<rparr>"

definition fix_stats :: "FuzzerStats \<Rightarrow> FuzzerStats" where
  "fix_stats s = s\<lparr>AflBanner := utf8_fix (AflBanner s), AflVersion := utf8_fix (AflVersion s),
     CommandLine := utf8_fix (CommandLine s)\<rparr>"

definition fix_output :: "AflOutput \<Rightarrow> AflOutput" where
  "fix_output out = \<lparr>Queue = map_option fix_corpus (Queue out), Crashes = map_option fix_corpus (Crashes out),
     Hangs = map_option fix_corpus (Hangs out)\<rparr>"

text \<open>The state the other side gets: every byte that is not UTF-8 has become a replacement character.\<close>

definition fix_State :: "State \<Rightarrow> State" where
  "fix_State s = \<lparr>Id = utf8_fix (Id s), Stats = fix_stats (State.Stats s), Output = fix_output (Output s)\<rparr>"

lemma struct_names:
  "names_differ (map fst input_fields)" "names_differ (map fst corpus_fields)" "names_differ (map fst output_fields)"
  "names_differ (map fst stats_fields)" "names_differ (map fst state_fields)" "names_differ (map fst config_fields)"
  by code_simp+

lemma decode_input_printed: "decode_struct input_fields (fix_json (encode_input i)) r = fix_input i"
  unfolding encode_input_def
  by (subst decode_struct_printed[OF struct_names(1)])
    (simp_all add: input_fields_def decode_string_def fix_input_def del: fix_json.simps(4), simp add: decode_string_def)

lemma decode_corpus_printed: "decode_struct corpus_fields (fix_json (encode_corpus c)) \<lparr>Inputs = []\<rparr> = fix_corpus c"
  unfolding encode_corpus_def
  by (subst decode_struct_printed[OF struct_names(2)])
    (simp_all add: corpus_fields_def fix_corpus_def decode_list_printed[where f = "decode_struct input_fields" and e = encode_input, OF decode_input_printed] del: fix_json.simps)

lemma decode_corpus_ptr_printed: "decode_corpus_ptr (fix_json (encode_corpus_ptr c)) None = map_option fix_corpus c"
proof (cases c)
  case (Some d)
  have "fix_json (encode_corpus d) \<noteq> JNull" by (simp add: encode_corpus_def)
  then show ?thesis using decode_corpus_printed[of d] Some
    by (cases "fix_json (encode_corpus d)") (simp_all add: decode_corpus_ptr_def decode_ptr_def encode_corpus_ptr_def)
qed (simp add: decode_corpus_ptr_def decode_ptr_def encode_corpus_ptr_def)

lemma decode_output_printed:
  "decode_struct output_fields (fix_json (encode_output out)) \<lparr>Queue = None, Crashes = None, Hangs = None\<rparr> = fix_output out"
  unfolding encode_output_def
  by (subst decode_struct_printed[OF struct_names(3)])
    (simp_all add: output_fields_def fix_output_def decode_corpus_ptr_printed del: fix_json.simps)

lemma decode_num_printed [simp]:
  "decode_num parse_uint (fix_json (JNum (format_uint w))) old = w"
  "json_float v = Some t \<Longrightarrow> decode_num parse_float (fix_json (JNum t)) f = v"
  "- (2 ^ 63) \<le> i \<Longrightarrow> i < 2 ^ 63 \<Longrightarrow> decode_num parse_int (fix_json (JNum (format_int i))) n = i"
  using json_float_good[of v t] by (simp_all add: decode_num_def parse_format_int)

lemma decode_text_printed [simp]:
  "decode_string (fix_json (JStr s)) old = utf8_fix s" "decode_bool (fix_json (JBool b)) c = b"
  by (simp_all add: decode_string_def decode_bool_def)

lemma decode_stats_printed:
  assumes "encode_stats st = Some j" shows "decode_struct stats_fields (fix_json j) r = fix_stats st"
proof -
  obtain e b where f: "json_float (ExecsPerSec st) = Some e" "json_float (BitmapCvg st) = Some b"
    using assms by (auto simp: encode_stats_def split: option.splits)
  then obtain ms where ms: "j = JObj ms" "map fst ms = map fst stats_fields"
    using assms by (auto simp: encode_stats_def stats_fields_def)
  show ?thesis
    unfolding ms(1) decode_struct_printed[OF struct_names(4) ms(2)]
    using assms f ms(1)
    by (auto simp: encode_stats_def stats_fields_def fix_stats_def simp del: fix_json.simps)
qed

lemma decode_state_printed:
  assumes "encode_state s = Some j" shows "decode_struct state_fields (fix_json j) zero_State = fix_State s"
proof -
  obtain st where st: "encode_stats (State.Stats s) = Some st"
    and j: "j = JObj [(''Id'', JStr (Id s)), (''Stats'', st), (''AflOutput'', encode_output (Output s))]"
    using assms by (auto simp: encode_state_def)
  show ?thesis
    unfolding j
    by (subst decode_struct_printed[OF struct_names(5)])
      (simp_all add: state_fields_def fix_State_def zero_State_def decode_stats_printed[OF st] decode_output_printed
        del: fix_json.simps)
qed

lemma decode_map_printed:
  assumes "\<And>x. f (fix_json (e x)) z = g x" and "distinct (map (utf8_fix \<circ> fst) qs)"
  shows "decode_map f z (fix_json (JObj (map (\<lambda>(k, x). (k, e x)) qs))) [] = map (\<lambda>(k, x). (utf8_fix k, g x)) qs"
proof -
  have "fold (\<lambda>(k, v). AList.update k (f v z)) (map (map_prod utf8_fix fix_json) (map (\<lambda>(k, x). (k, e x)) qs')) old =
      old @ map (\<lambda>(k, x). (utf8_fix k, g x)) qs'"
    if "distinct (map fst old @ map (utf8_fix \<circ> fst) qs')" for old qs'
    using that
  proof (induction qs' arbitrary: old)
    case (Cons q qs')
    obtain k x where q: "q = (k, x)" by (cases q)
    have "AList.update (utf8_fix k) y old = old @ [(utf8_fix k, y)]" for y
      using Cons.prems q by (intro update_new) auto
    then show ?case using Cons.IH[of "old @ [(utf8_fix k, g x)]"] Cons.prems q by (simp add: assms(1))
  qed simp
  from this[of "[]" qs] assms(2) show ?thesis by (simp add: decode_map_def)
qed

subsection \<open>Written values are well formed\<close>

lemma json_ok_input: "0 < d \<Longrightarrow> json_ok d (encode_input i)"
  by (simp add: encode_input_def)

lemma json_ok_corpus: "3 \<le> d \<Longrightarrow> json_ok d (encode_corpus c)"
  by (auto simp: encode_corpus_def list_all_iff json_ok_input)

lemma json_ok_corpus_ptr: "3 \<le> d \<Longrightarrow> json_ok d (encode_corpus_ptr c)"
  by (auto simp: encode_corpus_ptr_def json_ok_corpus split: option.split)

lemma json_ok_output: "4 \<le> d \<Longrightarrow> json_ok d (encode_output out)"
  by (simp add: encode_output_def json_ok_corpus_ptr)

lemma json_ok_stats: "encode_stats st = Some j \<Longrightarrow> 0 < d \<Longrightarrow> json_ok d j"
  by (auto simp: encode_stats_def json_float_good split: option.splits)

lemma json_ok_state: "encode_state s = Some j \<Longrightarrow> 5 \<le> d \<Longrightarrow> json_ok d j"
  by (auto simp: encode_state_def json_ok_stats json_ok_output)

lemma json_ok_config: "2 \<le> d \<Longrightarrow> json_ok d (encode_config c)"
  by (simp add: encode_config_def list_all_iff)

lemma json_ok_queues: "4 \<le> d \<Longrightarrow> json_ok d (encode_queues qs)"
  by (auto simp: encode_queues_def list_all_iff json_ok_corpus)

subsection \<open>Wire formats\<close>

text \<open>
  What one side writes and the other reads: \<open>enc\<close> gives the value to write, none for what JSON cannot hold, \<open>dec\<close> reads
  it over the value \<open>old\<close>, and \<open>norm\<close> is what comes out of a value that fits. A text that is sent, alone or with
  something behind it that does not go on with a number, is read as that.
\<close>

locale wire_format =
  fixes enc :: "'a \<Rightarrow> json option"
    and dec :: "json \<Rightarrow> 'b \<Rightarrow> 'b"
    and old :: 'b
    and norm :: "'a \<Rightarrow> 'b"
    and fits :: "'a \<Rightarrow> bool"
  assumes enc_ok: "enc x = Some j \<Longrightarrow> json_ok maxNestingDepth j"
    and dec_enc: "enc x = Some j \<Longrightarrow> fits x \<Longrightarrow> dec (fix_json j) old = norm x"
begin

lemma sent_before:
  assumes "enc x = Some j" and "fits x" and "ends_number t"
  shows "decode_body dec (bytes_of_string (print_json j @ t)) old = norm x"
  unfolding decode_body_printed[OF enc_ok[OF assms(1)] assms(3)] using assms(1,2) by (rule dec_enc)

lemma sent:
  assumes "enc x = Some j" and "fits x" shows "decode_body dec (json_bytes j) old = norm x"
  using sent_before[OF assms, of "[]"] by (simp add: json_bytes_def)

lemma sent_line:
  assumes "enc x = Some j" and "fits x" shows "decode_body dec (json_line j) old = norm x"
proof -
  have "ends_number [CHR 0x0A]" by code_simp
  then show ?thesis unfolding json_line_def by (rule sent_before[OF assms])
qed

end

interpretation state_wire: wire_format encode_state "decode_struct state_fields" zero_State fix_State "\<lambda>_. True"
  by unfold_locales (simp_all add: json_ok_state maxNestingDepth_def decode_state_printed)

lemma decode_queues_printed:
  assumes "distinct (map (utf8_fix \<circ> fst) qs)"
  shows "decode_queues (fix_json (encode_queues qs)) [] = map (\<lambda>(fid, c). (utf8_fix fid, Some (fix_corpus c))) (sort_key fst qs)"
proof -
  have "decode_corpus_ptr (fix_json (encode_corpus c)) None = Some (fix_corpus c)" for c
    using decode_corpus_ptr_printed[of "Some c"] by (simp add: encode_corpus_ptr_def)
  moreover have "distinct (map (utf8_fix \<circ> fst) (sort_key fst qs))"
    using assms by (simp add: distinct_map comp_def)
  ultimately show ?thesis
    unfolding decode_queues_def encode_queues_def by (rule decode_map_printed)
qed

interpretation queues_wire: wire_format "\<lambda>qs. Some (encode_queues qs)" decode_queues "[]"
  "\<lambda>qs. map (\<lambda>(fid, c). (utf8_fix fid, Some (fix_corpus c))) (sort_key fst qs)" "\<lambda>qs. distinct (map (utf8_fix \<circ> fst) qs)"
  by unfold_locales (auto simp: json_ok_queues maxNestingDepth_def decode_queues_printed)

text \<open>The settings keep their values over any old ones without a command: numbers that fit, and UTF-8 in the command.\<close>

definition config_fits :: "FuzzerConfig \<Rightarrow> bool" where
  "config_fits c \<longleftrightarrow> list_all (\<lambda>n. - (2 ^ 63) \<le> n \<and> n < 2 ^ 63) [SyncInterval c, MemLimitMb c, TimeoutMs c] \<and>
     list_all utf8_ok (Command c)"

lemma decode_config_printed:
  assumes "config_fits c" and "Command old = []"
  shows "decode_struct config_fields (fix_json (encode_config c)) old = c"
proof -
  have t: "map utf8_fix (Command c) = Command c"
    using assms(1) by (auto simp: config_fits_def list_all_iff utf8_fix_ok intro: map_idI)
  show ?thesis
    unfolding encode_config_def
    using assms
    by (subst decode_struct_printed[OF struct_names(6)])
      (simp_all add: config_fits_def config_fields_def t decode_list_printed[where f = decode_string and e = JStr and z = "[]", OF decode_text_printed(1)]
        del: fix_json.simps)
qed

interpretation config_wire: wire_format "\<lambda>c. Some (encode_config c)" "decode_struct config_fields" old "\<lambda>c. c"
  "\<lambda>c. config_fits c \<and> Command old = []" for old
  by unfold_locales (auto simp: json_ok_config maxNestingDepth_def decode_config_printed)

interpretation corpus_wire: wire_format "\<lambda>c. Some (encode_corpus c)" decode_corpus_ptr "Some \<lparr>Inputs = []\<rparr>"
  "\<lambda>c. Some (fix_corpus c)" "\<lambda>_. True"
proof
  fix c j assume "Some (encode_corpus c) = Some j"
  then have j: "j = encode_corpus c" by simp
  show "json_ok maxNestingDepth j" unfolding j by (rule json_ok_corpus) (simp add: maxNestingDepth_def)
  show "decode_corpus_ptr (fix_json j) (Some \<lparr>Inputs = []\<rparr>) = Some (fix_corpus c)"
    using decode_corpus_printed[of c] by (simp add: j decode_corpus_ptr_def decode_ptr_def encode_corpus_def)
qed

text \<open>A state all of whose texts are UTF-8 is not changed.\<close>

definition corpus_utf8 :: "InputCorpus option \<Rightarrow> bool" where
  "corpus_utf8 c = (case c of None \<Rightarrow> True | Some c \<Rightarrow> list_all (\<lambda>i. utf8_ok (Name i)) (Inputs c))"

definition stats_utf8 :: "FuzzerStats \<Rightarrow> bool" where
  "stats_utf8 s \<longleftrightarrow> utf8_ok (AflBanner s) \<and> utf8_ok (AflVersion s) \<and> utf8_ok (CommandLine s)"

definition state_utf8 :: "State \<Rightarrow> bool" where
  "state_utf8 s \<longleftrightarrow> utf8_ok (Id s) \<and> stats_utf8 (State.Stats s) \<and> corpus_utf8 (Queue (Output s)) \<and>
     corpus_utf8 (Crashes (Output s)) \<and> corpus_utf8 (Hangs (Output s))"

lemma fix_corpus_utf8: "corpus_utf8 (Some c) \<Longrightarrow> fix_corpus c = c"
  by (cases c) (auto simp: corpus_utf8_def fix_corpus_def fix_input_def list_all_iff utf8_fix_ok intro!: map_idI)

lemma fix_corpus_option: "corpus_utf8 c \<Longrightarrow> map_option fix_corpus c = c"
  using fix_corpus_utf8 by (cases c) auto

lemma fix_State_utf8: "state_utf8 s \<Longrightarrow> fix_State s = s"
  by (cases s) (simp add: state_utf8_def stats_utf8_def fix_State_def fix_stats_def fix_output_def fix_corpus_option utf8_fix_ok)

subsection \<open>Round trips\<close>

lemma marshalled_state:
  assumes "marshal_state s = Inr b" shows "decode_state b = fix_State s"
  using assms state_wire.sent by (auto simp: marshal_state_def decode_state_def split: option.splits)

text \<open>
  C18: A state that was marshalled comes out of the server's decoder as it was, but for its texts, in which
  every byte that is not UTF-8 has become a replacement character; in particular a state with UTF-8 texts
  comes out unchanged, with every byte of every input.
\<close>

theorem marshal_state_roundtrip:
  assumes "marshal_state s = Inr b"
  shows "decode_state b = fix_State s \<and> (state_utf8 s \<longrightarrow> decode_state b = s)"
  using marshalled_state[OF assms] by (simp add: fix_State_utf8)

definition sample_state :: State where
  "sample_state = zero_State\<lparr>Id := ''h-1'', Stats := zero_stats\<lparr>ExecsPerSec := 0x4029000000000000, PathsTotal := 7\<rparr>,
     Output := \<lparr>Queue = Some \<lparr>Inputs = [\<lparr>Name = ''id:0'', Body = [1, 60, 255]\<rparr>]\<rparr>,
       Crashes = Some \<lparr>Inputs = []\<rparr>, Hangs = None\<rparr>\<rparr>"

lemma marshal_state_roundtrip_witness:
  "\<exists>b. marshal_state sample_state = Inr b \<and> decode_state b = sample_state"
proof -
  have "json_float 0x4029000000000000 = Some ''12.5''" "json_float 0 = Some ''0''" by code_simp+
  then obtain b where b: "marshal_state sample_state = Inr b"
    by (simp add: marshal_state_def encode_state_def encode_stats_def sample_state_def zero_State_def zero_stats_def)
  have "state_utf8 sample_state" by code_simp
  with marshal_state_roundtrip[OF b] b show ?thesis by blast
qed

text \<open>
  C19: The queues the server encodes are the queues a client decodes, each under its fuzzer's id and with all
  its inputs, whatever the order of the server's map; texts that are not UTF-8 change as above.
\<close>

theorem queues_json_roundtrip:
  assumes "distinct (map (utf8_fix \<circ> fst) qs)"
  shows "decode_body decode_queues (json_line (encode_queues qs)) [] =
    map (\<lambda>(fid, c). (utf8_fix fid, Some (fix_corpus c))) (sort_key fst qs)"
  using assms by (rule queues_wire.sent_line[OF refl])

definition sample_queues :: "(string \<times> InputCorpus) list" where
  "sample_queues = [(''h-2'', \<lparr>Inputs = [\<lparr>Name = ''id:0'', Body = [7, 8]\<rparr>]\<rparr>), (''h-1'', \<lparr>Inputs = []\<rparr>)]"

lemma queues_json_roundtrip_witness:
  "decode_body decode_queues (json_line (encode_queues sample_queues)) [] =
    [(''h-1'', Some \<lparr>Inputs = []\<rparr>), (''h-2'', Some \<lparr>Inputs = [\<lparr>Name = ''id:0'', Body = [7, 8]\<rparr>]\<rparr>)]"
proof -
  have "distinct (map (utf8_fix \<circ> fst) sample_queues)" by code_simp
  moreover have "map (\<lambda>(fid, c). (utf8_fix fid, Some (fix_corpus c))) (sort_key fst sample_queues) =
    [(''h-1'', Some \<lparr>Inputs = []\<rparr>), (''h-2'', Some \<lparr>Inputs = [\<lparr>Name = ''id:0'', Body = [7, 8]\<rparr>]\<rparr>)]"
    by code_simp
  ultimately show ?thesis using queues_json_roundtrip[of sample_queues] by metis
qed

text \<open>The configuration and the initial corpus, as a client gets them.\<close>

lemma config_json_roundtrip:
  assumes "config_fits c" and "Command old = []"
  shows "decode_body (decode_struct config_fields) (json_line (encode_config c)) old = c"
  using assms by (intro config_wire.sent_line[OF refl]) simp

lemma corpus_json_roundtrip:
  "decode_body decode_corpus_ptr (json_line (encode_corpus c)) (Some \<lparr>Inputs = []\<rparr>) = Some (fix_corpus c)"
  by (rule corpus_wire.sent_line[OF refl]) simp

subsection \<open>What is decoded is UTF-8\<close>

text \<open>A property the reader of every member keeps, the reader of the struct keeps.\<close>

definition keeps_utf8 :: "('r \<Rightarrow> bool) \<Rightarrow> (json \<Rightarrow> 'r \<Rightarrow> 'r) \<Rightarrow> bool" where
  "keeps_utf8 P f \<longleftrightarrow> (\<forall>j r. json_utf8 j \<longrightarrow> P r \<longrightarrow> P (f j r))"

lemma keepsD: "keeps_utf8 P f \<Longrightarrow> json_utf8 j \<Longrightarrow> P r \<Longrightarrow> P (f j r)"
  by (simp add: keeps_utf8_def)

lemma keeps_struct:
  assumes "list_all (\<lambda>f. keeps_utf8 P (snd f)) fs" shows "keeps_utf8 P (decode_struct fs)"
proof -
  have one: "P (set_member fs m r)" if "json_utf8 (snd m)" "P r" for m r
  proof (cases "find (\<lambda>f. fold_key (fst f) = fold_key (fst m)) fs")
    case (Some f)
    then have "f \<in> set fs" by (auto simp: find_Some_iff)
    then show ?thesis using Some assms that keepsD[of P "snd f"] by (simp add: set_member_def list_all_iff)
  qed (simp add: set_member_def that)
  have "P (fold (set_member fs) ms r)" if "list_all (\<lambda>(k, v). utf8_ok k \<and> json_utf8 v) ms" "P r" for ms r
    using that by (induction ms arbitrary: r) (auto simp: one)
  then show ?thesis by (auto simp: keeps_utf8_def decode_struct_def split: json.split)
qed

lemma keeps_string: "keeps_utf8 utf8_ok decode_string"
  by (auto simp: keeps_utf8_def decode_string_def split: json.split)

lemma keeps_list:
  assumes "keeps_utf8 P f" and "P z" shows "keeps_utf8 (list_all P) (decode_list f z)"
proof -
  have "P (f v x)" if "(v, x) \<in> set (zip vs (old @ replicate n z))" "list_all json_utf8 vs" "list_all P old" for v x vs old n
    using that assms set_zip_leftD[OF that(1)] set_zip_rightD[OF that(1)] by (auto simp: list_all_iff intro!: keepsD[OF assms(1)])
  then show ?thesis
    by (fastforce simp: keeps_utf8_def decode_list_def list_all_iff split: json.split)
qed

lemma keeps_ptr:
  assumes "keeps_utf8 P f" and "P z" shows "keeps_utf8 (\<lambda>c. case c of None \<Rightarrow> True | Some c \<Rightarrow> P c) (decode_ptr f z)"
  using assms by (auto simp: keeps_utf8_def decode_ptr_def split: json.split option.split)

lemma keeps_map:
  assumes "keeps_utf8 P f" and "P z"
  shows "keeps_utf8 (list_all (\<lambda>(k, x). utf8_ok k \<and> P x)) (decode_map f z)"
proof -
  have "list_all (\<lambda>(k, x). utf8_ok k \<and> P x) (AList.update k (f v z) m)"
    if "utf8_ok k" "json_utf8 v" "list_all (\<lambda>(k, x). utf8_ok k \<and> P x) m" for k v m
    using that keepsD[OF assms(1) that(2) assms(2)] by (induction m) auto
  then have "list_all (\<lambda>(k, x). utf8_ok k \<and> P x) (fold (\<lambda>(k, v). AList.update k (f v z)) ms m)"
    if "list_all (\<lambda>(k, v). utf8_ok k \<and> json_utf8 v) ms" "list_all (\<lambda>(k, x). utf8_ok k \<and> P x) m" for ms m
    using that by (induction ms arbitrary: m) auto
  then show ?thesis by (auto simp: keeps_utf8_def decode_map_def split: json.split)
qed

lemma keeps_body:
  assumes "keeps_utf8 P f" and "P old" shows "P (decode_body f b old)"
  using assms keepsD[OF assms(1) parse_json_utf8] by (auto simp: decode_body_def split: option.split)

lemma keeps_corpus: "keeps_utf8 corpus_utf8 decode_corpus_ptr"
proof -
  have "keeps_utf8 (\<lambda>i. utf8_ok (Name i)) (decode_struct input_fields)"
    by (rule keeps_struct) (simp add: input_fields_def keeps_utf8_def keepsD[OF keeps_string])
  then have "keeps_utf8 (list_all (\<lambda>i. utf8_ok (Name i))) (decode_list (decode_struct input_fields) \<lparr>Name = [], Body = []\<rparr>)"
    by (rule keeps_list) (simp add: utf8_ok_def)
  then have "keeps_utf8 (\<lambda>c. list_all (\<lambda>i. utf8_ok (Name i)) (Inputs c)) (decode_struct corpus_fields)"
    by (intro keeps_struct) (auto simp: corpus_fields_def keeps_utf8_def)
  from keeps_ptr[OF this, of "\<lparr>Inputs = []\<rparr>"] show ?thesis
    unfolding decode_corpus_ptr_def corpus_utf8_def[abs_def] by simp
qed

lemma keeps_stats: "keeps_utf8 stats_utf8 (decode_struct stats_fields)"
  by (rule keeps_struct) (simp add: stats_fields_def keeps_utf8_def stats_utf8_def keepsD[OF keeps_string])

lemma keeps_state: "keeps_utf8 state_utf8 (decode_struct state_fields)"
proof -
  let ?P = "\<lambda>out. corpus_utf8 (Queue out) \<and> corpus_utf8 (Crashes out) \<and> corpus_utf8 (Hangs out)"
  have "keeps_utf8 ?P (decode_struct output_fields)"
    by (rule keeps_struct) (simp add: output_fields_def keeps_utf8_def keepsD[OF keeps_corpus])
  note o = keepsD[OF this]
  show ?thesis
    by (rule keeps_struct)
      (use o in \<open>auto simp: state_fields_def keeps_utf8_def state_utf8_def keepsD[OF keeps_string] keepsD[OF keeps_stats]\<close>)
qed

lemma decode_state_utf8: "state_utf8 (decode_state body)"
proof -
  have "utf8_ok []" by (simp add: utf8_ok_def)
  then have "state_utf8 zero_State"
    by (simp add: state_utf8_def zero_State_def corpus_utf8_def stats_utf8_def zero_stats_def)
  then show ?thesis unfolding decode_state_def by (rule keeps_body[OF keeps_state])
qed

lemma decode_queues_utf8: "list_all (\<lambda>(fid, c). utf8_ok fid \<and> corpus_utf8 c) (decode_body decode_queues body [])"
  unfolding decode_queues_def by (rule keeps_body[OF keeps_map[OF keeps_corpus]]) (simp_all add: corpus_utf8_def)

end
