(* ===== verification/Cluster.thy ===== *)
theory Cluster
  imports Admin ClientMain Codec
begin

text \<open>
  A client and a server together: the network of a client is the server itself (\<open>server/server.go\<close>, the
  routes of \<open>SetupAndServe\<close>, those of the clients and those of the admin pages, on one side, \<open>client/server_client.go\<close> on the other). A handler that panics
  drops the connection; \<open>log.Fatal\<close> ends the server, and every later request finds nobody. The JSON both
  sides use, an argument of the handlers and of the client's operations, is given here by the codecs of theory
  \<open>Codec\<close>: \<open>go_server_codec\<close> and \<open>go_codec\<close>.
\<close>

record server_codec =
  DecodeState :: "bytes \<Rightarrow> State"
  EncodeJson :: "response \<Rightarrow> bytes"

definition go_server_codec :: server_codec where
  "go_server_codec = \<lparr>DecodeState = decode_state,
     EncodeJson = (\<lambda>r. case r of
         JsonQueues qs \<Rightarrow> json_line (encode_queues qs)
       | JsonConfig c \<Rightarrow> json_line (encode_config c)
       | JsonInputs c \<Rightarrow> json_line (encode_corpus c)
       | OctetStream b \<Rightarrow> b
       | PlainText b \<Rightarrow> b
       | Html b \<Rightarrow> b)\<rparr>"

text \<open>
  \<open>Decode\<close> from a response that may break off: an array or an object counts as soon as it is closed, another
  value only when something follows it or the stream has ended in order.
\<close>

definition closes_itself :: "json \<Rightarrow> bool" where
  "closes_itself j = (case j of JArr _ \<Rightarrow> True | JObj _ \<Rightarrow> True | _ \<Rightarrow> False)"

definition decode_stream :: "(json \<Rightarrow> 'a \<Rightarrow> 'a) \<Rightarrow> stream \<Rightarrow> 'a \<Rightarrow> 'a" where
  "decode_stream f body old =
     (case parse_json (string_of_bytes (Content body)) of
        None \<Rightarrow> old
      | Some (j, rest) \<Rightarrow>
          if ReadErr body = None \<or> rest \<noteq> [] \<or> closes_itself j then f j old else old)"

text \<open>\<open>qord\<close> is the order in which the client's range loop visits the map of queues.\<close>

definition go_codec :: "(queues \<Rightarrow> queues) \<Rightarrow> codec" where
  "go_codec qord = \<lparr>DecodeConfig = decode_stream (decode_struct config_fields),
     DecodeInputs = decode_stream decode_corpus_ptr,
     DecodeQueues = (\<lambda>body old. qord (decode_stream decode_queues body old)),
     Marshal = marshal_state\<rparr>"

definition queue_order :: "(queues \<Rightarrow> queues) \<Rightarrow> bool" where
  "queue_order qord \<longleftrightarrow> (\<forall>m. mset (qord m) = mset m)"

lemma decode_stream_whole: "decode_stream f \<lparr>Content = b, ReadErr = None\<rparr> old = decode_body f b old"
  by (simp add: decode_stream_def decode_body_def split: option.split)

definition encode_body :: "server_codec \<Rightarrow> response \<Rightarrow> bytes" where
  "encode_body sc r = (case r of OctetStream b \<Rightarrow> b | PlainText b \<Rightarrow> b | Html b \<Rightarrow> b | _ \<Rightarrow> EncodeJson sc r)"

definition ok_response :: "bytes \<Rightarrow> http_response" where
  "ok_response b = \<lparr>StatusCode = 200, RespBody = \<lparr>Content = b, ReadErr = None\<rparr>\<rparr>"

text \<open>
  The routes, in the order they are registered. \<open>pat.Get\<close> takes GET and HEAD, whose answer has no body; the pattern
  of the input page begins with a literal prefix, and the rest of the match is the server's
  \<open>input_route\<close>.
\<close>

definition input_request :: "('s3, 'z) server_scheme \<Rightarrow> string \<Rightarrow> (string \<times> string \<times> string) option" where
  "input_request w path = (if prefix ''/admin/fuzzer/'' path then input_route w path else None)"

definition dispatch :: "server_codec \<Rightarrow> map_order \<Rightarrow> int \<Rightarrow> string \<Rightarrow> string \<Rightarrow> bytes \<Rightarrow> ('s3, 'z, http_response) sgo" where
  "dispatch sc ord now method path body w =
     (let get = (method = ''GET'' \<or> method = ''HEAD'');
          answer = (\<lambda>h. go_try h (\<lambda>r. go_ret (ok_response (if method = ''HEAD'' then [] else encode_body sc r))) w)
      in if get \<and> (path = ''/'' \<or> path = ''/admin'') then answer adminIndex
         else if get \<and> path = ''/admin/archive'' then answer adminArchive
         else if get \<and> input_request w path \<noteq> None then
           (case the (input_request w path) of (fid, kind, name) \<Rightarrow> answer (adminInput fid kind name))
         else if get \<and> path = ''/admin/output'' then answer adminOutput
         else if method = ''POST'' \<and> path = ''/state'' then go_then (postState ord now (DecodeState sc body)) (go_ret (ok_response [])) w
         else if get \<and> path = ''/queue'' then answer getQueues
         else if get \<and> path = ''/config'' then answer getConfig
         else if get \<and> path = ''/target/binary'' then answer getTargetBinary
         else if get \<and> path = ''/inputs'' then answer getInputs
         else if get \<and> path = ''/dict'' then answer getDict
         else (Inr \<lparr>StatusCode = 404, RespBody = \<lparr>Content = [], ReadErr = None\<rparr>\<rparr>, w))"

text \<open>What the clients ask for goes to the handlers of the clients.\<close>

lemma input_request_other: "\<not> prefix ''/admin/fuzzer/'' path \<Longrightarrow> input_request w path = None"
  by (simp add: input_request_def)

lemma dispatch_client:
  "dispatch sc ord now ''POST'' ''/state'' body w = go_then (postState ord now (DecodeState sc body)) (go_ret (ok_response [])) w"
  "dispatch sc ord now ''GET'' ''/queue'' body w = go_try getQueues (\<lambda>r. go_ret (ok_response (encode_body sc r))) w"
  "dispatch sc ord now ''GET'' ''/config'' body w = go_try getConfig (\<lambda>r. go_ret (ok_response (encode_body sc r))) w"
  "dispatch sc ord now ''GET'' ''/target/binary'' body w = go_try getTargetBinary (\<lambda>r. go_ret (ok_response (encode_body sc r))) w"
  "dispatch sc ord now ''GET'' ''/inputs'' body w = go_try getInputs (\<lambda>r. go_ret (ok_response (encode_body sc r))) w"
  "dispatch sc ord now ''GET'' ''/dict'' body w = go_try getDict (\<lambda>r. go_ret (ok_response (encode_body sc r))) w"
  by (simp_all add: dispatch_def input_request_def)

text \<open>The server at the address \<open>host\<close> as the network of a client; \<open>None\<close> is a server that has ended.\<close>

definition serve ::
  "server_codec \<Rightarrow> map_order \<Rightarrow> string \<Rightarrow> int \<Rightarrow> request \<Rightarrow> ('s3, 'z) server_scheme option \<Rightarrow>
   reply \<times> bytes \<times> ('s3, 'z) server_scheme option" where
  "serve sc ord host now req state =
     (case state of
        None \<Rightarrow> (Inl (ErrMsg ''connection refused''), ReqBody req, None)
      | Some sv \<Rightarrow>
          if length (ReqBody req) < ContentLength req then (Inl (ErrMsg ''body too short''), ReqBody req, Some sv)
          else (case dispatch sc ord now (Method req) (drop (length host) (Url req)) (ReqBody req) sv of
              (Inr resp, sv') \<Rightarrow> (Inr resp, [], Some sv')
            | (Inl (Fatal _), _) \<Rightarrow> (Inl (ErrMsg ''EOF''), [], None)
            | (Inl _, sv') \<Rightarrow> (Inl (ErrMsg ''EOF''), [], Some sv')))"

subsection \<open>A report without an archive\<close>

lemma ArchiveManifest_null:
  fixes w :: "('s3, 'z) world_scheme"
  shows "\<exists>es. ArchiveManifest NullArchiver m w = (Inr (), w\<lparr>w_events := es\<rparr>)"
proof -
  have "\<exists>es. each (archive_entry NullArchiver r) xs w = (Inr (), w\<lparr>w_events := es\<rparr>)" for r xs and w :: "('s3, 'z) world_scheme"
  proof (induction xs arbitrary: w)
    case Nil
    show ?case by (intro exI[of _ "w_events w"]) simp
  next
    case (Cons x xs)
    have e: "archive_entry NullArchiver r x w = (Inr (), w\<lparr>w_events := w_events w @
        [metric_event w Counter ''archive_one.success'' (f32_of_uint 1) [(''srcRoot'', r)]]\<rparr>)"
      by (simp add: archive_entry_def archiveOne_def Submit_ok)
    obtain es where "each (archive_entry NullArchiver r) xs (w\<lparr>w_events := w_events w @
        [metric_event w Counter ''archive_one.success'' (f32_of_uint 1) [(''srcRoot'', r)]]\<rparr>) =
      (Inr (), w\<lparr>w_events := w_events w @
        [metric_event w Counter ''archive_one.success'' (f32_of_uint 1) [(''srcRoot'', r)]]\<rparr>\<lparr>w_events := es\<rparr>)"
      using Cons.IH by blast
    then show ?case using e by (intro exI[of _ es]) simp
  qed
  then obtain es where "each (archive_entry NullArchiver (srcRoot m)) (entries m) (w\<lparr>w_events := w_events w @
      [metric_event w Counter ''archive_manifest'' (f32_of_uint (of_nat (length (entries m)))) [(''root'', srcRoot m)]]\<rparr>) =
    (Inr (), w\<lparr>w_events := w_events w @
      [metric_event w Counter ''archive_manifest'' (f32_of_uint (of_nat (length (entries m)))) [(''root'', srcRoot m)]]\<rparr>\<lparr>w_events := es\<rparr>)"
    by blast
  then show ?thesis by (intro exI[of _ es]) (simp add: ArchiveManifest_def Submit_ok)
qed

lemma archiveNewCrashes_null:
  fixes w :: "('s3, 'z) world_scheme"
  assumes "outputs_ready (w_fs w) bs" and "range_order ord"
  shows "\<exists>es. archiveNewCrashes ord (fleet bs) NullArchiver w = (Inr (), w\<lparr>w_events := es\<rparr>)"
proof -
  let ?outs = "map (\<lambda>fid. (fid, output_of (w_fs w) (out_path bs fid))) (fleet_ids (w_fs w) bs)"
  have outs: "ReadOutputs (fleet bs) (w_fs w) = (Inr ?outs, w_fs w)"
    using assms(1) by (intro ReadOutputs_all_ready) (auto simp: outputs_ready_def list_all_iff)
  obtain ids where ids: "ord ?outs = map (\<lambda>fid. (fid, output_of (w_fs w) (out_path bs fid))) ids"
    "distinct ids" "set ids = set (fleet_ids (w_fs w) bs)"
    using range_order_graph[OF assms(2) fleet_ids_facts(2)] by metis
  then obtain m where m: "fold_res (add_output (fleet bs) []) (ord ?outs) \<lparr>srcRoot = abs_of bs, entries = []\<rparr> = Inr m"
    using crash_manifest_ok[OF assms(1), of "[]" ids "\<lparr>srcRoot = abs_of bs, entries = []\<rparr>"] by simp
  obtain es where "ArchiveManifest NullArchiver m w = (Inr (), w\<lparr>w_events := es\<rparr>)"
    using ArchiveManifest_null by blast
  then show ?thesis using outs m
    by (intro exI[of _ es]) (simp add: archiveNewCrashes_def LsDstFiles_def fleet_def)
qed

text \<open>What a report leaves on a server that has no archive.\<close>

lemma outputs_ready_fleet_ready:
  assumes "outputs_ready fs bs" shows "fleet_ready fs bs"
proof -
  have "fs_is_dir fs (queue_path bs fid)" if "fid \<in> set (fleet_ids fs bs)" for fid
  proof -
    have "valid_name fid" using that assms fleet_ids_valid by (auto simp: outputs_ready_def dir_ready_def)
    then show ?thesis
      using that assms out_path_fid[of fid bs]
      by (auto simp: outputs_ready_def list_all_iff out_ready_dirs dir_ready_def queue_path_def)
  qed
  then show ?thesis using assms by (auto simp: outputs_ready_def fleet_ready_def list_all_iff)
qed

text \<open>The handler changes the files as storing the report does, the table of nodes, and the events.\<close>

lemma postState_stored:
  fixes sv :: "('s3, 'z) server_scheme"
  assumes "fileManager sv = fleet bs" and "archiver sv = NullArchiver" and "range_order ord"
    and "server_ready (w_fs sv) bs" and "valid_name fid" and "post_ok (w_fs sv) (out_path bs fid) q c h"
  obtains fs2 es where "postState ord now (report fid st q c h) sv =
      (Inr (), sv\<lparr>w_fs := fs2, w_events := es, nodes := \<lparr>NodeStats = AList.update fid st (NodeStats (nodes sv)),
         updates = AList.update fid now (updates (nodes sv))\<rparr>\<rparr>)"
    and "outputs_ready fs2 bs" and "fs_denied fs2 = fs_denied (w_fs sv)"
    and "\<And>d. fs_is_dir fs2 d \<longleftrightarrow> fs_is_dir (w_fs sv) d \<or> (\<exists>p\<in>set (corpus_paths (out_path bs fid)). prefix d p)"
    and "\<And>e. dir_files fs2 e =
       (if e = out_path bs fid @ [''queue''] then stored (dir_files (w_fs sv) e) q
        else if e = out_path bs fid @ [''crashes''] then stored (dir_files (w_fs sv) e) c
        else if e = out_path bs fid @ [''hangs''] then stored (dir_files (w_fs sv) e) h
        else dir_files (w_fs sv) e)"
proof -
  from register_output[OF assms(4-6)] obtain fs1 fs2 where
    mk: "MkAllOutputDirs (mgr bs fid) (w_fs sv) = (Inr (), fs1)" and
    wr: "WriteOutput (mgr bs fid) (full_output q c h) fs1 = (Inr (), fs2)" and
    out: "outputs_ready fs2 bs" and den: "fs_denied fs2 = fs_denied (w_fs sv)" and
    dirs: "\<And>d. fs_is_dir fs2 d \<longleftrightarrow> fs_is_dir (w_fs sv) d \<or> (\<exists>p\<in>set (corpus_paths (out_path bs fid)). prefix d p)" and
    files: "\<And>e. dir_files fs2 e =
       (if e = out_path bs fid @ [''queue''] then stored (dir_files (w_fs sv) e) q
        else if e = out_path bs fid @ [''crashes''] then stored (dir_files (w_fs sv) e) c
        else if e = out_path bs fid @ [''hangs''] then stored (dir_files (w_fs sv) e) h
        else dir_files (w_fs sv) e)"
    by blast
  let ?w1 = "sv\<lparr>w_events := w_events sv @ [metric_event sv Gauge ''fuzzer.queue_size''
     (f32_of_uint (of_nat (length q))) [(''fuzzer_id'', fid)]]\<rparr>"
  let ?w3 = "?w1\<lparr>w_fs := fs2\<rparr>"
  obtain es where arch: "archiveNewCrashes ord (fleet bs) NullArchiver ?w3 = (Inr (), ?w3\<lparr>w_events := es\<rparr>)"
    using archiveNewCrashes_null[of ?w3 bs ord] out assms(3) by auto
  let ?w4 = "?w3\<lparr>w_events := es\<rparr>"
  have "postState ord now (report fid st q c h) sv =
      (Inr (), ?w4\<lparr>nodes := \<lparr>NodeStats = AList.update fid st (NodeStats (nodes ?w4)),
         updates = AList.update fid now (updates (nodes ?w4))\<rparr>\<rparr>)"
    using mk wr arch assms(1,2)
    by (simp add: postState_def report_def full_output_def corpus_len_def pure_def Submit_ok
        MkAllOutputDirs_fleet_def WriteOutput_fleet_def setStats_ok)
  then have "postState ord now (report fid st q c h) sv =
      (Inr (), sv\<lparr>w_fs := fs2, w_events := es, nodes := \<lparr>NodeStats = AList.update fid st (NodeStats (nodes sv)),
         updates = AList.update fid now (updates (nodes sv))\<rparr>\<rparr>)"
    by simp
  then show thesis using out den dirs files by (rule that)
qed

lemma postState_null:
  fixes sv :: "('s3, 'z) server_scheme"
  assumes "fileManager sv = fleet bs" and "archiver sv = NullArchiver" and "range_order ord"
    and "server_ready (w_fs sv) bs" and "valid_name fid" and "post_ok (w_fs sv) (out_path bs fid) q c h"
  shows "\<exists>sv'. postState ord now (report fid st q c h) sv = (Inr (), sv') \<and>
    fileManager sv' = fleet bs \<and> outputs_ready (w_fs sv') bs \<and>
    set (fleet_ids (w_fs sv') bs) = insert fid (set (fleet_ids (w_fs sv) bs)) \<and>
    dir_files (w_fs sv') (queue_path bs fid) = stored (dir_files (w_fs sv) (queue_path bs fid)) q \<and>
    (\<forall>g. g \<noteq> fid \<longrightarrow> dir_files (w_fs sv') (queue_path bs g) = dir_files (w_fs sv) (queue_path bs g)) \<and>
    map_of (NodeStats (nodes sv')) = (map_of (NodeStats (nodes sv)))(fid \<mapsto> st)"
proof -
  note p = out_path_fid[OF assms(5), of bs]
  obtain fs2 es where post: "postState ord now (report fid st q c h) sv =
      (Inr (), sv\<lparr>w_fs := fs2, w_events := es, nodes := \<lparr>NodeStats = AList.update fid st (NodeStats (nodes sv)),
         updates = AList.update fid now (updates (nodes sv))\<rparr>\<rparr>)" (is "_ = (_, ?sv')")
    and out: "outputs_ready fs2 bs" and "fs_denied fs2 = fs_denied (w_fs sv)"
    and dirs: "\<And>d. fs_is_dir fs2 d \<longleftrightarrow> fs_is_dir (w_fs sv) d \<or> (\<exists>p\<in>set (corpus_paths (out_path bs fid)). prefix d p)"
    and files: "\<And>e. dir_files fs2 e =
       (if e = out_path bs fid @ [''queue''] then stored (dir_files (w_fs sv) e) q
        else if e = out_path bs fid @ [''crashes''] then stored (dir_files (w_fs sv) e) c
        else if e = out_path bs fid @ [''hangs''] then stored (dir_files (w_fs sv) e) h
        else dir_files (w_fs sv) e)"
    by (rule postState_stored[OF assms, of now st], rule that)
  have "set (fleet_ids fs2 bs) = insert fid (set (fleet_ids (w_fs sv) bs))"
    using dirs by (auto simp: fleet_ids_set corpus_paths_def p)
  moreover have "dir_files fs2 (queue_path bs fid) = stored (dir_files (w_fs sv) (queue_path bs fid)) q"
    using files[of "queue_path bs fid"] by (simp add: p queue_path_def)
  moreover have "dir_files fs2 (queue_path bs g) = dir_files (w_fs sv) (queue_path bs g)" if "g \<noteq> fid" for g
    using that files[of "queue_path bs g"] by (simp add: p queue_path_def)
  ultimately show ?thesis
    using post assms(1) out by (intro exI[of _ ?sv']) simp
qed

subsection \<open>A request to the server\<close>

text \<open>A client of the server \<open>sv\<close> at the address \<open>host\<close>.\<close>

definition connected ::
  "server_codec \<Rightarrow> map_order \<Rightarrow> string \<Rightarrow> int \<Rightarrow> ('s3, 'z) server_scheme \<Rightarrow> ('t3, ('s3, 'z) server_scheme option, 'y) client_world_scheme \<Rightarrow> bool" where
  "connected sc ord host now sv w \<longleftrightarrow>
     net w = Some sv \<and> net_do w = serve sc ord host now \<and> net_new_request w = (\<lambda>_ _. None)"

lemma makeRequest_connected:
  assumes "connected sc ord (hostport s) now sv w"
    and "dispatch sc ord now method (''/'' @ path) (case body of None \<Rightarrow> [] | Some b \<Rightarrow> b) sv = (Inr resp, sv')"
    and "StatusCode resp = 200"
  shows "\<exists>acts. makeRequest s method path body w =
    (Inr resp, w\<lparr>net := Some sv', c_log := c_log w @ acts\<rparr>) \<and> signals acts = []"
proof -
  let ?req = "\<lparr>Method = method, Url = hostport s @ ''/'' @ path,
      ReqBody = (case body of None \<Rightarrow> [] | Some b \<Rightarrow> b), ContentLength = length (case body of None \<Rightarrow> [] | Some b \<Rightarrow> b)\<rparr>"
  have "attempt ?req w = (Some resp, ?req\<lparr>ReqBody := []\<rparr>, w\<lparr>net := Some sv', c_log := c_log w @ [Sent ?req]\<rparr>)"
    using assms by (simp add: attempt_def connected_def serve_def)
  from makeRequest_loop_rounds(1)[OF this, of s 0] show ?thesis
    using assms(1) by (intro exI[of _ "[Sent ?req]"]) (simp add: makeRequest_def Let_def connected_def)
qed

subsection \<open>A client's queue reaches the server\<close>

text \<open>The output of a fuzzer on a client's disk, as \<open>ReadOutput\<close> finds it.\<close>

abbreviation disk_queue :: "fs \<Rightarrow> path \<Rightarrow> string \<Rightarrow> Input list" where
  "disk_queue fs as fid \<equiv> Inputs (corpus_of fs (out_path as fid @ [''queue'']))"

definition disk_report :: "fs \<Rightarrow> path \<Rightarrow> string \<Rightarrow> FuzzerStats \<Rightarrow> State" where
  "disk_report fs as fid st =
     report fid st (disk_queue fs as fid) (Inputs (corpus_of fs (out_path as fid @ [''crashes''])))
       (Inputs (corpus_of fs (out_path as fid @ [''hangs''])))"

definition post_fits :: "fs \<Rightarrow> path \<Rightarrow> fs \<Rightarrow> path \<Rightarrow> string \<Rightarrow> bool" where
  "post_fits sfs bs fs as fid \<longleftrightarrow>
     post_ok sfs (out_path bs fid) (disk_queue fs as fid) (Inputs (corpus_of fs (out_path as fid @ [''crashes''])))
       (Inputs (corpus_of fs (out_path as fid @ [''hangs''])))"

lemma ReadState_disk:
  assumes "FileManager f = mgr as fid" and "FuzzerId f = fid" and "valid_names as" and "fuzzer_ok fid"
    and "out_ready fs (out_path as fid)" and "ReadFuzzerStats (mgr as fid) fs = (Inr st, fs)"
  shows "ReadState f fs = (Inr (disk_report fs as fid st), fs)"
  using assms ReadOutput_ok[OF assms(3-5)]
  by (simp add: ReadState_def disk_report_def report_def full_output_def)

lemma upload_connected:
  fixes w :: "('t3, ('s3, 'z) server_scheme option, 'y) fuzz_world_scheme"
  assumes f: "FileManager f = mgr as fid" "FuzzerId f = fid" "valid_names as" "valid_name fid"
      "out_ready (w_fs w) (out_path as fid)" "ReadFuzzerStats (mgr as fid) (w_fs w) = (Inr st, w_fs w)"
    and run: "proc w \<in> {Running, Paused}"
    and conn: "connected sc ord (hostport srv) now sv w"
    and codec: "marshal (disk_report (w_fs w) as fid st) = Inr json" "DecodeState sc json = disk_report (w_fs w) as fid st"
    and post: "postState ord now (disk_report (w_fs w) as fid st) sv = (Inr (), sv')"
  shows "\<exists>w'. uploadState marshal srv elapsed f w = (Inr (), w') \<and> proc w' = Running \<and> w_fs w' = w_fs w \<and>
    connected sc ord (hostport srv) now sv' w'"
proof -
  let ?w1 = "w\<lparr>proc := Paused, c_log := c_log w @ [Signalled SIGSTOP]\<rparr>"
  have st: "stop w = (Inr (), ?w1)" using run by (auto simp: stop_def send_signal_def)
  have rs: "on_fs (ReadState f) ?w1 = (Inr (disk_report (w_fs w) as fid st), ?w1)"
    using ReadState_disk[of f as fid "w_fs w" st] f by (intro on_fs_same) (simp add: fuzzer_ok_def)
  have "connected sc ord (hostport srv) now sv ?w1" using conn by (simp add: connected_def)
  moreover have "dispatch sc ord now ''POST'' (''/'' @ ''state'') json sv = (Inr (ok_response []), sv')"
    using post codec(2) by (simp add: dispatch_client)
  ultimately obtain acts where "makeRequest srv ''POST'' ''state'' (Some json) ?w1 =
      (Inr (ok_response []), ?w1\<lparr>net := Some sv', c_log := c_log ?w1 @ acts\<rparr>)"
    using makeRequest_connected[of sc ord srv now sv ?w1 "''POST''" "''state''" "Some json" "ok_response []" sv']
    by (auto simp: ok_response_def)
  then have "UploadState marshal srv (disk_report (w_fs w) as fid st) ?w1 =
      (Inr (), ?w1\<lparr>net := Some sv', c_log := c_log ?w1 @ acts\<rparr>)" (is "_ = (_, ?w2)")
    using codec(1) by (simp add: UploadState_def)
  then have body: "upload_body marshal srv f ?w1 = (Inr (), ?w2\<lparr>w_events := w_events ?w2 @ [upload_event ?w2 f True]\<rparr>)"
    using rs by (simp add: upload_body_def Submit_ok upload_event_def)
  let ?w3 = "?w2\<lparr>w_events := w_events ?w2 @ [upload_event ?w2 f True]\<rparr>"
  let ?w4 = "?w3\<lparr>w_events := w_events ?w3 @ [paused_event ?w3 f elapsed]\<rparr>"
  let ?w5 = "?w4\<lparr>proc := Running, c_log := c_log ?w4 @ [Signalled SIGCONT]\<rparr>"
  have "uploadState marshal srv elapsed f w = (Inr (), ?w5)"
    using st body
    by (simp add: uploadState_def go_defer_def Submit_ok paused_event_def start_fuzzer_def send_signal_def)
  moreover have "connected sc ord (hostport srv) now sv' ?w5" using conn by (simp add: connected_def)
  ultimately show ?thesis by (intro exI[of _ ?w5]) simp
qed

subsection \<open>The server's queues reach a client\<close>

text \<open>What \<open>GET /queue\<close> sends.\<close>

definition server_queues :: "fs \<Rightarrow> path \<Rightarrow> (string \<times> InputCorpus) list" where
  "server_queues fs bs = map (\<lambda>g. (g, corpus_of fs (queue_path bs g))) (fleet_ids fs bs)"

lemma corpus_of_valid: "fs_wf fs \<Longrightarrow> i \<in> set (Inputs (corpus_of fs p)) \<Longrightarrow> valid_name (Name i)"
proof -
  assume wf: "fs_wf fs" and i: "i \<in> set (Inputs (corpus_of fs p))"
  then have "fs_lookup fs (p @ [Name i]) = Some (File (Body i))" by (simp add: corpus_of_set dir_files_Some)
  from fs_wf_lookup[OF wf this] show "valid_name (Name i)" ..
qed

lemma server_queues_names:
  assumes "outputs_ready fs bs"
  shows "distinct (map fst (server_queues fs bs))"
    and "\<forall>(g, c)\<in>set (server_queues fs bs). valid_name g \<and> (\<forall>i\<in>set (Inputs c). valid_name (Name i))"
proof -
  have wf: "fs_wf fs" using assms by (simp add: outputs_ready_def dir_ready_def)
  show "distinct (map fst (server_queues fs bs))" by (simp add: server_queues_def comp_def)
  show "\<forall>(g, c)\<in>set (server_queues fs bs). valid_name g \<and> (\<forall>i\<in>set (Inputs c). valid_name (Name i))"
    using fleet_ids_valid[OF wf] corpus_of_valid[OF wf] by (auto simp: server_queues_def)
qed

lemma rearranged_queues:
  assumes "mset qs = mset rs" and "distinct (map fst rs)"
  shows "distinct (map fst qs) \<and> map_of qs = map_of rs \<and> (queues_ok fs cs rs \<longrightarrow> queues_ok fs cs qs)"
proof -
  have s: "set qs = set rs" using assms(1) by (rule mset_eq_setD)
  have "mset (map fst qs) = mset (map fst rs)" using assms(1) by simp
  then have d: "distinct (map fst qs)" using assms(2) by (metis mset_eq_imp_distinct_iff)
  have "map_of qs = map_of rs" using map_of_inject_set[OF d assms(2)] s by simp
  then show ?thesis using d s by (auto simp: queues_ok_def list_all_iff)
qed

lemma download_connected:
  assumes conn: "connected sc ord (hostport srv) now sv w"
    and sv: "fileManager sv = fleet bs" "outputs_ready (w_fs sv) bs"
    and codec: "DecodeQueues c \<lparr>Content = EncodeJson sc (JsonQueues (server_queues (w_fs sv) bs)), ReadErr = None\<rparr> [] =
      some_queues qs" "mset qs = mset (server_queues (w_fs sv) bs)"
    and cs: "valid_names cs" "fs_wf (w_fs w)" "queues_ok (w_fs w) cs (server_queues (w_fs sv) bs)"
  shows "\<exists>w'. downloadQueues c srv (fleet cs) w = (Inr (), w') \<and> net w' = Some sv \<and>
    (\<forall>g. fleet_queues (w_fs w') cs g = (case map_of (server_queues (w_fs sv) bs) g of
        None \<Rightarrow> fleet_queues (w_fs w) cs g
      | Some q \<Rightarrow> Some (absorb (fleet_queues (w_fs w) cs g) q)))"
proof -
  let ?qs = "server_queues (w_fs sv) bs"
  have "ReadQueues (fleet bs) (w_fs sv) = (Inr ?qs, w_fs sv)"
    using ReadQueues_ok[OF outputs_ready_fleet_ready[OF sv(2)]] by (simp add: server_queues_def)
  then have "getQueues sv = (Inr (JsonQueues ?qs), sv)"
    using sv(1) by (simp add: getQueues_def on_fs_same[of "ReadQueues (fleet bs)" sv "Inr ?qs"])
  then have "dispatch sc ord now ''GET'' (''/'' @ ''queue'') [] sv =
      (Inr (ok_response (EncodeJson sc (JsonQueues ?qs))), sv)"
    by (simp add: dispatch_client encode_body_def)
  then obtain acts where "makeRequest srv ''GET'' ''queue'' None w =
      (Inr (ok_response (EncodeJson sc (JsonQueues ?qs))), w\<lparr>net := Some sv, c_log := c_log w @ acts\<rparr>)"
    using makeRequest_connected[OF conn, of "''GET''" "''queue''" None] by (auto simp: ok_response_def)
  then have f: "FetchQueues (DecodeQueues c) srv w = (Inr (some_queues qs), w\<lparr>net := Some sv, c_log := c_log w @ acts\<rparr>)"
    using codec by (simp add: FetchQueues_def ok_response_def)
  have same: "distinct (map fst qs)" "map_of qs = map_of ?qs" "queues_ok (w_fs w) cs qs"
    using rearranged_queues[OF codec(2)] server_queues_names(1)[OF sv(2)] cs(3) by auto
  obtain fs' where fs': "WriteQueues (fleet cs) (some_queues qs) (w_fs w) = (Inr (), fs')"
    "\<forall>g. fleet_queues fs' cs g = (case map_of ?qs g of
        None \<Rightarrow> fleet_queues (w_fs w) cs g
      | Some q \<Rightarrow> Some (absorb (fleet_queues (w_fs w) cs g) q))"
    using WriteQueues_merges[OF cs(1,2) same(3)] unfolding same(2) by blast
  let ?w1 = "w\<lparr>net := Some sv, c_log := c_log w @ acts, w_fs := fs'\<rparr>"
  have "downloadQueues c srv (fleet cs) w = (Inr (), ?w1\<lparr>w_events := w_events ?w1 @ [download_event ?w1 True]\<rparr>)"
    using f fs'(1) by (simp add: downloadQueues_def Submit_ok download_event_def)
  then show ?thesis using fs'(2)
    by (intro exI[of _ "?w1\<lparr>w_events := w_events ?w1 @ [download_event ?w1 True]\<rparr>"]) simp
qed

text \<open>An input of a fuzzer's queue, new to the server and to the client that downloads it.\<close>

lemma corpus_stored:
  assumes "dir_files fs p n = Some b" and "n \<noteq> readmeFilename" and "old n = None"
  shows "stored old (Inputs (corpus_of fs p)) n = Some b"
proof -
  have "\<lparr>Name = n, Body = b\<rparr> \<in> set (Inputs (corpus_of fs p))" using assms(1,2) by (simp add: corpus_of_set)
  from stored_distinct[OF corpus_of_names_sd(2) this, of old] show ?thesis
    using assms(3) by (simp add: old_body_def)
qed

subsection \<open>With the code's JSON\<close>

text \<open>The ids and the names of a server's queues are UTF-8.\<close>

definition fleet_utf8 :: "fs \<Rightarrow> path \<Rightarrow> bool" where
  "fleet_utf8 fs bs \<longleftrightarrow>
     list_all (\<lambda>g. utf8_ok g \<and> corpus_utf8 (Some (corpus_of fs (queue_path bs g)))) (fleet_ids fs bs)"

lemma queue_utf8_iff:
  "corpus_utf8 (Some (corpus_of fs p)) \<longleftrightarrow> (\<forall>n b. dir_files fs p n = Some b \<longrightarrow> n \<noteq> readmeFilename \<longrightarrow> utf8_ok n)"
proof -
  have "(\<forall>i\<in>set (Inputs (corpus_of fs p)). utf8_ok (Name i)) \<longleftrightarrow>
      (\<forall>n b. dir_files fs p n = Some b \<longrightarrow> n \<noteq> readmeFilename \<longrightarrow> utf8_ok n)"
    unfolding Ball_def corpus_of_set by (metis Input.select_convs)
  then show ?thesis by (simp add: corpus_utf8_def list_all_iff)
qed

lemma fleet_utf8_report:
  assumes "fleet_utf8 fs bs" and "fs_wf fs" and "utf8_ok fid" and "corpus_utf8 (Some \<lparr>Inputs = q\<rparr>)"
    and ids: "set (fleet_ids fs' bs) = insert fid (set (fleet_ids fs bs))"
    and own: "dir_files fs' (queue_path bs fid) = stored (dir_files fs (queue_path bs fid)) q"
    and others: "\<forall>g. g \<noteq> fid \<longrightarrow> dir_files fs' (queue_path bs g) = dir_files fs (queue_path bs g)"
  shows "fleet_utf8 fs' bs"
proof -
  have old: "utf8_ok n" if "g \<in> set (fleet_ids fs bs)" "dir_files fs (queue_path bs g) n = Some b" "n \<noteq> readmeFilename" for g n b
    using assms(1) that unfolding fleet_utf8_def list_all_iff queue_utf8_iff by blast
  have "corpus_utf8 (Some (corpus_of fs' (queue_path bs fid)))"
    unfolding queue_utf8_iff own
  proof (intro allI impI)
    fix n b assume n: "stored (dir_files fs (queue_path bs fid)) q n = Some b" "n \<noteq> readmeFilename"
    show "utf8_ok n"
    proof (cases "n \<in> Name ` set q")
      case True
      then show ?thesis using assms(4) by (auto simp: corpus_utf8_def list_all_iff)
    next
      case False
      then have f: "dir_files fs (queue_path bs fid) n = Some b" using n(1) by (simp add: stored_other)
      then have "fs_lookup fs (((bs @ [''output'', fid]) @ [''queue'']) @ [n]) = Some (File b)"
        by (simp add: dir_files_Some queue_path_def)
      then have "fs_is_dir fs ((bs @ [''output'', fid]) @ [''queue''])" using fs_wf_lookup[OF assms(2)] by blast
      then have "fs_is_dir fs (bs @ [''output'', fid])" using fs_wf_lookup[OF assms(2)] by blast
      then show ?thesis using old[OF _ f n(2)] by (simp add: fleet_ids_set)
    qed
  qed
  moreover have "corpus_utf8 (Some (corpus_of fs' (queue_path bs g)))" if "g \<in> set (fleet_ids fs bs)" "g \<noteq> fid" for g
    unfolding queue_utf8_iff using others old that by metis
  ultimately show ?thesis
    using assms(1,3) unfolding fleet_utf8_def list_all_iff ids by auto
qed

text \<open>A client decodes the queues the server has encoded.\<close>

lemma queues_through_json:
  assumes "fleet_utf8 fs bs" and "queue_order qord"
  shows "\<exists>qs. DecodeQueues (go_codec qord) \<lparr>Content = EncodeJson go_server_codec (JsonQueues (server_queues fs bs)), ReadErr = None\<rparr> [] =
      some_queues qs \<and> mset qs = mset (server_queues fs bs)"
proof -
  let ?qs = "server_queues fs bs"
  have ok: "utf8_fix g = g \<and> fix_corpus c = c" if "(g, c) \<in> set ?qs" for g c
    using that assms(1) by (auto simp: fleet_utf8_def list_all_iff server_queues_def utf8_fix_ok fix_corpus_utf8)
  then have "map (utf8_fix \<circ> fst) ?qs = map fst ?qs" by auto
  then have "distinct (map (utf8_fix \<circ> fst) ?qs)" by (simp add: server_queues_def comp_def)
  from queues_wire.sent_line[OF refl this]
  have "decode_body decode_queues (json_line (encode_queues ?qs)) [] = some_queues (sort_key fst ?qs)"
    using ok by (auto simp: some_queues_def intro!: map_cong)
  moreover define rs where "rs = qord (some_queues (sort_key fst ?qs))"
  moreover have m: "mset rs = mset (some_queues (sort_key fst ?qs))" using assms(2) by (simp add: rs_def queue_order_def)
  let ?strip = "\<lambda>(g, c). (g, the c)"
  have "mset (map ?strip rs) = image_mset ?strip (mset (some_queues (sort_key fst ?qs)))" by (simp add: m)
  then have "mset (map ?strip rs) = mset ?qs"
    by (simp add: some_queues_def multiset.map_comp comp_def case_prod_unfold)
  moreover have "some_queues (map ?strip rs) = rs"
  proof -
    have "set rs = set (some_queues (sort_key fst ?qs))" using m by (rule mset_eq_setD)
    then have "snd x \<noteq> None" if "x \<in> set rs" for x using that by (auto simp: some_queues_def)
    then show ?thesis unfolding some_queues_def map_map by (intro map_idI) auto
  qed
  ultimately show ?thesis
    by (intro exI[of _ "map ?strip rs"]) (simp add: go_codec_def go_server_codec_def decode_stream_whole)
qed

end
