(* ===== verification/GoFlag.thy ===== *)
theory GoFlag
  imports GoFormat
begin

text \<open>
  Package \<open>flag\<close> of Go 1.18, as far as the programs use it: \<open>FlagSet.Parse\<close> of the command line with flags of
  types string, int, bool and duration, and the parsers of their values: \<open>strconv.ParseInt(s, 0, 64)\<close>,
  \<open>strconv.ParseBool\<close> and \<open>time.ParseDuration\<close>. A duration is a number of nanoseconds.
\<close>

subsection \<open>Integers in any base\<close>

text \<open>The base a prefix announces, and what follows the prefix.\<close>

definition base_prefix :: "string \<Rightarrow> int \<times> string" where
  "base_prefix s =
     (case s of
        c # rest \<Rightarrow>
          if c \<noteq> CHR ''0'' then (10, s)
          else (case rest of
              x # d # ds \<Rightarrow>
                if lower x = CHR ''b'' then (2, d # ds)
                else if lower x = CHR ''o'' then (8, d # ds)
                else if lower x = CHR ''x'' then (16, d # ds)
                else (8, rest)
            | _ \<Rightarrow> (8, rest))
      | [] \<Rightarrow> (10, s))"

text \<open>The value of a digit or letter; other characters are no digit of any base.\<close>

definition alnum_val :: "char \<Rightarrow> int" where
  "alnum_val c =
     (if is_digit c then digit_val c
      else let n = of_char (lower c) in if 97 \<le> n \<and> n \<le> 122 then n - 87 else 99)"

fun parse_base :: "int \<Rightarrow> int \<Rightarrow> string \<Rightarrow> int option" where
  "parse_base b n [] = Some n"
| "parse_base b n (c # cs) =
     (if c = CHR ''_'' then parse_base b n cs
      else if alnum_val c \<ge> b \<or> n * b + alnum_val c \<ge> 2 ^ 64 then None
      else parse_base b (n * b + alnum_val c) cs)"

text \<open>Underscores stand between digits, or between the prefix and a digit.\<close>

definition underscore_ok :: "string \<Rightarrow> bool" where
  "underscore_ok s =
     (case s of
        c # x # r \<Rightarrow>
          if c = CHR ''0'' \<and> lower x \<in> {CHR ''b'', CHR ''o'', CHR ''x''} then underscores_ok (lower x = CHR ''x'') 0 r
          else underscores_ok False 2 s
      | _ \<Rightarrow> underscores_ok False 2 s)"

definition parse_int0 :: "string \<Rightarrow> int option" where
  "parse_int0 s =
     (case read_sign s of (neg, t) \<Rightarrow>
        if t = [] then None
        else (case base_prefix t of (b, ds) \<Rightarrow>
          (case parse_base b 0 ds of
             None \<Rightarrow> None
           | Some n \<Rightarrow>
               if CHR ''_'' \<in> set ds \<and> \<not> underscore_ok t then None
               else if neg then (if n > 2 ^ 63 then None else Some (- n))
               else if n \<ge> 2 ^ 63 then None else Some n)))"

definition parse_bool :: "string \<Rightarrow> bool option" where
  "parse_bool s =
     (if s \<in> {''1'', ''t'', ''T'', ''TRUE'', ''true'', ''True''} then Some True
      else if s \<in> {''0'', ''f'', ''F'', ''FALSE'', ''false'', ''False''} then Some False
      else None)"

subsection \<open>Durations\<close>

text \<open>The digits in front: their value, none if it exceeds 2 to the 63, and the rest.\<close>

fun leading_int :: "int \<Rightarrow> string \<Rightarrow> (int \<times> string) option" where
  "leading_int x [] = Some (x, [])"
| "leading_int x (c # cs) =
     (if \<not> is_digit c then Some (x, c # cs)
      else if x > 2 ^ 63 div 10 \<or> x * 10 + digit_val c > 2 ^ 63 then None
      else leading_int (x * 10 + digit_val c) cs)"

text \<open>The digits behind the point: their value and the power of ten below it; digits that do not fit are dropped.\<close>

fun leading_fraction :: "int \<Rightarrow> int \<Rightarrow> bool \<Rightarrow> string \<Rightarrow> int \<times> int \<times> string" where
  "leading_fraction x scale overflow [] = (x, scale, [])"
| "leading_fraction x scale overflow (c # cs) =
     (if \<not> is_digit c then (x, scale, c # cs)
      else if overflow \<or> x > (2 ^ 63 - 1) div 10 \<or> x * 10 + digit_val c > 2 ^ 63
      then leading_fraction x scale True cs
      else leading_fraction (x * 10 + digit_val c) (scale * 10) False cs)"

definition unit_ns :: "string \<Rightarrow> int option" where
  "unit_ns u =
     (if u = ''ns'' then Some 1
      else if u = ''us'' \<or> u = [CHR 0xC2, CHR 0xB5, CHR ''s''] \<or> u = [CHR 0xCE, CHR 0xBC, CHR ''s''] then Some 1000
      else if u = ''ms'' then Some 1000000
      else if u = ''s'' then Some 1000000000
      else if u = ''m'' then Some 60000000000
      else if u = ''h'' then Some 3600000000000
      else None)"

text \<open>\<open>float64(f) * (float64(unit) / scale)\<close>, each operation rounded, then cut to an integer.\<close>

definition scaled :: "int \<Rightarrow> int \<Rightarrow> int \<Rightarrow> int" where
  "scaled f unit scale =
     (case (f64_frac (round_bits 53 1023 f 1), f64_frac (round_bits 53 1023 unit scale)) of
        ((a, b), (c, d)) \<Rightarrow> (case f64_frac (round_bits 53 1023 (a * c) (b * d)) of (n, m) \<Rightarrow> n div m))"

definition unit_char :: "char \<Rightarrow> bool" where
  "unit_char c \<longleftrightarrow> c \<noteq> CHR ''.'' \<and> \<not> is_digit c"

text \<open>A number with its unit.\<close>

definition read_term :: "string \<Rightarrow> (int \<times> string) option" where
  "read_term s =
     (if s = [] \<or> unit_char (hd s) then None
      else case leading_int 0 s of
        None \<Rightarrow> None
      | Some (v, s1) \<Rightarrow>
          (case (case s1 of
                   c # cs \<Rightarrow> if c = CHR ''.'' then leading_fraction 0 1 False cs else (0, 1, s1)
                 | [] \<Rightarrow> (0, 1, s1)) of (f, scale, s2) \<Rightarrow>
             let pre = length s1 \<noteq> length s; post = length s2 + 1 < length s1; u = takeWhile unit_char s2
             in if \<not> pre \<and> \<not> post \<or> u = [] then None
                else case unit_ns u of
                    None \<Rightarrow> None
                  | Some unit \<Rightarrow>
                      let w = v * unit + (if f > 0 then scaled f unit scale else 0)
                      in if v > 2 ^ 63 div unit \<or> w > 2 ^ 63 then None else Some (w, dropWhile unit_char s2)))"

lemma leading_int_shorter: "leading_int x s = Some (v, t) \<Longrightarrow> length t \<le> length s"
  by (induction x s rule: leading_int.induct) (auto split: if_splits)

lemma leading_fraction_shorter: "leading_fraction x k ov s = (v, m, t) \<Longrightarrow> length t \<le> length s"
  by (induction x k ov s rule: leading_fraction.induct) (auto split: if_splits)

lemma read_term_shorter: "read_term s = Some (w, t) \<Longrightarrow> length t < length s"
proof -
  assume r: "read_term s = Some (w, t)"
  have drop: "length (dropWhile unit_char x) < length x" if "takeWhile unit_char x \<noteq> []" for x
    using that takeWhile_dropWhile_id[of unit_char x] by (cases x) (auto intro: le_imp_less_Suc length_dropWhile_le split: if_splits)
  from r show ?thesis
    unfolding read_term_def Let_def
    by (auto split: if_splits option.splits list.splits prod.splits dest!: leading_int_shorter leading_fraction_shorter drop
        intro: le_less_trans[OF length_dropWhile_le])
qed

text \<open>The sum of the terms, as a \<open>uint64\<close>.\<close>

function parse_terms :: "int \<Rightarrow> string \<Rightarrow> int option" where
  "parse_terms d s =
     (if s = [] then Some d
      else case read_term s of
        None \<Rightarrow> None
      | Some (w, t) \<Rightarrow> (let d' = (d + w) mod 2 ^ 64 in if d' > 2 ^ 63 then None else parse_terms d' t))"
  by pat_completeness auto
termination
  by (relation "measure (length \<circ> snd)") (auto dest: read_term_shorter)

declare parse_terms.simps [simp del]

definition parse_duration :: "string \<Rightarrow> int option" where
  "parse_duration s =
     (case read_sign s of (neg, t) \<Rightarrow>
        if t = ''0'' then Some 0
        else if t = [] then None
        else (case parse_terms 0 t of
            None \<Rightarrow> None
          | Some d \<Rightarrow> if neg then Some (- d) else if d > 2 ^ 63 - 1 then None else Some d))"

subsection \<open>The command line\<close>

text \<open>A flag of a set: its name, whether it is a boolean flag, and how it sets its variable.\<close>

record 'r flag =
  FlagName :: string
  IsBoolFlag :: bool
  SetFlag :: "string \<Rightarrow> 'r \<Rightarrow> 'r option"

definition string_flag :: "string \<Rightarrow> (string \<Rightarrow> 'r \<Rightarrow> 'r) \<Rightarrow> 'r flag" where
  "string_flag n upd = \<lparr>FlagName = n, IsBoolFlag = False, SetFlag = (\<lambda>v r. Some (upd v r))\<rparr>"

definition int_flag :: "string \<Rightarrow> (int \<Rightarrow> 'r \<Rightarrow> 'r) \<Rightarrow> 'r flag" where
  "int_flag n upd = \<lparr>FlagName = n, IsBoolFlag = False, SetFlag = (\<lambda>v r. map_option (\<lambda>i. upd i r) (parse_int0 v))\<rparr>"

definition duration_flag :: "string \<Rightarrow> (int \<Rightarrow> 'r \<Rightarrow> 'r) \<Rightarrow> 'r flag" where
  "duration_flag n upd = \<lparr>FlagName = n, IsBoolFlag = False, SetFlag = (\<lambda>v r. map_option (\<lambda>i. upd i r) (parse_duration v))\<rparr>"

definition bool_flag :: "string \<Rightarrow> (bool \<Rightarrow> 'r \<Rightarrow> 'r) \<Rightarrow> 'r flag" where
  "bool_flag n upd = \<lparr>FlagName = n, IsBoolFlag = True, SetFlag = (\<lambda>v r. map_option (\<lambda>b. upd b r) (parse_bool v))\<rparr>"

datatype flag_arg = NoFlag | EndFlags | BadFlag | FlagArg string "string option"

definition read_flag :: "string \<Rightarrow> flag_arg" where
  "read_flag s =
     (case s of
        c # d # r \<Rightarrow>
          if c \<noteq> CHR ''-'' then NoFlag
          else if d = CHR ''-'' \<and> r = [] then EndFlags
          else (let name = (if d = CHR ''-'' then r else d # r)
                in if hd name = CHR ''-'' \<or> hd name = CHR ''='' then BadFlag
                   else FlagArg (takeWhile (\<lambda>c. c \<noteq> CHR ''='') name)
                     (if CHR ''='' \<in> set name then Some (tl (dropWhile (\<lambda>c. c \<noteq> CHR ''='') name)) else None))
      | _ \<Rightarrow> NoFlag)"

text \<open>\<open>flag.Parse\<close> ends the process on an error with status 2, and after printing the help with status 0.\<close>

definition flag_error :: fault where "flag_error = Fatal ''exit status 2''"

definition flag_unknown :: "string \<Rightarrow> fault" where
  "flag_unknown name = (if name = ''help'' \<or> name = ''h'' then Fatal ''exit status 0'' else flag_error)"

text \<open>The variables after parsing, and the arguments that are left.\<close>

fun parse_flags :: "'r flag list \<Rightarrow> string list \<Rightarrow> 'r \<Rightarrow> ('r \<times> string list) res" where
  "parse_flags fs [] r = Inr (r, [])"
| "parse_flags fs (s # args) r =
     (case read_flag s of
        NoFlag \<Rightarrow> Inr (r, s # args)
      | EndFlags \<Rightarrow> Inr (r, args)
      | BadFlag \<Rightarrow> Inl flag_error
      | FlagArg name val \<Rightarrow>
          (case find (\<lambda>f. FlagName f = name) fs of
             None \<Rightarrow> Inl (flag_unknown name)
           | Some f \<Rightarrow>
               if IsBoolFlag f then
                 (case SetFlag f (case val of None \<Rightarrow> ''true'' | Some v \<Rightarrow> v) r of
                    None \<Rightarrow> Inl flag_error | Some r' \<Rightarrow> parse_flags fs args r')
               else (case val of
                   Some v \<Rightarrow> (case SetFlag f v r of None \<Rightarrow> Inl flag_error | Some r' \<Rightarrow> parse_flags fs args r')
                 | None \<Rightarrow> (case args of
                     [] \<Rightarrow> Inl flag_error
                   | v # rest \<Rightarrow> (case SetFlag f v r of None \<Rightarrow> Inl flag_error | Some r' \<Rightarrow> parse_flags fs rest r')))))"

subsection \<open>What is written is read back\<close>

lemma alnum_digit: "is_digit c \<Longrightarrow> alnum_val c = digit_val c \<and> c \<noteq> CHR ''_''"
  by (auto simp: alnum_val_def is_digit_def)

lemma parse_base_digits:
  assumes "list_all is_digit ds" and "parse_uint_from n ds = Inr m"
  shows "parse_base 10 n ds = Some m"
  using assms
proof (induction ds arbitrary: n)
  case (Cons c cs)
  have "digit_val c < 10" using Cons.prems(1) by (auto simp: is_digit_def digit_val_def)
  then show ?case using Cons alnum_digit[of c] by (auto simp: mult.commute split: if_splits)
qed simp

lemma dec_digits_all: "0 \<le> n \<Longrightarrow> list_all is_digit (dec_digits n)"
  using dec_digits_chars by (auto simp: list_all_iff)

lemma read_sign_dec: "0 \<le> n \<Longrightarrow> read_sign (dec_digits n @ t) = (False, dec_digits n @ t)"
  using dec_digits_chars[of n "hd (dec_digits n)"] by (cases "dec_digits n") (auto simp: read_sign_def is_digit_def)

lemma read_sign_format: "read_sign (format_int i @ t) = (i < 0, dec_digits \<bar>i\<bar> @ t)"
  using read_sign_dec[of i t] by (simp add: format_int_def read_sign_def)

lemma parse_int0_format:
  assumes "- (2 ^ 63) \<le> i" and "i < 2 ^ 63" shows "parse_int0 (format_int i) = Some i"
proof -
  have n: "0 \<le> \<bar>i\<bar>" "\<bar>i\<bar> < 2 ^ 64" using assms by simp_all
  have us: "CHR ''_'' \<notin> set (dec_digits \<bar>i\<bar>)"
    using dec_digits_chars[OF n(1), of "CHR ''_''"] by (auto simp: is_digit_def)
  obtain b ds where b: "base_prefix (dec_digits \<bar>i\<bar>) = (b, ds)" "parse_base b 0 ds = Some \<bar>i\<bar>" "set ds \<subseteq> set (dec_digits \<bar>i\<bar>)"
  proof (cases "i = 0")
    case True
    have "dec_digits 0 = ''0''" by code_simp
    then show ?thesis using that[of 8 "[]"] True by (simp add: base_prefix_def)
  next
    case False
    then have "hd (dec_digits \<bar>i\<bar>) \<noteq> CHR ''0''" by (intro dec_digits_hd) simp
    then have "base_prefix (dec_digits \<bar>i\<bar>) = (10, dec_digits \<bar>i\<bar>)"
      by (cases "dec_digits \<bar>i\<bar>") (simp_all add: base_prefix_def)
    then show ?thesis
      using that parse_base_digits[OF dec_digits_all[OF n(1)] parse_dec_digits[OF n]] by blast
  qed
  then have "CHR ''_'' \<notin> set ds" using us by blast
  then show ?thesis
    using b assms read_sign_format[of i "[]"] by (auto simp: parse_int0_def)
qed

lemma parse_uint_from_mono: "parse_uint_from n ds = Inr m \<Longrightarrow> 0 \<le> n \<Longrightarrow> n \<le> m"
proof (induction n ds rule: parse_uint_from.induct)
  case (2 n c cs)
  then have "0 \<le> digit_val c" "parse_uint_from (10 * n + digit_val c) cs = Inr m"
    by (auto simp: is_digit_def digit_val_def split: if_splits)
  then show ?case using 2 by (fastforce split: if_splits)
qed simp

lemma leading_int_digits:
  assumes "list_all is_digit ds" and "parse_uint_from x ds = Inr m" and "0 \<le> x" and "m \<le> 2 ^ 63"
    and "t = [] \<or> \<not> is_digit (hd t)"
  shows "leading_int x (ds @ t) = Some (m, t)"
  using assms(1-3)
proof (induction ds arbitrary: x)
  case Nil
  then show ?case using assms(5) by (cases t) auto
next
  case (Cons c cs)
  let ?y = "10 * x + digit_val c"
  have v: "0 \<le> digit_val c" using Cons.prems(1) by (simp add: is_digit_def digit_val_def)
  have p: "parse_uint_from ?y cs = Inr m" using Cons.prems(1,2) by (auto split: if_splits)
  have "?y \<le> 2 ^ 63" using parse_uint_from_mono[OF p] Cons.prems(3) v assms(4) by linarith
  then have "\<not> x > 2 ^ 63 div 10" "\<not> x * 10 + digit_val c > 2 ^ 63" using v by (simp_all add: mult.commute)
  then show ?case using Cons.IH[of ?y] Cons.prems p v by (simp add: mult.commute)
qed

lemma parse_duration_ns:
  assumes "- (2 ^ 63) \<le> i" and "i < 2 ^ 63" shows "parse_duration (format_int i @ ''ns'') = Some i"
proof -
  let ?ds = "dec_digits \<bar>i\<bar>"
  have n: "0 \<le> \<bar>i\<bar>" "\<bar>i\<bar> < 2 ^ 64" "\<bar>i\<bar> \<le> 2 ^ 63" using assms by simp_all
  have nd: "\<not> is_digit (CHR ''n'')" "unit_char (CHR ''n'')" "unit_char (CHR ''s'')"
    by (simp_all add: is_digit_def unit_char_def)
  have "leading_int 0 (?ds @ ''ns'') = Some (\<bar>i\<bar>, ''ns'')"
    using n(3) nd by (intro leading_int_digits[OF dec_digits_all[OF n(1)] parse_dec_digits[OF n(1,2)]]) simp_all
  moreover have "\<not> unit_char (hd (?ds @ ''ns''))"
    using dec_digits_all[OF n(1)] by (cases ?ds) (simp_all add: unit_char_def)
  ultimately have "read_term (?ds @ ''ns'') = Some (\<bar>i\<bar>, [])"
    using n(3) nd by (simp add: read_term_def unit_ns_def)
  then have "parse_terms 0 (?ds @ ''ns'') = Some \<bar>i\<bar>"
    using n(3) by (simp add: parse_terms.simps[of 0] parse_terms.simps[of _ "[]"])
  moreover have "?ds @ ''ns'' \<noteq> ''0''" by (cases ?ds) auto
  ultimately show ?thesis using assms by (auto simp: parse_duration_def read_sign_format)
qed

lemma read_flag_value:
  assumes "n \<noteq> []" and "CHR ''='' \<notin> set n" and "hd n \<noteq> CHR ''-''"
  shows "read_flag (CHR ''-'' # n @ CHR ''='' # v) = FlagArg n (Some v)"
proof -
  obtain c m where n: "n = c # m" using assms(1) by (cases n) auto
  have "takeWhile (\<lambda>c. c \<noteq> CHR ''='') (n @ CHR ''='' # v) = n" "dropWhile (\<lambda>c. c \<noteq> CHR ''='') (n @ CHR ''='' # v) = CHR ''='' # v"
    using assms(2) by (induction n) auto
  then show ?thesis using n assms by (auto simp: read_flag_def)
qed

text \<open>An argument that gives a flag its value.\<close>

definition flag_value :: "string \<Rightarrow> string \<Rightarrow> string" where
  "flag_value n v = CHR ''-'' # n @ CHR ''='' # v"

definition flag_name_ok :: "string \<Rightarrow> bool" where
  "flag_name_ok n \<longleftrightarrow> n \<noteq> [] \<and> CHR ''='' \<notin> set n \<and> hd n \<noteq> CHR ''-''"

lemma parse_flags_value:
  assumes "flag_name_ok n" and "find (\<lambda>f. FlagName f = n) fs = Some f" and "SetFlag f v r = Some r'"
  shows "parse_flags fs (flag_value n v # args) r = parse_flags fs args r'"
  using assms read_flag_value[of n v] by (simp add: flag_value_def flag_name_ok_def)

lemma parse_flags_end: "parse_flags fs (''--'' # args) r = Inr (r, args)"
  by (simp add: read_flag_def)

end
