(* ===== verification/Cmd.thy ===== *)
theory Cmd
  imports Cluster GoFlag
begin

text \<open>
  The programs (\<open>cmd/\<close>): the server's and the client's \<open>main\<close>, from the command line (\<open>srv_program\<close>,
  \<open>client_program\<close>) or from the record of the flags' values (\<open>srv_main\<close>, \<open>client_main\<close>); the program that starts
  several clients; and the end-to-end test, which compares what the server and the clients have on disk.
\<close>

subsection \<open>The server\<close>

record ServerFlags =
  portArg :: int
  workdirArg :: string
  metricsReportIntervalArg :: int
  fuzzerSyncIntervalArg :: int
  memLimitMbArg :: int
  timeoutMsArg :: int
  archiveTypeArg :: string
  archiveIntervalArg :: int
  archiveDiskRootArg :: string
  archiveS3RootKeyArg :: string
  archiveS3BucketArg :: string
  archiveS3AWSRegionArg :: string
  binaryPathArg :: string
  useDictArg :: bool
  flagArgs :: "string list"

definition default_ServerFlags :: ServerFlags where
  "default_ServerFlags =
     \<lparr>portArg = 1414, workdirArg = [], metricsReportIntervalArg = 0, fuzzerSyncIntervalArg = 300 * 1000000000,
      memLimitMbArg = 0, timeoutMsArg = 0, archiveTypeArg = [], archiveIntervalArg = 0, archiveDiskRootArg = [],
      archiveS3RootKeyArg = [], archiveS3BucketArg = [], archiveS3AWSRegionArg = [], binaryPathArg = [],
      useDictArg = False, flagArgs = []\<rparr>"

definition server_flags :: "ServerFlags flag list" where
  "server_flags =
     [int_flag ''port'' (\<lambda>v f. f\<lparr>portArg := v\<rparr>),
      string_flag ''workdir'' (\<lambda>v f. f\<lparr>workdirArg := v\<rparr>),
      duration_flag ''metrics-report-interval'' (\<lambda>v f. f\<lparr>metricsReportIntervalArg := v\<rparr>),
      duration_flag ''fuzzer-sync-interval'' (\<lambda>v f. f\<lparr>fuzzerSyncIntervalArg := v\<rparr>),
      int_flag ''mem-limit-mb'' (\<lambda>v f. f\<lparr>memLimitMbArg := v\<rparr>),
      int_flag ''timeout-ms'' (\<lambda>v f. f\<lparr>timeoutMsArg := v\<rparr>),
      string_flag ''archive-type'' (\<lambda>v f. f\<lparr>archiveTypeArg := v\<rparr>),
      duration_flag ''archive-interval'' (\<lambda>v f. f\<lparr>archiveIntervalArg := v\<rparr>),
      string_flag ''archive-disk-root'' (\<lambda>v f. f\<lparr>archiveDiskRootArg := v\<rparr>),
      string_flag ''archive-s3-root-key'' (\<lambda>v f. f\<lparr>archiveS3RootKeyArg := v\<rparr>),
      string_flag ''archive-s3-bucket'' (\<lambda>v f. f\<lparr>archiveS3BucketArg := v\<rparr>),
      string_flag ''archive-s3-aws-region'' (\<lambda>v f. f\<lparr>archiveS3AWSRegionArg := v\<rparr>),
      string_flag ''binary-path'' (\<lambda>v f. f\<lparr>binaryPathArg := v\<rparr>),
      bool_flag ''use-dict'' (\<lambda>v f. f\<lparr>useDictArg := v\<rparr>)]"

definition server_config :: "ServerFlags \<Rightarrow> ServerConfig" where
  "server_config f =
     (let command = flagArgs f;
          useBinary = (binaryPathArg f \<noteq> []);
          fuzzerConf = \<lparr>UseBinary = useBinary, UseDict = useDictArg f, SyncInterval = fuzzerSyncIntervalArg f,
            Command = command, MemLimitMb = memLimitMbArg f, TimeoutMs = timeoutMsArg f\<rparr>;
          archiveS3Conf = \<lparr>RootKey = archiveS3RootKeyArg f, ConfBucketName = archiveS3BucketArg f,
            AwsRegion = archiveS3AWSRegionArg f, IsLocal = False\<rparr>;
          archiveDiskConf = \<lparr>ConfDstRoot = archiveDiskRootArg f\<rparr>;
          archiveConf = \<lparr>ArchiveType = archiveTypeArg f, ArchiveInterval = archiveIntervalArg f,
            ConfDisk = archiveDiskConf, ConfS3 = archiveS3Conf\<rparr>
      in \<lparr>Port = portArg f, Workdir = workdirArg f, BinaryPath = binaryPathArg f,
          MetricsReportInterval = metricsReportIntervalArg f, ConfFuzzer = fuzzerConf, ConfArchive = archiveConf\<rparr>)"

definition load_binary :: "string \<Rightarrow> fs \<Rightarrow> bytes res" where
  "load_binary path fs =
     (if path \<noteq> []
      then (case fs_read_file fs path of Inl _ \<Rightarrow> Inl (Panic ''Couldn't load target binary'') | Inr b \<Rightarrow> Inr b)
      else Inr [])"

text \<open>\<open>cwd\<close> is what \<open>os.Getwd\<close> returns, \<open>env\<close> what the server asks of its surroundings.\<close>

definition srv_main :: "string res \<Rightarrow> surroundings \<Rightarrow> ServerFlags \<Rightarrow> ('s3, 'z, unit) sgo" where
  "srv_main cwd env f w =
     (case ValidateConfig_server cwd (server_config f) of
        (Inl e, _) \<Rightarrow> (or_fatal (Inl e), w)
      | (Inr _, conf) \<Rightarrow>
          go_try (pure (load_binary (BinaryPath conf) (w_fs w))) (\<lambda>targetBinary.
            SetupAndServe env (Port conf) targetBinary (ConfFuzzer conf) (ConfArchive conf) (MetricsReportInterval conf) (Workdir conf)) w)"

text \<open>The program with its command line: \<open>main\<close> from the start.\<close>

definition srv_program :: "string res \<Rightarrow> surroundings \<Rightarrow> string list \<Rightarrow> ('s3, 'z, unit) sgo" where
  "srv_program cwd env args w =
     (case parse_flags server_flags args default_ServerFlags of
        Inl e \<Rightarrow> (Inl e, w)
      | Inr (f, command) \<Rightarrow> srv_main cwd env (f\<lparr>flagArgs := command\<rparr>) w)"

subsection \<open>The client\<close>

text \<open>The result says whether the directory was new.\<close>

definition setupWorkDir :: "string \<Rightarrow> (fs, bool) go" where
  "setupWorkDir workdir fs = (case os_mkdir workdir fs of (r, fs') \<Rightarrow> (Inr (is_ok r), fs'))"

record ClientFlags =
  parallelismArg :: int
  serverArg :: string

definition default_ClientFlags :: ClientFlags where
  "default_ClientFlags = \<lparr>parallelismArg = 1, serverArg = []\<rparr>"

definition client_flags :: "ClientFlags flag list" where
  "client_flags =
     [int_flag ''parallelism'' (\<lambda>v f. f\<lparr>parallelismArg := v\<rparr>),
      string_flag ''server-address'' (\<lambda>v f. f\<lparr>serverArg := v\<rparr>)]"

definition client_main :: "codec \<Rightarrow> string res \<Rightarrow> ClientFlags \<Rightarrow> ('s3, 'n, 'z, unit) flgo" where
  "client_main c cwd f w =
     (let conf = \<lparr>ServerAddress = serverArg f, Parallelism = parallelismArg f\<rparr>
      in case or_fatal cwd of
           Inl e \<Rightarrow> (Inl e, w)
         | Inr workdir \<Rightarrow> go_try (on_fs (setupWorkDir workdir)) (SetupAndRun c conf workdir) w)"

definition client_program :: "codec \<Rightarrow> string res \<Rightarrow> string list \<Rightarrow> ('s3, 'n, 'z, unit) flgo" where
  "client_program c cwd args w =
     (case parse_flags client_flags args default_ClientFlags of
        Inl e \<Rightarrow> (Inl e, w)
      | Inr (f, _) \<Rightarrow> client_main c cwd f w)"

subsection \<open>Several clients\<close>

record MultiFlags =
  clientPathPtr :: string
  nClientsPtr :: int
  serverPtr :: string

definition default_MultiFlags :: MultiFlags where
  "default_MultiFlags =
     \<lparr>clientPathPtr = ''../../../bazel-bin/roving/client/darwin_amd64_debug/client'', nClientsPtr = 2, serverPtr = []\<rparr>"

definition multi_flags :: "MultiFlags flag list" where
  "multi_flags =
     [string_flag ''client-path'' (\<lambda>v f. f\<lparr>clientPathPtr := v\<rparr>),
      int_flag ''n-clients'' (\<lambda>v f. f\<lparr>nClientsPtr := v\<rparr>),
      string_flag ''server'' (\<lambda>v f. f\<lparr>serverPtr := v\<rparr>)]"

text \<open>The commands the goroutines run.\<close>

definition multi_client :: "MultiFlags \<Rightarrow> Cmd list" where
  "multi_client f =
     replicate (nat (nClientsPtr f)) \<lparr>CmdName = clientPathPtr f, CmdArgs = [''-server'', serverPtr f]\<rparr>"

text \<open>
  The whole program; \<open>run\<close> is what running a command gives, none for success. The first goroutine whose command fails
  ends the process.
\<close>

definition multi_program :: "(Cmd \<Rightarrow> goerr option) \<Rightarrow> string list \<Rightarrow> unit res" where
  "multi_program run args =
     (case parse_flags multi_flags args default_MultiFlags of
        Inl e \<Rightarrow> Inl e
      | Inr (f, _) \<Rightarrow>
          if list_ex (\<lambda>cmd. run cmd \<noteq> None) (multi_client f) then Inl (Fatal ''log.Fatal'') else Inr ())"

subsection \<open>The end-to-end test\<close>

text \<open>A \<open>StringSet\<close> is a list without duplicates.\<close>

type_synonym StringSet = "string list"

definition sub :: "StringSet \<Rightarrow> StringSet \<Rightarrow> StringSet" where
  "sub i1 i2 = filter (\<lambda>name. name \<notin> set i2) i1"

definition diffs :: "StringSet \<Rightarrow> StringSet \<Rightarrow> int \<times> int \<times> int" where
  "diffs i1 i2 =
     (let n1not2 = int (length (sub i1 i2)); n2not1 = int (length (sub i2 i1)); nboth = int (length i1) - n1not2
      in (nboth, n1not2, n2not1))"

definition getCorpusNames :: "InputCorpus \<Rightarrow> StringSet" where
  "getCorpusNames c = remdups (map Name (Inputs c))"

definition getClientFileManagers :: "string \<Rightarrow> (fs, AflFileManager list) go" where
  "getClientFileManagers baseWorkdir fs =
     (case or_fatal (fs_read_dir fs (path_join [baseWorkdir, ''output''])) of
        Inl e \<Rightarrow> (Inl e, fs)
      | Inr fis \<Rightarrow> (Inr (map (\<lambda>fi. NewAflFileManagerWithFuzzerId baseWorkdir (fst fi)) fis), fs))"

text \<open>A corpus that cannot be read counts as an empty one: the code drops the error.\<close>

definition names_of :: "(fs, InputCorpus) go \<Rightarrow> fs \<Rightarrow> StringSet" where
  "names_of rd fs = getCorpusNames (case fst (rd fs) of Inl _ \<Rightarrow> \<lparr>Inputs = []\<rparr> | Inr c \<Rightarrow> c)"

text \<open>What \<open>printStats\<close> prints of each client: the differences of the queues and of the crashes.\<close>

definition printStats :: "AflFileManager \<Rightarrow> AflFileManager list \<Rightarrow> fs \<Rightarrow> ((int \<times> int \<times> int) \<times> (int \<times> int \<times> int)) list" where
  "printStats sfm cfms fs =
     (let sQueueNames = names_of (ReadQueue sfm) fs; sCrashNames = names_of (ReadCrashes sfm) fs
      in map (\<lambda>cfm. (diffs sQueueNames (names_of (ReadQueue cfm) fs), diffs sCrashNames (names_of (ReadCrashes cfm) fs))) cfms)"

definition e2e_fuzzer_config :: "(string \<Rightarrow> string) \<Rightarrow> FuzzerConfig" where
  "e2e_fuzzer_config getenv =
     \<lparr>UseBinary = False, UseDict = False, SyncInterval = 5 * 1000000000,
      Command = [getenv ''HOME'' @ ''/.rbenv/versions/2.4.1/bin/ruby'', ''./cmd/e2e-test/harness.rb''],
      MemLimitMb = 100000, TimeoutMs = 100000\<rparr>"

definition zero_ArchiveConfig :: ArchiveConfig where
  "zero_ArchiveConfig = \<lparr>ArchiveType = [], ArchiveInterval = 0, ConfDisk = \<lparr>ConfDstRoot = []\<rparr>,
     ConfS3 = \<lparr>RootKey = [], ConfBucketName = [], AwsRegion = [], IsLocal = False\<rparr>\<rparr>"

text \<open>The error of \<open>WriteTopLevelInput\<close> is dropped, a panic or the end of the process is not.\<close>

definition runServer :: "surroundings \<Rightarrow> string \<Rightarrow> ('s3, 'z, unit) sgo" where
  "runServer env workdir =
     (let fm = \<lparr>Basedir = workdir\<rparr>; i = \<lparr>Name = ''1'', Body = bytes_of_string ''hello''\<rparr>
      in go_then (go_fatal (on_fs (MkTopLevelOutputDir fm)))
           (go_then (go_fatal (on_fs (MkTopLevelInputDir fm)))
             (go_then (go_catch (on_fs (WriteTopLevelInput fm i)) (\<lambda>_. go_ret ()))
               (SetupAndServe env 1414 [1] (e2e_fuzzer_config (Getenv env)) zero_ArchiveConfig (2 * 1000000000) workdir))))"

definition runClient :: "codec \<Rightarrow> string \<Rightarrow> int \<Rightarrow> ('s3, 'n, 'z, unit) flgo" where
  "runClient c workdir parallelism =
     go_then (go_catch (on_fs (MkInputDir (NewAflFileManager workdir))) (\<lambda>_. go_ret ()))
       (SetupAndRun c \<lparr>ServerAddress = ''http://127.0.0.1:1414'', Parallelism = parallelism\<rparr> workdir False)"

definition e2e_flags :: "string flag list" where
  "e2e_flags = [string_flag ''workdir'' (\<lambda>v _. v)]"

text \<open>
  The test itself, for the time \<open>ts\<close>: \<open>run\<close> is what the server and the clients do while it sleeps, in their two
  directories. An error of \<open>filepath.Abs\<close> is dropped.
\<close>

definition e2e_main :: "string res \<Rightarrow> int \<Rightarrow> (string \<Rightarrow> string \<Rightarrow> (fs, unit) go) \<Rightarrow> string list \<Rightarrow>
    (fs, ((int \<times> int \<times> int) \<times> (int \<times> int \<times> int)) list) go" where
  "e2e_main cwd ts run args fs =
     (case parse_flags e2e_flags args [] of
        Inl e \<Rightarrow> (Inl e, fs)
      | Inr (workdir, _) \<Rightarrow>
          if workdir = [] then (Inl (Fatal ''-workdir must be set!''), fs)
          else (let dir = (\<lambda>side. case filepath_abs cwd (path_join [workdir, side, format_int ts]) of Inl _ \<Rightarrow> [] | Inr d \<Rightarrow> d);
                    serverWorkdir = dir ''server''; clientWorkdir = dir ''client''
                in go_then (run serverWorkdir clientWorkdir)
                     (go_try (getClientFileManagers clientWorkdir) (\<lambda>cfms fs.
                       (Inr (printStats (NewAflFileManager serverWorkdir) cfms fs), fs))) fs))"

subsection \<open>Properties\<close>

text \<open>
  C28: What the server's program does with its flags, without an archive and a dictionary. It refuses to start
  without a work directory, and with both a binary and a command; a binary that is named and cannot be read ends it
  with a panic. Otherwise it starts on the absolute work directory and touches no file: the clients get the
  limits, the interval and the command of the flags, the reaper runs every hour, the poller of the metrics
  if it has an interval, nothing is archived and no node is known, and it listens on the port of the flags.
  When it cannot listen there, \<open>main\<close> returns all the same, with no error.
\<close>

theorem srv_main_starts:
  fixes w :: "('s3, 'z) server_scheme"
  assumes "archiveTypeArg f = []" and "\<not> useDictArg f"
  shows "srv_main (Inr (abs_of cs)) env f w =
    (if workdirArg f = [] \<or> binaryPathArg f \<noteq> [] \<and> flagArgs f \<noteq> [] then (Inl (Fatal ''log.Fatal''), w)
     else case (if binaryPathArg f = [] then Inr [] else fs_read_file (w_fs w) (binaryPathArg f)) of
         Inl _ \<Rightarrow> (Inl (Panic ''Couldn't load target binary''), w)
       | Inr binary \<Rightarrow> (Inr (), w\<lparr>target := binary,
           fuzzerConf := \<lparr>UseBinary = (binaryPathArg f \<noteq> []), UseDict = False, SyncInterval = fuzzerSyncIntervalArg f,
             Command = flagArgs f, MemLimitMb = memLimitMbArg f, TimeoutMs = timeoutMsArg f\<rparr>,
           archiveConf := \<lparr>ArchiveType = [], ArchiveInterval = archiveIntervalArg f,
             ConfDisk = \<lparr>ConfDstRoot = archiveDiskRootArg f\<rparr>,
             ConfS3 = \<lparr>RootKey = archiveS3RootKeyArg f, ConfBucketName = archiveS3BucketArg f,
               AwsRegion = archiveS3AWSRegionArg f, IsLocal = False\<rparr>\<rparr>,
           fileManager := \<lparr>Basedir = path_abs (abs_of cs) (workdirArg f)\<rparr>, nodes := newNodes, archiver := NullArchiver,
           s_tasks := s_tasks w @ ReaperTask reaper_interval #
             (if metricsReportIntervalArg f > 0 then [PollerTask (metricsReportIntervalArg f)] else []),
           serving := (if Listen env (CHR '':'' # format_int (portArg f)) = None
             then Some (CHR '':'' # format_int (portArg f)) else serving w)\<rparr>))"
proof -
  have ne: "path_abs (abs_of cs) (workdirArg f) \<noteq> []" using path_abs_is_abs is_abs_nonempty by blast
  note val = ValidateConfig_server_def makePathsAbsolute_eq check_server_def check_archive_def server_config_def Let_def
  show ?thesis
  proof (cases "workdirArg f = [] \<or> binaryPathArg f \<noteq> [] \<and> flagArgs f \<noteq> []")
    case True
    then show ?thesis using assms ne by (auto simp: srv_main_def val)
  next
    case False
    then show ?thesis using assms ne
      by (auto simp: srv_main_def val load_binary_def pure_def SetupAndServe_plain split: sum.split)
  qed
qed

lemma srv_main_starts_witness:
  "\<exists>w'. srv_main (Inr ''/home'') \<lparr>Getenv = (\<lambda>_. []), NewSession = (\<lambda>_. None), Listen = (\<lambda>_. None)\<rparr>
      (default_ServerFlags\<lparr>workdirArg := ''w'', flagArgs := [''./fuzz''], portArg := 80\<rparr>)
      (sample_server NullArchiver) = (Inr (), w') \<and>
    s_tasks w' = [ReaperTask reaper_interval] \<and> fileManager w' = \<lparr>Basedir = ''/home/w''\<rparr> \<and>
    Command (fuzzerConf w') = [''./fuzz''] \<and> serving w' = Some '':80''"
proof -
  let ?f = "default_ServerFlags\<lparr>workdirArg := ''w'', flagArgs := [''./fuzz''], portArg := 80\<rparr>"
  have h: "archiveTypeArg ?f = []" "\<not> useDictArg ?f"
    by (simp_all add: default_ServerFlags_def)
  have p: "path_abs (abs_of [''home'']) ''w'' = ''/home/w''" "abs_of [''home''] = ''/home''" "format_int 80 = ''80''" by code_simp+
  show ?thesis
    using srv_main_starts[OF h, of "[''home'']" "\<lparr>Getenv = (\<lambda>_. []), NewSession = (\<lambda>_. None), Listen = (\<lambda>_. None)\<rparr>"
        "sample_server NullArchiver"] p
    by (simp add: default_ServerFlags_def sample_server_def)
qed

text \<open>
  A client started in a directory that exists always counts as joining an existing run: setting up
  the work directory, which is the current directory, cannot create it. So a target binary that cannot be
  fetched never stops a client.
\<close>

theorem client_main_joins:
  fixes w :: "('s3, 'n, 'z) fleet_world_scheme"
  assumes "sys_path (w_fs w) d = Inr p" and "fs_lookup (w_fs w) p = Some n"
  shows "client_main c (Inr d) f w =
      SetupAndRun c \<lparr>ServerAddress = serverArg f, Parallelism = parallelismArg f\<rparr> d False w \<and>
    (\<forall>srv cfg u. UseBinary cfg \<longrightarrow> fst (fetch_target srv False cfg u) = Inr [''./target''])"
proof
  have "on_fs (setupWorkDir d) w = (Inr False, w)"
    using assms by (intro on_fs_same) (simp add: setupWorkDir_def os_mkdir_def)
  then show "client_main c (Inr d) f w =
      SetupAndRun c \<lparr>ServerAddress = serverArg f, Parallelism = parallelismArg f\<rparr> d False w"
    by (simp add: client_main_def)
next
  show "\<forall>srv cfg u. UseBinary cfg \<longrightarrow> fst (fetch_target srv False cfg u) = Inr [''./target'']"
    by (auto simp: fetch_target_def FetchTargetBinary_def split: prod.split sum.split fault.split
        dest: errsD[OF errs_Fetch(3)])
qed

definition new_client :: "(unit, nat) fleet_world" where
  "new_client = client_world.extend (flaky_world sample_fs target_stream) \<lparr>c_tasks = []\<rparr>"

lemma client_main_joins_witness:
  "client_main (const_codec []) (Inr ''/d'') default_ClientFlags new_client =
    SetupAndRun (const_codec []) \<lparr>ServerAddress = [], Parallelism = 1\<rparr> ''/d'' False new_client"
proof -
  have fs: "w_fs new_client = sample_fs" by (simp add: new_client_def client_world.defs flaky_world_def)
  have "sys_path sample_fs ''/d'' = Inr [''d'']" "fs_lookup sample_fs [''d''] = Some Dir" by code_simp+
  then have h: "sys_path (w_fs new_client) ''/d'' = Inr [''d'']" "fs_lookup (w_fs new_client) [''d''] = Some Dir"
    by (simp_all add: fs)
  show ?thesis
    using client_main_joins[OF h, of "const_codec []" default_ClientFlags, THEN conjunct1]
    by (simp add: default_ClientFlags_def)
qed

text \<open>
  The end-to-end test counts the names both sides have, those only the server has and those only the
  client has.
\<close>

theorem diffs_counts:
  assumes "distinct i1" and "distinct i2"
  shows "diffs i1 i2 = (int (card (set i1 \<inter> set i2)), int (card (set i1 - set i2)), int (card (set i2 - set i1)))"
proof -
  have n: "length (sub a b) = card (set a - set b)" if "distinct a" for a b :: StringSet
    using that distinct_card[of "sub a b"] by (simp add: sub_def set_diff_eq)
  have "card (set i1) = card (set i1 \<inter> set i2) + card (set i1 - set i2)"
    by (subst card_Un_disjoint[symmetric]) (auto intro: arg_cong[where f = card])
  then show ?thesis using n assms distinct_card[OF assms(1)] by (simp add: diffs_def)
qed

lemma diffs_counts_witness: "diffs [''a'', ''b'', ''c''] [''c'', ''d''] = (1, 2, 1)"
proof -
  have "distinct [''a'', ''b'', ''c'']" "distinct [''c'', ''d'']" by simp_all
  from diffs_counts[OF this] show ?thesis by simp
qed

text \<open>The command line that sets every flag of the server, and then the command to fuzz.\<close>

definition server_args :: "ServerFlags \<Rightarrow> string list" where
  "server_args f =
     [flag_value ''port'' (format_int (portArg f)),
      flag_value ''workdir'' (workdirArg f),
      flag_value ''metrics-report-interval'' (format_int (metricsReportIntervalArg f) @ ''ns''),
      flag_value ''fuzzer-sync-interval'' (format_int (fuzzerSyncIntervalArg f) @ ''ns''),
      flag_value ''mem-limit-mb'' (format_int (memLimitMbArg f)),
      flag_value ''timeout-ms'' (format_int (timeoutMsArg f)),
      flag_value ''archive-type'' (archiveTypeArg f),
      flag_value ''archive-interval'' (format_int (archiveIntervalArg f) @ ''ns''),
      flag_value ''archive-disk-root'' (archiveDiskRootArg f),
      flag_value ''archive-s3-root-key'' (archiveS3RootKeyArg f),
      flag_value ''archive-s3-bucket'' (archiveS3BucketArg f),
      flag_value ''archive-s3-aws-region'' (archiveS3AWSRegionArg f),
      flag_value ''binary-path'' (binaryPathArg f),
      flag_value ''use-dict'' (if useDictArg f then ''true'' else ''false''),
      ''--''] @ flagArgs f"

definition is_int64 :: "int \<Rightarrow> bool" where
  "is_int64 i \<longleftrightarrow> - (2 ^ 63) \<le> i \<and> i < 2 ^ 63"

definition flags_fit :: "ServerFlags \<Rightarrow> bool" where
  "flags_fit f \<longleftrightarrow> list_all is_int64 [portArg f, metricsReportIntervalArg f, fuzzerSyncIntervalArg f, memLimitMbArg f,
     timeoutMsArg f, archiveIntervalArg f]"

lemma set_flags [simp]:
  "is_int64 i \<Longrightarrow> SetFlag (int_flag n upd) (format_int i) r = Some (upd i r)"
  "is_int64 i \<Longrightarrow> SetFlag (duration_flag n upd) (format_int i @ ''ns'') r = Some (upd i r)"
  "SetFlag (string_flag n upd') v r = Some (upd' v r)"
  "SetFlag (bool_flag n upd'') ''true'' r = Some (upd'' True r)"
  "SetFlag (bool_flag n upd'') ''false'' r = Some (upd'' False r)"
  by (simp_all add: int_flag_def duration_flag_def string_flag_def bool_flag_def parse_int0_format parse_duration_ns
      is_int64_def parse_bool_def)

lemma flag_names [simp]:
  "FlagName (int_flag n u1) = n" "FlagName (duration_flag n u2) = n" "FlagName (string_flag n u3) = n"
  "FlagName (bool_flag n u4) = n"
  by (simp_all add: int_flag_def duration_flag_def string_flag_def bool_flag_def)

text \<open>
  C29: The server gets from its command line the flags it is given: a command line that sets every flag, numbers in
  decimal and durations in nanoseconds, is read back as those values and the command behind them, whatever the
  strings are. So starting the program with it is starting \<open>main\<close> with these flags.
\<close>

theorem server_flags_roundtrip:
  assumes "flags_fit f"
  shows "parse_flags server_flags (server_args f) default_ServerFlags = Inr (f\<lparr>flagArgs := []\<rparr>, flagArgs f) \<and>
    srv_program cwd env (server_args f) w = srv_main cwd env f w"
proof -
  have n: "list_all flag_name_ok (map FlagName server_flags)" by code_simp
  have "parse_flags server_flags (server_args f) default_ServerFlags = Inr (f\<lparr>flagArgs := []\<rparr>, flagArgs f)"
    using assms n
    by (simp add: server_args_def flags_fit_def parse_flags_value parse_flags_end server_flags_def default_ServerFlags_def
        del: parse_flags.simps)
  then show ?thesis by (simp add: srv_program_def)
qed

lemma server_flags_roundtrip_witness:
  "srv_program (Inr ''/home'') \<lparr>Getenv = (\<lambda>_. []), NewSession = (\<lambda>_. None), Listen = (\<lambda>_. None)\<rparr>
      (server_args (default_ServerFlags\<lparr>workdirArg := ''w'', flagArgs := [''-x'']\<rparr>)) (sample_server NullArchiver) =
    srv_main (Inr ''/home'') \<lparr>Getenv = (\<lambda>_. []), NewSession = (\<lambda>_. None), Listen = (\<lambda>_. None)\<rparr>
      (default_ServerFlags\<lparr>workdirArg := ''w'', flagArgs := [''-x'']\<rparr>) (sample_server NullArchiver)"
proof -
  have "flags_fit (default_ServerFlags\<lparr>workdirArg := ''w'', flagArgs := [''-x'']\<rparr>)" by code_simp
  from server_flags_roundtrip[OF this] show ?thesis by blast
qed

text \<open>
  C30: The program that starts several clients never does: the commands it runs end in the flag parsing of the client,
  before anything is done, because the client has no flag \<open>-server\<close>. So with one client or more the program ends
  with \<open>log.Fatal\<close>, whatever address it is given.
\<close>

theorem multi_clients_exit:
  fixes w :: "('s3, 'n, 'z) fleet_world_scheme"
  assumes "parse_flags multi_flags args default_MultiFlags = Inr (f, rest)" and "0 < nClientsPtr f"
    and client: "\<forall>cmd. CmdName cmd = clientPathPtr f \<and> run cmd = None \<longrightarrow>
      (\<exists>w :: ('s3, 'n, 'z) fleet_world_scheme. is_ok (fst (client_program c cwd (CmdArgs cmd) w)))"
  shows "multi_program run args = Inl (Fatal ''log.Fatal'') \<and>
    (\<forall>cmd\<in>set (multi_client f). client_program c cwd (CmdArgs cmd) w = (Inl flag_error, w))"
proof -
  have e: "client_program c cwd (CmdArgs cmd) w = (Inl flag_error, w)" if "cmd \<in> set (multi_client f)"
    for cmd and w :: "('s3, 'n, 'z) fleet_world_scheme"
  proof -
    have "read_flag ''-server'' = FlagArg ''server'' None" by code_simp
    then show ?thesis using that
      by (auto simp: multi_client_def client_program_def client_flags_def flag_unknown_def)
  qed
  let ?cmd = "\<lparr>CmdName = clientPathPtr f, CmdArgs = [''-server'', serverPtr f]\<rparr>"
  have m: "?cmd \<in> set (multi_client f)" using assms(2) by (simp add: multi_client_def)
  have "\<not> is_ok (fst (client_program c cwd (CmdArgs ?cmd) u))" for u :: "('s3, 'n, 'z) fleet_world_scheme"
    using e[OF m] by simp
  then have "run ?cmd \<noteq> None" using client[rule_format, of ?cmd] by auto
  then show ?thesis using m e assms(1) by (auto simp: multi_program_def list_ex_iff)
qed

lemma multi_clients_exit_witness:
  "multi_program (\<lambda>cmd. if is_ok (fst (client_program (const_codec []) (Inr ''/d'') (CmdArgs cmd) new_client)) then None
        else Some (ErrMsg ''exit status'')) [''-server'', ''localhost:1414''] = Inl (Fatal ''log.Fatal'')"
proof -
  let ?run = "\<lambda>cmd. if is_ok (fst (client_program (const_codec []) (Inr ''/d'') (CmdArgs cmd) new_client)) then None
        else Some (ErrMsg ''exit status'')"
  have "parse_flags multi_flags [''-server'', ''localhost:1414''] default_MultiFlags =
      Inr (default_MultiFlags\<lparr>serverPtr := ''localhost:1414''\<rparr>, [])" by code_simp
  moreover have "0 < nClientsPtr (default_MultiFlags\<lparr>serverPtr := ''localhost:1414''\<rparr>)" by (simp add: default_MultiFlags_def)
  moreover have "\<forall>cmd. CmdName cmd = clientPathPtr (default_MultiFlags\<lparr>serverPtr := ''localhost:1414''\<rparr>) \<and> ?run cmd = None \<longrightarrow>
      (\<exists>w :: (unit, nat) fleet_world. is_ok (fst (client_program (const_codec []) (Inr ''/d'') (CmdArgs cmd) w)))"
    by (auto split: if_splits)
  ultimately show ?thesis by (rule multi_clients_exit[THEN conjunct1])
qed

end
