(* ===== verification/NodesLocks.thy ===== *)
theory NodesLocks
  imports GoBase
begin

text \<open>
  The locks around the server's table of clients (\<open>server/nodes.go\<close>): request handlers, the
  reaper, the metrics poller and the admin page run in parallel, each performing the lock
  operations and the map accesses of its calls one at a time. A map access has a beginning and an
  end, so that two accesses can overlap. A state is what every thread still has to do, who
  holds each lock, and which writer is at the gate of each. \<open>sync.RWMutex\<close> prefers writers: \<open>Lock\<close> first
  takes the gate, where one writer at a time announces itself, and then waits for the readers inside to leave; a
  reader gets in only while no writer is at the gate, so also not while one waits.
\<close>

subsection \<open>The calls as lists of actions\<close>

datatype lock = StatsLock | UpdatesLock
datatype var = StatsMap | UpdatesMap

datatype act =
    Lock lock | Unlock lock | RLock lock | RUnlock lock
  | BeginRead var | EndRead var | BeginWrite var | EndWrite var

definition reads_map :: "var \<Rightarrow> act list" where
  "reads_map v = [BeginRead v, EndRead v]"

definition writes_map :: "var \<Rightarrow> act list" where
  "writes_map v = [BeginWrite v, EndWrite v]"

text \<open>Deferred unlocks run last in, first out.\<close>

definition setStats_acts :: "act list" where
  "setStats_acts =
     [Lock StatsLock] @ writes_map StatsMap @ [Lock UpdatesLock] @ writes_map UpdatesMap @
     [Unlock UpdatesLock, Unlock StatsLock]"

definition deleteNode_acts :: "act list" where
  "deleteNode_acts =
     [Lock StatsLock, RLock UpdatesLock] @ writes_map StatsMap @ writes_map UpdatesMap @
     [RUnlock UpdatesLock, Unlock StatsLock]"

text \<open>One read per round of the range loop, and one for the length at the end.\<close>

definition logMetrics_acts :: "nat \<Rightarrow> act list" where
  "logMetrics_acts n =
     [RLock StatsLock] @ concat (replicate (Suc n) (reads_map StatsMap)) @ [RUnlock StatsLock]"

definition adminIndex_acts :: "nat \<Rightarrow> act list" where
  "adminIndex_acts n =
     [RLock StatsLock] @ concat (replicate n (reads_map StatsMap)) @ [RUnlock StatsLock]"

text \<open>
  The reaper's loop takes no lock itself: each round moves the iterator over the statistics, reads
  the time of the last update, and deletes the node if it is old (\<open>True\<close>).
\<close>

definition cleanUp_acts :: "bool list \<Rightarrow> act list" where
  "cleanUp_acts olds =
     concat (map (\<lambda>old. reads_map StatsMap @ reads_map UpdatesMap @ (if old then deleteNode_acts else [])) olds)"

datatype call = SetStats | DeleteNode | LogMetrics nat | AdminIndex nat | CleanUp "bool list"

definition acts_of :: "call \<Rightarrow> act list" where
  "acts_of c =
     (case c of SetStats \<Rightarrow> setStats_acts | DeleteNode \<Rightarrow> deleteNode_acts
      | LogMetrics n \<Rightarrow> logMetrics_acts n | AdminIndex n \<Rightarrow> adminIndex_acts n
      | CleanUp olds \<Rightarrow> cleanUp_acts olds)"

subsection \<open>Running threads\<close>

record conc =
  todo :: "nat \<Rightarrow> act list"
  writer :: "lock \<Rightarrow> nat option"
  readers :: "lock \<Rightarrow> nat list"
  gate :: "lock \<Rightarrow> nat option"

text \<open>
  Thread \<open>t\<close> performs its next action; \<open>None\<close> if it has none or has to wait. \<open>Lock\<close> takes two steps: the
  thread announces itself, with its action still ahead, and gets the lock when no reader is left.
\<close>

definition exec :: "nat \<Rightarrow> conc \<Rightarrow> conc option" where
  "exec t s =
     (case todo s t of
        [] \<Rightarrow> None
      | a # p \<Rightarrow>
          let s' = s\<lparr>todo := (todo s)(t := p)\<rparr>
          in case a of
               Lock l \<Rightarrow> (case gate s l of
                   None \<Rightarrow> Some (s\<lparr>gate := (gate s)(l := Some t)\<rparr>)
                 | Some u \<Rightarrow> if u = t \<and> readers s l = []
                     then Some (s'\<lparr>writer := (writer s)(l := Some t)\<rparr>) else None)
             | RLock l \<Rightarrow> if gate s l = None
                         then Some (s'\<lparr>readers := (readers s)(l := t # readers s l)\<rparr>) else None
             | Unlock l \<Rightarrow> Some (s'\<lparr>writer := (writer s)(l := None), gate := (gate s)(l := None)\<rparr>)
             | RUnlock l \<Rightarrow> Some (s'\<lparr>readers := (readers s)(l := remove1 t (readers s l))\<rparr>)
             | _ \<Rightarrow> Some s')"

definition start :: "(nat \<Rightarrow> call list) \<Rightarrow> conc" where
  "start calls = \<lparr>todo = (\<lambda>t. concat (map acts_of (calls t))), writer = (\<lambda>_. None), readers = (\<lambda>_. []),
     gate = (\<lambda>_. None)\<rparr>"

inductive reachable :: "(nat \<Rightarrow> call list) \<Rightarrow> conc \<Rightarrow> bool" for calls where
  init: "reachable calls (start calls)"
| step: "reachable calls s \<Longrightarrow> exec t s = Some s' \<Longrightarrow> reachable calls s'"

inductive_cases reachableE: "reachable calls s"

text \<open>The threads named by a schedule, each performing one action.\<close>

primrec run :: "nat list \<Rightarrow> conc \<Rightarrow> conc option" where
  "run [] s = Some s"
| "run (t # ts) s = (case exec t s of None \<Rightarrow> None | Some s' \<Rightarrow> run ts s')"

lemma run_reachable: "reachable calls s \<Longrightarrow> run ts s = Some s' \<Longrightarrow> reachable calls s'"
  by (induction ts arbitrary: s) (auto split: option.splits intro: reachable.step)

text \<open>Two threads in the middle of an access to the same map, one of them writing.\<close>

definition writing :: "conc \<Rightarrow> nat \<Rightarrow> var \<Rightarrow> bool" where
  "writing s t v = (case todo s t of [] \<Rightarrow> False | a # _ \<Rightarrow> a = EndWrite v)"

definition reading :: "conc \<Rightarrow> nat \<Rightarrow> var \<Rightarrow> bool" where
  "reading s t v = (case todo s t of [] \<Rightarrow> False | a # _ \<Rightarrow> a = EndRead v)"

definition race :: "conc \<Rightarrow> var \<Rightarrow> bool" where
  "race s v \<longleftrightarrow> (\<exists>t u. t \<noteq> u \<and> writing s t v \<and> (writing s u v \<or> reading s u v))"

subsection \<open>What a thread holds, from what it still has to do\<close>

datatype mode = Free | Shared | Excl

fun holds :: "act list \<Rightarrow> lock \<Rightarrow> mode" where
  "holds [] l = Free"
| "holds (a # p) l =
     (if a = Lock l \<or> a = RLock l then Free else if a = Unlock l then Excl
      else if a = RUnlock l then Shared else holds p l)"

text \<open>
  Locks are paired; the lock of the updates is only taken by a thread that holds the one of the
  statistics for writing; the lock of the statistics only by a thread that holds nothing.
\<close>

fun disciplined :: "act list \<Rightarrow> bool" where
  "disciplined [] = True"
| "disciplined (a # p) =
     (disciplined p \<and>
      (holds (a # p) UpdatesLock = Free \<or> holds (a # p) StatsLock = Excl) \<and>
      (case a of
         Lock l \<Rightarrow> holds p l = Excl \<and> (if l = UpdatesLock then holds p StatsLock = Excl else holds p UpdatesLock = Free)
       | RLock l \<Rightarrow> holds p l = Shared \<and> (if l = UpdatesLock then holds p StatsLock = Excl else holds p UpdatesLock = Free)
       | Unlock l \<Rightarrow> holds p l = Free
       | RUnlock l \<Rightarrow> holds p l = Free
       | _ \<Rightarrow> True))"

text \<open>Every access to the maps is made under the lock of the statistics, a write exclusively.\<close>

fun guarded :: "act list \<Rightarrow> bool" where
  "guarded [] = True"
| "guarded (a # p) =
     (guarded p \<and>
      (case a of
         EndWrite _ \<Rightarrow> holds p StatsLock = Excl
       | EndRead _ \<Rightarrow> holds p StatsLock \<noteq> Free
       | _ \<Rightarrow> True))"

lemma holds_append: "(\<And>l. holds q l = Free) \<Longrightarrow> holds (p @ q) l = holds p l"
  by (induction p) auto

lemma disciplined_append:
  "disciplined p \<Longrightarrow> disciplined q \<Longrightarrow> (\<And>l. holds q l = Free) \<Longrightarrow> disciplined (p @ q)"
  by (induction p) (auto simp: holds_append split: act.splits)

lemma guarded_append: "guarded p \<Longrightarrow> guarded q \<Longrightarrow> (\<And>l. holds q l = Free) \<Longrightarrow> guarded (p @ q)"
  by (induction p) (auto simp: holds_append split: act.splits)

definition closed :: "act list \<Rightarrow> bool" where
  "closed p \<longleftrightarrow> disciplined p \<and> (\<forall>l. holds p l = Free)"

lemma closed_append: "closed p \<Longrightarrow> closed q \<Longrightarrow> closed (p @ q)"
  by (simp add: closed_def disciplined_append holds_append)

lemma closed_concat: "(\<And>p. p \<in> set ps \<Longrightarrow> closed p) \<Longrightarrow> closed (concat ps)"
  by (induction ps) (auto simp: closed_append, simp add: closed_def)

lemma guarded_concat: "(\<And>p. p \<in> set ps \<Longrightarrow> closed p \<and> guarded p) \<Longrightarrow> guarded (concat ps)"
  using closed_concat by (induction ps) (auto simp: closed_def intro!: guarded_append)

lemma reads_under:
  assumes "disciplined q" and "guarded q" and "holds q StatsLock = Shared" and "holds q UpdatesLock = Free"
  shows "disciplined (concat (replicate n (reads_map v)) @ q) \<and> guarded (concat (replicate n (reads_map v)) @ q) \<and>
    (\<forall>l. holds (concat (replicate n (reads_map v)) @ q) l = holds q l)"
  using assms by (induction n) (auto simp: reads_map_def)

lemma closed_calls: "closed (acts_of c)"
  and guarded_calls: "\<forall>olds. c \<noteq> CleanUp olds \<Longrightarrow> guarded (acts_of c)"
proof -
  have lock_cases: "(\<forall>l. P l) \<longleftrightarrow> P StatsLock \<and> P UpdatesLock" for P
    by (metis lock.exhaust)
  have set: "closed setStats_acts \<and> guarded setStats_acts"
    by (simp add: closed_def setStats_acts_def writes_map_def lock_cases)
  have del: "closed deleteNode_acts \<and> guarded deleteNode_acts"
    by (simp add: closed_def deleteNode_acts_def writes_map_def lock_cases)
  have rd: "closed ([RLock StatsLock] @ concat (replicate n (reads_map StatsMap)) @ [RUnlock StatsLock]) \<and>
      guarded ([RLock StatsLock] @ concat (replicate n (reads_map StatsMap)) @ [RUnlock StatsLock])" for n
    using reads_under[of "[RUnlock StatsLock]" n StatsMap] by (simp add: closed_def lock_cases)
  have one: "closed (reads_map StatsMap @ reads_map UpdatesMap @ (if old then deleteNode_acts else []))" for old
    using del by (cases old) (auto simp: reads_map_def closed_def lock_cases)
  then have clean: "closed (cleanUp_acts olds)" for olds
    unfolding cleanUp_acts_def by (intro closed_concat) auto
  show "closed (acts_of c)"
    using set del rd clean rd[of "Suc n" for n]
    by (cases c) (auto simp: acts_of_def logMetrics_acts_def adminIndex_acts_def simp del: replicate.simps)
  show "guarded (acts_of c)" if "\<forall>olds. c \<noteq> CleanUp olds"
    using set del rd that
    by (cases c) (auto simp: acts_of_def logMetrics_acts_def adminIndex_acts_def simp del: replicate.simps)
qed

subsection \<open>The invariant\<close>

definition locks_ok :: "conc \<Rightarrow> bool" where
  "locks_ok s \<longleftrightarrow> (\<forall>t. disciplined (todo s t)) \<and>
     (\<forall>l t. writer s l = Some t \<longleftrightarrow> holds (todo s t) l = Excl) \<and>
     (\<forall>l t. t \<in> set (readers s l) \<longleftrightarrow> holds (todo s t) l = Shared) \<and>
     (\<forall>l. distinct (readers s l)) \<and> (\<forall>l. writer s l \<noteq> None \<longrightarrow> readers s l = [])"

text \<open>The writer of a lock came through its gate; who is at the gate and has not got the lock waits for it.\<close>

definition waits :: "conc \<Rightarrow> nat \<Rightarrow> lock \<Rightarrow> bool" where
  "waits s t l = (case todo s t of [] \<Rightarrow> False | a # _ \<Rightarrow> a = Lock l)"

definition gates_ok :: "conc \<Rightarrow> bool" where
  "gates_ok s \<longleftrightarrow> (\<forall>l t. writer s l = Some t \<longrightarrow> gate s l = Some t) \<and>
     (\<forall>l t. gate s l = Some t \<longrightarrow> writer s l = Some t \<or> waits s t l)"

lemma start_closed: "closed (concat (map acts_of cs))"
  using closed_calls by (intro closed_concat) auto

lemma locks_ok_start: "locks_ok (start calls)"
  using start_closed by (simp add: locks_ok_def start_def closed_def)

lemma readers_empty_iff: "locks_ok s \<Longrightarrow> readers s l = [] \<longleftrightarrow> (\<forall>t. holds (todo s t) l \<noteq> Shared)"
  unfolding locks_ok_def by (metis list.set_intros(1) neq_Nil_conv empty_iff list.set(1))

lemma writer_None_iff: "locks_ok s \<Longrightarrow> writer s l = None \<longleftrightarrow> (\<forall>t. holds (todo s t) l \<noteq> Excl)"
  unfolding locks_ok_def by (metis not_None_eq)

lemma locks_ok_access:
  assumes "locks_ok s" and "todo s t = a # p" and "\<And>l. holds p l = holds (a # p) l"
  shows "locks_ok (s\<lparr>todo := (todo s)(t := p)\<rparr>)"
proof -
  have "holds (((todo s)(t := p)) u) l = holds (todo s u) l" for u l
    using assms(2,3) by simp
  moreover have "disciplined (((todo s)(t := p)) u)" for u
    using assms(1,2) by (auto simp: locks_ok_def dest: spec[of _ t])
  ultimately show ?thesis
    using assms(1) by (simp add: locks_ok_def del: fun_upd_apply)
qed

lemma locks_ok_exec:
  assumes ok: "locks_ok s" and g: "gates_ok s" and e: "exec t s = Some s'"
  shows "locks_ok s'"
proof -
  from e obtain a p where a: "todo s t = a # p" by (auto simp: exec_def split: list.splits)
  have d: "disciplined (a # p)" using ok a by (metis locks_ok_def)
  have W: "writer s l = Some u \<longleftrightarrow> holds (todo s u) l = Excl" for l u using ok by (simp add: locks_ok_def)
  have R: "u \<in> set (readers s l) \<longleftrightarrow> holds (todo s u) l = Shared" for l u using ok by (simp add: locks_ok_def)
  have D: "disciplined (todo s u)" "distinct (readers s l)" "writer s l \<noteq> None \<longrightarrow> readers s l = []" for u l
    using ok by (simp_all add: locks_ok_def)
  have Wt: "writer s l = Some t \<longleftrightarrow> holds (a # p) l = Excl"
    and Rt: "t \<in> set (readers s l) \<longleftrightarrow> holds (a # p) l = Shared" for l
    using W[of l t] R[of t l] a by simp_all
  have Wn: "writer s l = None \<Longrightarrow> holds (todo s u) l \<noteq> Excl" for l u
    using W[of l u] by auto
  have Rn: "readers s l = [] \<Longrightarrow> holds (todo s u) l \<noteq> Shared" for l u
    using R[of u l] by auto
  show ?thesis
  proof (cases a)
    case (Lock k)
    show ?thesis
    proof (cases "gate s k")
      case None
      then have "s' = s\<lparr>gate := (gate s)(k := Some t)\<rparr>" using e a Lock by (simp add: exec_def)
      then show ?thesis using ok by (simp add: locks_ok_def)
    next
      case (Some i)
      with e a Lock have free: "gate s k = Some t" "readers s k = []"
        and s': "s' = s\<lparr>todo := (todo s)(t := p), writer := (writer s)(k := Some t)\<rparr>"
        by (auto simp: exec_def Let_def split: if_splits)
      have "writer s k \<noteq> Some t" using Wt[of k] Lock by simp
      then have wk: "writer s k = None" using free(1) g unfolding gates_ok_def by (metis not_None_eq option.inject)
      have "holds p l = holds (a # p) l" if "l \<noteq> k" for l using that Lock by simp
      then show ?thesis
        using d Lock D W R Wt Rt Wn[OF wk] Rn[OF free(2)] free wk
        by (auto simp: locks_ok_def s')
    qed
  next
    case (RLock k)
    with e a have "gate s k = None"
      and s': "s' = s\<lparr>todo := (todo s)(t := p), readers := (readers s)(k := t # readers s k)\<rparr>"
      by (auto simp: exec_def Let_def split: if_splits)
    then have free: "writer s k = None" using g unfolding gates_ok_def by (metis not_None_eq)
    have "holds p l = holds (a # p) l" if "l \<noteq> k" for l using that RLock by simp
    then show ?thesis
      using d RLock D W R Wt Rt Wn[OF free(1)] free Rt[of k]
      by (auto simp: locks_ok_def s')
  next
    case (Unlock k)
    with e a have s': "s' = s\<lparr>todo := (todo s)(t := p), writer := (writer s)(k := None), gate := (gate s)(k := None)\<rparr>"
      by (auto simp: exec_def Let_def)
    have wk: "writer s k = Some t" using Wt[of k] Unlock by simp
    then have "u = t" if "holds (todo s u) k = Excl" for u using that W[of k u] by simp
    moreover have "holds p l = holds (a # p) l" if "l \<noteq> k" for l using that Unlock by simp
    ultimately show ?thesis
      using d Unlock D W R Wt Rt wk D(3)[of k] by (auto simp: locks_ok_def s')
  next
    case (RUnlock k)
    with e a have s': "s' = s\<lparr>todo := (todo s)(t := p), readers := (readers s)(k := remove1 t (readers s k))\<rparr>"
      by (auto simp: exec_def Let_def)
    have "t \<in> set (readers s k)" using Rt[of k] RUnlock by simp
    then have wk: "writer s k = None" using D(3)[of k] by auto
    have "holds p l = holds (a # p) l" if "l \<noteq> k" for l using that RUnlock by simp
    then show ?thesis
      using d RUnlock D W R Wt Rt wk Wn[OF wk] by (auto simp: locks_ok_def s')
  qed (use e a locks_ok_access[OF ok a] in \<open>auto simp: exec_def Let_def\<close>)
qed

lemma gates_ok_start: "gates_ok (start calls)"
  by (simp add: gates_ok_def start_def)

lemma gates_ok_exec:
  assumes ok: "locks_ok s" and g: "gates_ok s" and e: "exec t s = Some s'"
  shows "gates_ok s'"
proof -
  from e obtain a p where a: "todo s t = a # p" by (auto simp: exec_def split: list.splits)
  have G1: "writer s l = Some u \<Longrightarrow> gate s l = Some u" for l u using g by (simp add: gates_ok_def)
  have G2: "gate s l = Some u \<Longrightarrow> writer s l = Some u \<or> waits s u l" for l u using g by (simp add: gates_ok_def)
  have wt: "waits s t l \<longleftrightarrow> a = Lock l" for l using a by (simp add: waits_def)
  have rest: "gates_ok s'" if "todo s' = (todo s)(t := p)" "\<And>l. a \<noteq> Lock l" "gate s' = gate s" "writer s' = writer s"
    unfolding gates_ok_def
  proof (intro conjI allI impI)
    fix l u assume "writer s' l = Some u" then show "gate s' l = Some u" using G1 that by simp
  next
    fix l u assume "gate s' l = Some u"
    then have "writer s l = Some u \<or> waits s u l" using G2 that by simp
    moreover have "waits s u l \<Longrightarrow> waits s' u l" using wt[of l] that by (cases "u = t") (auto simp: waits_def)
    ultimately show "writer s' l = Some u \<or> waits s' u l" using that by auto
  qed
  show ?thesis
  proof (cases a)
    case (Lock k)
    show ?thesis
    proof (cases "gate s k")
      case None
      then have s': "s' = s\<lparr>gate := (gate s)(k := Some t)\<rparr>" using e a Lock by (simp add: exec_def)
      have "writer s k = None" using G1 None by (metis not_None_eq)
      moreover have "waits s' u l = waits s u l" for u l by (simp add: s' waits_def)
      ultimately show ?thesis using G1 G2 wt Lock by (simp add: gates_ok_def s')
    next
      case (Some i)
      with e a Lock have k: "gate s k = Some t" and s': "s' = s\<lparr>todo := (todo s)(t := p), writer := (writer s)(k := Some t)\<rparr>"
        by (auto simp: exec_def Let_def split: if_splits)
      have "writer s' l = Some u \<or> waits s' u l" if "gate s l = Some u" for l u
      proof (cases "l = k")
        case False
        then have "u = t \<Longrightarrow> writer s l = Some u" using G2[OF that] wt[of l] Lock by auto
        then show ?thesis using G2[OF that] False by (cases "u = t") (auto simp: s' waits_def)
      qed (use that k in \<open>simp add: s'\<close>)
      then show ?thesis using G1 k by (simp add: gates_ok_def s')
    qed
  next
    case (Unlock k)
    with e a have s': "s' = s\<lparr>todo := (todo s)(t := p), writer := (writer s)(k := None), gate := (gate s)(k := None)\<rparr>"
      by (auto simp: exec_def Let_def)
    have "writer s' l = Some u \<or> waits s' u l" if "gate s l = Some u" "l \<noteq> k" for l u
    proof -
      have "u = t \<Longrightarrow> writer s l = Some u" using G2[OF that(1)] wt[of l] Unlock by auto
      then show ?thesis using G2[OF that(1)] that(2) by (cases "u = t") (auto simp: s' waits_def)
    qed
    then show ?thesis using G1 by (simp add: gates_ok_def s')
  qed (rule rest; use e a in \<open>auto simp: exec_def Let_def split: if_splits\<close>)+
qed

lemma reachable_inv: "reachable calls s \<Longrightarrow> locks_ok s \<and> gates_ok s"
  by (induction rule: reachable.induct) (auto intro: locks_ok_start gates_ok_start locks_ok_exec gates_ok_exec)

lemmas reachable_locks = reachable_inv[THEN conjunct1] and reachable_gates = reachable_inv[THEN conjunct2]

lemma exec_todo:
  "exec t s = Some s' \<Longrightarrow> todo s' = todo s \<or> (\<exists>a. todo s t = a # todo s' t \<and> (\<forall>u. u \<noteq> t \<longrightarrow> todo s' u = todo s u))"
  by (auto simp: exec_def Let_def split: list.splits act.splits if_splits option.splits)

lemma reachable_guarded:
  assumes "reachable calls s" and "\<forall>c\<in>set (calls u). \<forall>olds. c \<noteq> CleanUp olds"
  shows "guarded (todo s u)"
  using assms(1)
proof (induction rule: reachable.induct)
  case init
  have "guarded (concat (map acts_of (calls u)))"
    using assms(2) guarded_calls closed_calls by (intro guarded_concat) auto
  then show ?case by (simp add: start_def)
next
  case (step s t s')
  from exec_todo[OF step.hyps(2)] step.IH show ?case
    by (cases "u = t") (auto split: act.splits)
qed

text \<open>The lock of the updates is only asked for by a thread that holds the statistics for writing.\<close>

lemma updates_gate:
  assumes "reachable calls s" and "gate s UpdatesLock = Some u"
  shows "holds (todo s u) StatsLock = Excl"
proof -
  have ok: "locks_ok s" "gates_ok s" using reachable_inv[OF assms(1)] by auto
  have d: "disciplined (todo s u)" using ok(1) by (simp add: locks_ok_def)
  from ok(2) assms(2) consider "writer s UpdatesLock = Some u" | "waits s u UpdatesLock" by (auto simp: gates_ok_def)
  then show ?thesis
  proof cases
    case 1
    then have "holds (todo s u) UpdatesLock = Excl" using ok(1) by (simp add: locks_ok_def)
    then show ?thesis using d by (cases "todo s u") auto
  next
    case 2
    then show ?thesis using d by (cases "todo s u") (auto simp: waits_def)
  qed
qed

subsection \<open>Properties\<close>

text \<open>
  C12: The handlers, the poller, the admin page and deletions never race: in no reachable state
  is one thread writing a map while another reads or writes it. This covers the map of update
  times too, which deleteNode writes while it holds only the read lock of that map.
\<close>

theorem locked_calls_do_not_race:
  assumes "reachable calls s" and "\<forall>t. \<forall>c\<in>set (calls t). \<forall>olds. c \<noteq> CleanUp olds"
  shows "\<not> race s v"
proof
  assume "race s v"
  then obtain t u where tu: "t \<noteq> u" "writing s t v" "writing s u v \<or> reading s u v"
    by (auto simp: race_def)
  note ok = reachable_locks[OF assms(1)]
  have g: "guarded (todo s i)" for i using reachable_guarded[OF assms(1)] assms(2) by blast
  have "holds (todo s t) StatsLock = Excl"
    using tu(2) g[of t] by (cases "todo s t") (auto simp: writing_def)
  moreover have "holds (todo s u) StatsLock \<noteq> Free"
    using tu(3) g[of u] by (cases "todo s u") (auto simp: writing_def reading_def)
  ultimately show False
    using ok tu(1) unfolding locks_ok_def
    by (metis mode.exhaust option.inject option.distinct(1) empty_iff list.set(1))
qed

text \<open>Thread 0 reports, thread 1 deletes, thread 2 polls one client, and so on for no other.\<close>

definition sample_calls :: "nat \<Rightarrow> call list" where
  "sample_calls t = (if t = 0 then [SetStats] else if t = 1 then [DeleteNode] else if t = 2 then [LogMetrics 1] else [])"

lemma locked_calls_do_not_race_witness: "\<not> race (start sample_calls) UpdatesMap"
proof -
  have "\<forall>t. \<forall>c\<in>set (sample_calls t). \<forall>olds. c \<noteq> CleanUp olds" by (simp add: sample_calls_def)
  from locked_calls_do_not_race[OF reachable.init this] show ?thesis .
qed

text \<open>
  C21: The locks cannot deadlock: whatever calls run in parallel, clean-ups included, in every
  reachable state in which some thread is not finished some thread can take its next action, although
  a writer that waits keeps new readers out.
\<close>

theorem no_deadlock:
  assumes "reachable calls s" and "todo s t \<noteq> []"
  shows "\<exists>u s'. exec u s = Some s'"
proof -
  note ok = reachable_locks[OF assms(1)] and ug = updates_gate[OF assms(1)]
  have d: "disciplined (todo s u)" for u using ok by (simp add: locks_ok_def)
  have up: "holds (todo s u) UpdatesLock = Free \<or> holds (todo s u) StatsLock = Excl" for u
    using d[of u] by (cases "todo s u") auto
  have go: "\<exists>s'. exec u s = Some s'"
    if "todo s u = a # p" "\<And>l. a = Lock l \<Longrightarrow> gate s l = None \<or> gate s l = Some u \<and> readers s l = []"
      "\<And>l. a = RLock l \<Longrightarrow> gate s l = None" for u a p
    using that by (cases a) (auto simp: exec_def Let_def split: option.split)
  have one: "u = i" if "holds (todo s u) StatsLock = Excl" "holds (todo s i) StatsLock = Excl" for u i
    using that ok unfolding locks_ok_def by (metis option.inject)
  show ?thesis
  proof (cases "\<exists>u. holds (todo s u) StatsLock = Excl")
    case True
    then obtain u where u: "holds (todo s u) StatsLock = Excl" ..
    then obtain a p where a: "todo s u = a # p" by (cases "todo s u") auto
    have l: "l = UpdatesLock \<and> holds (todo s u) UpdatesLock = Free" if "a = Lock l \<or> a = RLock l" for l
      using that u a d[of u] by (cases l) auto
    have g: "gate s UpdatesLock = None \<or> gate s UpdatesLock = Some u" using ug one u by (metis not_None_eq)
    have "readers s UpdatesLock = []" if "a = Lock l" for l
      using that l[of l] up one u readers_empty_iff[OF ok, of UpdatesLock] by (metis mode.distinct(1))
    moreover have "gate s l = None" if "a = RLock l" for l
    proof -
      have f: "holds (todo s u) UpdatesLock = Free" "l = UpdatesLock" using l[of l] that by auto
      then have "writer s UpdatesLock \<noteq> Some u" using ok unfolding locks_ok_def by (metis mode.distinct(3))
      moreover have "\<not> waits s u UpdatesLock" using a that by (simp add: waits_def)
      ultimately show ?thesis using g f(2) reachable_gates[OF assms(1)] by (auto simp: gates_ok_def)
    qed
    ultimately show ?thesis using go[OF a] g l by blast
  next
    case noexcl: False
    then have noup: "gate s UpdatesLock = None" "readers s UpdatesLock = []"
      using ug up readers_empty_iff[OF ok, of UpdatesLock] by (metis not_None_eq, metis mode.distinct(1))
    have stats: "l = StatsLock" if "todo s u = a # p" "a = Lock l \<or> a = RLock l" for u a p l
      using that noexcl d[of u] by (cases l) (auto dest: spec[of _ u])
    show ?thesis
    proof (cases "\<exists>u. holds (todo s u) StatsLock = Shared")
      case True
      then obtain u where u: "holds (todo s u) StatsLock = Shared" ..
      then obtain a p where a: "todo s u = a # p" by (cases "todo s u") auto
      have "a \<noteq> Lock l \<and> a \<noteq> RLock l" for l using u a stats[OF a, of l] by auto
      then show ?thesis using go[OF a] by blast
    next
      case False
      then have r: "readers s StatsLock = []" using readers_empty_iff[OF ok, of StatsLock] by blast
      show ?thesis
      proof (cases "gate s StatsLock")
        case None
        moreover obtain a p where a: "todo s t = a # p" using assms(2) by (cases "todo s t") auto
        ultimately show ?thesis using go[OF a] stats[OF a] by metis
      next
        case (Some v)
        moreover have "writer s StatsLock \<noteq> Some v" using noexcl ok by (auto simp: locks_ok_def)
        ultimately have "waits s v StatsLock" using reachable_gates[OF assms(1)] by (auto simp: gates_ok_def)
        then obtain p where "todo s v = Lock StatsLock # p" by (cases "todo s v") (auto simp: waits_def)
        then show ?thesis using go[of v "Lock StatsLock" p] Some r by auto
      qed
    qed
  qed
qed

lemma no_deadlock_witness: "\<exists>u s'. exec u (start sample_calls) = Some s'"
proof -
  have "todo (start sample_calls) 0 \<noteq> []"
    by (simp add: start_def sample_calls_def acts_of_def setStats_acts_def)
  from no_deadlock[OF reachable.init this] show ?thesis .
qed

text \<open>
  C37: The reaper's own loop is not protected: whenever a report is about to be recorded by one thread and a
  clean-up with a client to look at by another, and nobody has or waits for the lock of the statistics,
  then, whatever all the other threads are doing, the next four actions of the two can take them to a state in
  which the one is writing the map of the statistics while the other reads it.
\<close>

theorem reaper_races:
  assumes "reachable calls s" and "t \<noteq> u"
    and "todo s t = acts_of SetStats @ p" and "todo s u = acts_of (CleanUp (old # olds)) @ q"
    and "gate s StatsLock = None" and "readers s StatsLock = []"
  shows "\<exists>s'. run [t, t, t, u] s = Some s' \<and> reachable calls s' \<and> writing s' t StatsMap \<and> reading s' u StatsMap \<and>
    race s' StatsMap"
proof -
  have "\<exists>s'. run [t, t, t, u] s = Some s' \<and> writing s' t StatsMap \<and> reading s' u StatsMap"
    using assms(2-6)
    by (simp add: exec_def acts_of_def setStats_acts_def cleanUp_acts_def writes_map_def reads_map_def writing_def reading_def)
  then obtain s' where "run [t, t, t, u] s = Some s'" "writing s' t StatsMap" "reading s' u StatsMap" by blast
  then show ?thesis using run_reachable[OF assms(1)] assms(2) unfolding race_def by blast
qed

lemma reaper_races_witness:
  "\<exists>s'. reachable (\<lambda>t. if t = 0 then [SetStats] else if t = 1 then [CleanUp [False]] else [LogMetrics 2]) s' \<and> race s' StatsMap"
proof -
  let ?c = "\<lambda>t :: nat. if t = 0 then [SetStats] else if t = 1 then [CleanUp [False]] else [LogMetrics 2]"
  have "todo (start ?c) 0 = acts_of SetStats @ []" "todo (start ?c) 1 = acts_of (CleanUp (False # [])) @ []"
    "gate (start ?c) StatsLock = None" "readers (start ?c) StatsLock = []"
    by (simp_all add: start_def)
  from reaper_races[OF reachable.init _ this] show ?thesis by auto
qed

end
