(* ===== verification/ServerRun.thy ===== *)
theory ServerRun
  imports Cluster
begin

text \<open>
  The running server: after \<open>SetupAndServe\<close> (\<open>server/server.go\<close>) has started its goroutines and listens, requests
  of clients and of browsers and the ticks of the goroutines act on its state in any order, each as one atomic step: two
  handlers at work at the same time are the subject of theory \<open>ServerRaces\<close>, not of this one.
  A panic in a handler drops its request (package \<open>net/http\<close> recovers it); \<open>log.Fatal\<close> anywhere, and any fault in a
  goroutine, ends the server. What every run keeps.
\<close>

subsection \<open>Steps\<close>

text \<open>
  A request to a route with its body, at a time and with an order of the range loop over the outputs; a tick of
  the reaper, the poller and the archive, at a time. The goroutine of the archive makes its ticker itself, and
  \<open>time.NewTicker\<close> panics for an interval that is not positive, which ends the server.
\<close>

datatype server_event =
    Request map_order int string string bytes
  | ReaperTick int
  | PollerTick int
  | ArchiveTick int

inductive server_step :: "('s3, 'z) server_scheme \<Rightarrow> server_event \<Rightarrow> ('s3, 'z) server_scheme option \<Rightarrow> bool" where
  answered: "dispatch go_server_codec ord now method path body sv = (Inr resp, sv') \<Longrightarrow>
    server_step sv (Request ord now method path body) (Some sv')"
| dropped: "dispatch go_server_codec ord now method path body sv = (Inl e, sv') \<Longrightarrow> \<forall>m. e \<noteq> Fatal m \<Longrightarrow>
    server_step sv (Request ord now method path body) (Some sv')"
| ended: "dispatch go_server_codec ord now method path body sv = (Inl (Fatal m), sv') \<Longrightarrow>
    server_step sv (Request ord now method path body) None"
| reaped: "ReaperTask interval \<in> set (s_tasks sv) \<Longrightarrow> cleanUpOldNodes interval now sv = (Inr (), sv') \<Longrightarrow>
    server_step sv (ReaperTick now) (Some sv')"
| reaper_ended: "ReaperTask interval \<in> set (s_tasks sv) \<Longrightarrow> cleanUpOldNodes interval now sv = (Inl e, sv') \<Longrightarrow>
    server_step sv (ReaperTick now) None"
| polled: "PollerTask interval \<in> set (s_tasks sv) \<Longrightarrow> logMetrics now sv = (Inr (), sv') \<Longrightarrow>
    server_step sv (PollerTick now) (Some sv')"
| poller_ended: "PollerTask interval \<in> set (s_tasks sv) \<Longrightarrow> logMetrics now sv = (Inl e, sv') \<Longrightarrow>
    server_step sv (PollerTick now) None"
| no_ticker: "ArchiveTask a root interval \<in> set (s_tasks sv) \<Longrightarrow> interval \<le> 0 \<Longrightarrow> server_step sv (ArchiveTick now) None"
| archived: "ArchiveTask a root interval \<in> set (s_tasks sv) \<Longrightarrow> 0 < interval \<Longrightarrow> archive_ticks a root [now] sv = (Inr (), sv') \<Longrightarrow>
    server_step sv (ArchiveTick now) (Some sv')"
| archive_ended: "ArchiveTask a root interval \<in> set (s_tasks sv) \<Longrightarrow> 0 < interval \<Longrightarrow> archive_ticks a root [now] sv = (Inl e, sv') \<Longrightarrow>
    server_step sv (ArchiveTick now) None"

inductive_cases server_step_cases: "server_step sv e out"

lemma request_step: "\<exists>out. server_step sv (Request ord now method path body) out"
proof -
  obtain r sv' where r: "dispatch go_server_codec ord now method path body sv = (r, sv')" by fastforce
  show ?thesis
  proof (cases r)
    case (Inl e)
    then show ?thesis using r by (cases e) (auto intro: server_step.intros)
  qed (use r in \<open>auto intro: server_step.intros\<close>)
qed

text \<open>A run through some events; a server that has ended takes no further step.\<close>

inductive server_run :: "('s3, 'z) server_scheme \<Rightarrow> server_event list \<Rightarrow> ('s3, 'z) server_scheme option \<Rightarrow> bool" where
  start: "server_run sv [] (Some sv)"
| step: "server_run sv es (Some sv1) \<Longrightarrow> server_step sv1 e out \<Longrightarrow> server_run sv (es @ [e]) out"

inductive_cases server_run_snocE: "server_run sv (es @ [e]) out"
inductive_cases server_run_nilE: "server_run sv [] out"

lemma server_run_split:
  assumes "server_run sv (xs @ e # ys) out"
  shows "\<exists>sv1 o2. server_run sv xs (Some sv1) \<and> server_step sv1 e o2 \<and> (\<forall>sv2. o2 = Some sv2 \<longrightarrow> server_run sv2 ys out)"
  using assms
proof (induction ys arbitrary: out rule: rev_induct)
  case Nil
  then obtain s where "server_run sv xs (Some s)" "server_step s e out" by (auto elim!: server_run_snocE)
  then show ?case by (intro exI[of _ s] exI[of _ out]) (auto intro: server_run.start)
next
  case (snoc y ys)
  then have "server_run sv ((xs @ e # ys) @ [y]) out" by simp
  then obtain s where "server_run sv (xs @ e # ys) (Some s)" "server_step s y out" by (rule server_run_snocE) auto
  then show ?case using snoc.IH by (blast intro: server_run.step)
qed

text \<open>An invariant every allowed step keeps holds after every run of allowed events, and the server is up.\<close>

lemma server_run_invariant:
  assumes "server_run sv es out" and "\<forall>e\<in>set es. ok e" and "I sv"
    and "\<And>sv e out. I sv \<Longrightarrow> ok e \<Longrightarrow> server_step sv e out \<Longrightarrow> \<exists>sv'. out = Some sv' \<and> I sv'"
  shows "\<exists>sv'. out = Some sv' \<and> I sv'"
  using assms(1,2,3)
proof (induction rule: server_run.induct)
  case (step sv es sv1 e out)
  then show ?case using assms(4)[of sv1 e out] by auto
qed simp

text \<open>A preorder every step stays within holds between the two ends of a run.\<close>

lemma server_run_within:
  assumes "server_run sv es out" and "out = Some sv'" and "reflp R" and "transp R"
    and "\<And>sv e sv'. server_step sv e (Some sv') \<Longrightarrow> R sv sv'"
  shows "R sv sv'"
  using assms(1,2)
proof (induction arbitrary: sv' rule: server_run.induct)
  case (start sv)
  then show ?case using reflpD[OF assms(3)] by simp
next
  case (step sv es sv1 e out)
  then show ?case using assms(5)[of sv1 e sv'] transpD[OF assms(4)] by blast
qed

subsection \<open>What no step takes away\<close>

text \<open>What \<open>SetupAndServe\<close> sets.\<close>

definition settings_of :: "('s3, 'z) server_scheme \<Rightarrow>
    (bytes \<times> FuzzerConfig \<times> Archiver \<times> ArchiveConfig \<times> FleetFileManager \<times> bytes \<times> task list) \<times>
    (page \<Rightarrow> goerr + bytes) \<times> (string \<Rightarrow> (string \<times> string \<times> string) option) \<times> string option" where
  "settings_of sv = ((target sv, fuzzerConf sv, archiver sv, archiveConf sv, fileManager sv, dict sv, s_tasks sv),
     templates sv, input_route sv, serving sv)"

definition server_grows :: "('s3, 'z) server_scheme \<Rightarrow> ('s3, 'z) server_scheme \<Rightarrow> bool" where
  "server_grows sv sv' \<longleftrightarrow> fs_grows (w_fs sv) (w_fs sv') \<and> settings_of sv' = settings_of sv \<and>
     (nodes_wf (nodes sv) \<longrightarrow> nodes_wf (nodes sv'))"

text \<open>The steps that work on the table of nodes alone.\<close>

definition table_step :: "('s3, 'z) server_scheme \<Rightarrow> ('s3, 'z) server_scheme \<Rightarrow> bool" where
  "table_step sv sv' \<longleftrightarrow> w_fs sv' = w_fs sv \<and> settings_of sv' = settings_of sv \<and>
     (nodes_wf (nodes sv) \<longrightarrow> nodes_wf (nodes sv'))"

lemma server_preorders [simp]:
  "reflp server_grows" "transp server_grows" "reflp table_step" "transp table_step"
proof -
  show "reflp server_grows" "reflp table_step"
    using reflpD[OF fs_grows_reflp] by (auto intro!: reflpI simp: server_grows_def table_step_def)
  show "transp server_grows"
    by (rule transpI) (auto simp: server_grows_def intro: transpD[OF fs_grows_transp])
  show "transp table_step" by (rule transpI) (simp add: table_step_def)
qed

lemma table_step_grows: "table_step sv sv' \<Longrightarrow> server_grows sv sv'"
  using reflpD[OF fs_grows_reflp] by (simp add: table_step_def server_grows_def)

lemma world_grows_server: "world_grows sv sv' \<Longrightarrow> server_grows sv sv'" for sv :: "('s3, 'z) server_scheme"
  by (cases sv; cases sv') (auto simp: world_grows_def server_grows_def settings_of_def)

lemma setStats_table: "within table_step (setStats i st t)"
  by (simp add: within_def table_step_def settings_of_def setStats_ok nodes_wf_set)

lemma submit_table: "within table_step (SubmitMetricGauge n v ts)"
  by (simp add: within_def table_step_def settings_of_def Submit_ok)

lemma cleanUp_table: "within table_step (cleanUpOldNodes interval now)"
proof -
  have "within table_step (\<lambda>w. if last_update (nodes w) i + interval < now then deleteNode i w else (Inr (), w))" for i
    by (simp add: within_def table_step_def settings_of_def deleteNode_ok nodes_wf_without)
  then have "within table_step (each (\<lambda>i w. if last_update (nodes w) i + interval < now then deleteNode i w
      else (Inr (), w)) ids)" for ids
    by (intro within_each) simp_all
  then show ?thesis unfolding within_def cleanUpOldNodes_def by blast
qed

lemma logMetrics_table: "within table_step (logMetrics now)"
  by (simp add: within_def table_step_def settings_of_def logMetrics_ok)

lemma within_apply: "within R m \<Longrightarrow> R s (snd (m s))"
  by (simp add: within_def)

lemma lift_world: "within world_grows m \<Longrightarrow> within server_grows m"
  by (rule within_mono, assumption) (rule world_grows_server)

lemmas server_calls = lift_world[OF grows_on_fs] lift_world[OF grows_submit(2)]
  lift_world[OF grows_archiveNewCrashes] within_mono[OF setStats_table table_step_grows]

lemma server_reads: "reads m \<Longrightarrow> within server_grows (on_fs m)"
  by (rule lift_world[OF grows_on_fs_reads])

lemma pure_grows: "within server_grows (pure r)"
  by (simp add: within_def pure_def reflpD)

lemma postState_grows: "within server_grows (postState ord now st)"
  unfolding within_def
proof
  fix w :: "('s3, 'z) server_scheme"
  define fm a where "fm = fileManager w" and "a = archiver w"
  have "within fs_grows (MkAllOutputDirs_fleet m i)" "within fs_grows (WriteOutput_fleet m i out)" for m i out
    by (simp_all add: MkAllOutputDirs_fleet_def WriteOutput_fleet_def grows_MkAllOutputDirs grows_WriteOutput)
  then show "server_grows w (snd (postState ord now st w))"
    unfolding postState_def fm_def[symmetric] a_def[symmetric]
    by (intro within_apply[of server_grows]) (intro within_try within_then within_fatal server_calls pure_grows server_preorders)
qed

lemma reading_handlers_grow:
  "within server_grows getQueues" "within server_grows getInputs" "within server_grows getConfig"
  "within server_grows getTargetBinary" "within server_grows getDict"
proof -
  have r: "reads (ReadInputs_fleet m)" for m
    by (simp add: ReadInputs_fleet_def ReadInputs_def reads_ReadInputCorpus)
  have "within server_grows (go_try (go_fatal (on_fs (ReadQueues fm))) (\<lambda>queues. go_ret (JsonQueues queues)))"
    "within server_grows (go_try (go_fatal (on_fs (ReadInputs_fleet fm))) (\<lambda>corpus. go_ret (JsonInputs corpus)))" for fm
    by (intro within_try within_ret within_fatal server_reads reads_ReadQueues r server_preorders)+
  then show "within server_grows getQueues" "within server_grows getInputs"
    unfolding within_def getQueues_def getInputs_def by blast+
  show "within server_grows getConfig" "within server_grows getTargetBinary" "within server_grows getDict"
    by (simp_all add: within_def getConfig_def getTargetBinary_def getDict_def reflpD)
qed

text \<open>An admin page changes nothing but the log.\<close>

lemma report_fatal_grows: "within server_grows m \<Longrightarrow> within server_grows (report_fatal m)"
  for m :: "('s3, 'z, 'a) sgo"
proof -
  assume m: "within server_grows m"
  have "server_grows w1 (w1\<lparr>w_events := es\<rparr>)" for w1 :: "('s3, 'z) server_scheme" and es
    using reflpD[OF fs_grows_reflp] by (simp add: server_grows_def settings_of_def)
  show ?thesis
    unfolding within_def
  proof
    fix w :: "('s3, 'z) server_scheme"
    obtain r w1 where r: "m w = (r, w1)" by fastforce
    have "server_grows w w1" using m r by (rule withinD)
    moreover have "server_grows w (w1\<lparr>w_events := es\<rparr>)" for es
      using \<open>server_grows w w1\<close> \<open>\<And>w1 es. server_grows w1 (w1\<lparr>w_events := es\<rparr>)\<close> transpD[OF server_preorders(2)] by blast
    ultimately show "server_grows w (snd (report_fatal m w))"
      by (simp add: report_fatal_def r Submit_ok split: sum.split fault.split)
  qed
qed

lemma admin_pages_grow:
  "within server_grows adminIndex" "within server_grows (adminInput fid kind name)"
  "within server_grows adminOutput" "within server_grows adminArchive"
proof -
  have e: "within server_grows (execute p)" for p
  proof -
    have "within server_grows (report_fatal (pure r))" for r :: "response res" by (intro report_fatal_grows pure_grows)
    then show ?thesis unfolding within_def execute_def by blast
  qed
  have r: "reads (ReadInput_fleet fm i t n)" for fm i t n
    using ReadInput_fleet_result[of fm i t n] unfolding within_def by (metis snd_conv)
  have "within server_grows (execute (IndexPage n fc ac))" for n fc ac by (rule e)
  then show "within server_grows adminIndex" unfolding within_def adminIndex_def by blast
  have "within server_grows (go_try (report_fatal (on_fs (ReadInput_fleet fm fid kind name))) (\<lambda>i. execute (InputPage i)))" for fm
    by (intro within_try report_fatal_grows server_reads r e server_preorders)
  then show "within server_grows (adminInput fid kind name)" unfolding within_def adminInput_def by blast
  have "within server_grows (go_try (report_fatal (on_fs (ReadOutputs fm))) (\<lambda>outputs. execute (OutputPage outputs)))" for fm
    by (intro within_try report_fatal_grows server_reads reads_ReadOutputs e server_preorders)
  then show "within server_grows adminOutput" unfolding within_def adminOutput_def by blast
  have "within server_grows (go_try (report_fatal (LsDstFiles a ''realtime-crashes'')) (\<lambda>ns. execute (ArchivePage ns ac)))" for a ac
    by (intro within_try report_fatal_grows lift_world[OF grows_LsDstFiles] e server_preorders)
  then show "within server_grows adminArchive" unfolding within_def adminArchive_def by blast
qed

lemma dispatch_grows: "within server_grows (dispatch sc ord now method path body)"
proof -
  have same: "server_grows w w" for w :: "('s3, 'z) server_scheme" using reflpD[OF server_preorders(1)] .
  have answer: "server_grows w (snd (go_try h (\<lambda>r. go_ret (g r)) w))" if "within server_grows h"
    for h :: "('s3, 'z, response) sgo" and g and w
  proof -
    have "within server_grows (go_try h (\<lambda>r. go_ret (g r)))" by (intro within_try within_ret that server_preorders)
    then show ?thesis by (rule within_apply)
  qed
  have post: "server_grows w (snd (go_then (postState ord now st) (go_ret r) w))"
    for st r and w :: "('s3, 'z) server_scheme"
  proof -
    have "within server_grows (go_then (postState ord now st) (go_ret r))"
      by (intro within_then within_ret postState_grows server_preorders)
    then show ?thesis by (rule within_apply)
  qed
  show ?thesis
    unfolding within_def dispatch_def Let_def
    by (simp add: same answer post admin_pages_grow reading_handlers_grow split: prod.split)
qed

lemma server_step_grows: "server_step sv e (Some sv') \<Longrightarrow> server_grows sv sv'"
  by (erule server_step_cases)
    (auto dest: withinD[OF dispatch_grows] withinD[OF cleanUp_table] withinD[OF logMetrics_table]
      withinD[OF lift_world[OF grows_archive_ticks]] intro: table_step_grows)

text \<open>
  An archive needs an interval, and nothing asks for one: a server that is set up with a type of archive and no interval,
  the default of the flag, starts, and the goroutine of its archive ends it before it has archived anything.
\<close>

theorem archive_needs_interval:
  assumes "SetupAndServe env port b fc ac interval workdir w = (Inr (), sv)" and "ArchiveType ac \<noteq> []"
    and "ArchiveInterval ac \<le> 0" and "s_tasks w = []"
  shows "server_step sv (ArchiveTick now) out \<longleftrightarrow> out = None"
proof -
  obtain a where t: "s_tasks sv = ReaperTask reaper_interval # (if interval > 0 then [PollerTask interval] else []) @
      [ArchiveTask a workdir (ArchiveInterval ac)]"
    using SetupAndServe_archive_task[OF assms(1,2)] assms(4) by auto
  show ?thesis
  proof
    assume "server_step sv (ArchiveTick now) out"
    then show "out = None" by cases (use t assms(3) in \<open>auto split: if_splits\<close>)
  next
    assume "out = None"
    moreover have "ArchiveTask a workdir (ArchiveInterval ac) \<in> set (s_tasks sv)" by (simp add: t)
    ultimately show "server_step sv (ArchiveTick now) out" using server_step.no_ticker assms(3) by blast
  qed
qed

text \<open>\<open>-archive-type disk\<close> alone.\<close>

definition home_alone :: surroundings where
  "home_alone = \<lparr>Getenv = (\<lambda>_. []), NewSession = (\<lambda>_. None), Listen = (\<lambda>_. None)\<rparr>"

lemma archive_needs_interval_witness:
  "\<exists>sv. SetupAndServe home_alone 1414 [] sample_fuzzer ((sample_archive ''disk'')\<lparr>ArchiveInterval := 0\<rparr>) 0 ''/d''
      (sample_server NullArchiver) = (Inr (), sv) \<and> server_step sv (ArchiveTick 60) None"
proof -
  let ?ac = "(sample_archive ''disk'')\<lparr>ArchiveInterval := 0\<rparr>" and ?w = "sample_server NullArchiver"
  have "is_ok (fst (os_mkdir_all ''/arch'' sample_fs))" by code_simp
  then obtain fs' where "os_mkdir_all ''/arch'' sample_fs = (Inr (), fs')"
    by (cases "os_mkdir_all ''/arch'' sample_fs"; cases "fst (os_mkdir_all ''/arch'' sample_fs)") simp_all
  then obtain sv where sv: "SetupAndServe home_alone 1414 [] sample_fuzzer ?ac 0 ''/d'' ?w = (Inr (), sv)"
    by (simp add: SetupAndServe_def start_task_def setup_archiver_def set_archiver_def setup_dict_def listen_and_serve_def
        Let_def home_alone_def sample_archive_def sample_fuzzer_def sample_server_def NewDiskArchiver_def on_fs_def)
  have h: "ArchiveType ?ac \<noteq> []" "ArchiveInterval ?ac \<le> 0" "s_tasks ?w = []"
    by (simp_all add: sample_archive_def sample_server_def)
  show ?thesis using archive_needs_interval[OF sv h] sv by blast
qed

end
