(* ===== verification/ArchiveFrame.thy ===== *)
theory ArchiveFrame
  imports Cluster
begin

text \<open>
  Where the disk archiver of \<open>server/archiver.go\<close> writes: archiving new crashes or taking a snapshot makes and changes files
  at the destinations of its manifest only, and directories on the way to them, whatever else is on disk and
  whether the copies succeed or not. So an archive next to the input and output directories leaves the fleet
  alone; and it never fails.
\<close>

subsection \<open>Changes at given files\<close>

definition touches :: "path set \<Rightarrow> fs \<Rightarrow> fs \<Rightarrow> bool" where
  "touches T fs fs' \<longleftrightarrow> (\<forall>p. fs_lookup fs' p = fs_lookup fs p \<or>
     fs_lookup fs p = None \<and> fs_is_dir fs' p \<and> (\<exists>t\<in>T. strict_prefix p t) \<or>
     p \<in> T \<and> \<not> fs_is_dir fs p \<and> fs_is_file fs' p)"

lemma touches_preorder [simp]: "reflp (touches T)" "transp (touches T)"
proof -
  show "reflp (touches T)" by (auto intro: reflpI simp: touches_def)
  show "transp (touches T)"
  proof (rule transpI)
    fix x y z assume "touches T x y" "touches T y z"
    then show "touches T x z" unfolding touches_def fs_is_file_iff by (metis node.distinct(1) option.inject option.simps(3))
  qed
qed

lemma touches_same: "touches T fs fs"
  by (rule reflpD[OF touches_preorder(1)])

lemma touches_put_file: "p \<in> T \<Longrightarrow> \<not> fs_is_dir fs p \<Longrightarrow> touches T fs (fs_put p (File b) fs)"
  by (auto simp: touches_def fs_lookup_put fs_is_file_put)

lemma touches_mkdir_one: "t \<in> T \<Longrightarrow> strict_prefix q t \<Longrightarrow> within (touches T) (mkdir_one s q)"
  by (auto simp: within_def mkdir_one_def touches_same split: option.split node.split)
    (auto simp: touches_def fs_lookup_put)

lemma touches_mkdir_all:
  assumes "valid_names p" and "t \<in> T" and "strict_prefix p t" shows "within (touches T) (os_mkdir_all (abs_of p))"
proof -
  have "within (touches T) (each (mkdir_one (abs_of p)) qs)" if "\<forall>q\<in>set qs. prefix q p" for qs
    using that
  proof (induction qs)
    case Nil
    then show ?case by (simp add: within_def touches_same)
  next
    case (Cons q qs)
    have "strict_prefix q t" using Cons.prems assms(3) prefix_order.le_less_trans by auto
    then show ?case using Cons assms(2) by (simp add: within_then touches_mkdir_one)
  qed
  moreover have "\<forall>q\<in>set (tl (prefixes p)). prefix q p" by (metis in_set_prefixes list.set_sel(2) prefixes_not_Nil)
  ultimately show ?thesis using assms(1) by (simp add: within_def os_mkdir_all_def touches_same)
qed

lemma touches_write:
  assumes "valid_names p" and "p \<in> T"
  shows "within (touches T) (go_try (os_open_file True (abs_of p)) (\<lambda>fd. io_copy fd srcFd))"
proof -
  have "within (touches T) (io_copy p srcFd)"
    by (auto simp: within_def io_copy_def file_write_def touches_same touches_put_file[OF assms(2)] split: option.split node.split)
  note w = withinD[OF this]
  have "touches T fs (snd (go_try (os_open_file True (abs_of p)) (\<lambda>fd. io_copy fd srcFd) fs))" for fs
  proof -
    have "fst (os_open_file True (abs_of p) fs) = Inr p \<or> (\<exists>e. fst (os_open_file True (abs_of p) fs) = Inl e)"
      using assms(1) by (auto simp: os_open_file_def sys_path_abs_of split: option.split node.split)
    moreover have "touches T fs (snd (os_open_file True (abs_of p) fs))"
      using assms by (auto simp: os_open_file_def sys_path_abs_of touches_same touches_put_file split: option.split node.split)
    ultimately show ?thesis
      using w transpD[OF touches_preorder(2)]
      by (cases "os_open_file True (abs_of p) fs") (auto simp: go_try_def split: sum.split; metis snd_conv surj_pair)
  qed
  then show ?thesis by (simp add: within_def)
qed

subsection \<open>The archive\<close>

lemma touches_archiveOne:
  assumes "valid_names dr" and "valid_names rd" and "rd \<noteq> []" and "dr @ rd \<in> T"
  shows "within (touches T) (archiveOne_disk \<lparr>DstRoot = abs_of dr\<rparr> x (join_with slash rd))"
proof -
  let ?p = "dr @ rd"
  have v: "valid_names ?p" using assms(1,2) by simp
  have p: "?p = (dr @ butlast rd) @ [last rd]" using assms(3) by simp
  have b: "valid_names (dr @ butlast rd)" "valid_name (last rd)"
    using assms by (auto simp: list_all_iff dest: in_set_butlastD)
  have join: "path_join [abs_of dr, join_with slash rd] = abs_of ?p"
    using assms by (intro path_join_rel)
  have dir: "path_dir (abs_of ?p) = abs_of (dr @ butlast rd)"
    using path_dir_snoc[OF b(1,2)] unfolding p[symmetric] .
  have "strict_prefix (dr @ butlast rd) ?p" by (subst p) (auto simp: strict_prefix_def)
  then have "within (touches T) (os_mkdir_all (abs_of (dr @ butlast rd)))"
    using b(1) assms(4) by (intro touches_mkdir_all)
  moreover note touches_write[OF v assms(4)]
  moreover have "within (touches T) (os_open x)"
    by (auto simp: within_def os_open_def touches_same split: sum.split option.split)
  ultimately show ?thesis
    unfolding archiveOne_disk_def Let_def DiskArchiver.select_convs join dir
    by (intro within_then[OF touches_preorder(2)] within_try[OF touches_preorder(2), where m = "os_open x"]) simp_all
qed

definition touches_world :: "path set \<Rightarrow> ('s3, 'z) world_scheme \<Rightarrow> ('s3, 'z) world_scheme \<Rightarrow> bool" where
  "touches_world T w w' \<longleftrightarrow> touches T (w_fs w) (w_fs w')"

lemma touches_world_preorder [simp]: "reflp (touches_world T)" "transp (touches_world T)"
proof -
  show "reflp (touches_world T)" by (auto intro: reflpI simp: touches_world_def touches_same)
  show "transp (touches_world T)"
    using transpD[OF touches_preorder(2)] by (intro transpI) (auto simp: touches_world_def)
qed

lemma touches_entry:
  assumes "valid_names dr" and "valid_names rd" and "rd \<noteq> []" and "dr @ rd \<in> T"
  shows "\<exists>w'. archive_entry (disk_at dr) root (rel_entry x rd) w = (Inr (), w') \<and> touches_world T w w'"
proof -
  let ?a = "archiveOne (disk_at dr) (path_join [root, join_with slash x]) (join_with slash rd)"
  obtain res w1 where a: "?a w = (res, w1)" by fastforce
  have "within (touches_world T) ?a"
    using withinD[OF touches_archiveOne[OF assms]]
    by (auto simp: archiveOne_def disk_at_def within_def touches_world_def on_fs_def split: prod.split)
  from withinD[OF this a] have w1: "touches_world T w w1" .
  show ?thesis
  proof (cases res)
    case (Inl f)
    then obtain e where "f = Err e" using errsD[OF archiveOne_errs] a by blast
    then show ?thesis using a Inl w1 by (simp add: archive_entry_def rel_entry_def Submit_ok touches_world_def del: join_with.simps)
  next
    case (Inr u)
    then show ?thesis using a w1 by (simp add: archive_entry_def rel_entry_def Submit_ok touches_world_def del: join_with.simps)
  qed
qed

lemma touches_manifest:
  assumes "valid_names dr" and "\<forall>j\<in>set jobs. valid_names (snd j) \<and> snd j \<noteq> [] \<and> dr @ snd j \<in> T"
  shows "\<exists>w'. ArchiveManifest (disk_at dr) \<lparr>srcRoot = root, entries = map (\<lambda>j. rel_entry (fst j) (snd j)) jobs\<rparr> w =
      (Inr (), w') \<and> touches_world T w w'"
proof -
  have "\<exists>w'. each (archive_entry (disk_at dr) root) (map (\<lambda>j. rel_entry (fst j) (snd j)) jobs) w = (Inr (), w') \<and>
      touches_world T w w'" for w :: "('a, 'b) world_scheme"
    using assms(2)
  proof (induction jobs arbitrary: w)
    case Nil
    then show ?case by (simp add: touches_world_def touches_same)
  next
    case (Cons j jobs)
    obtain w1 where w1: "archive_entry (disk_at dr) root (rel_entry (fst j) (snd j)) w = (Inr (), w1)" "touches_world T w w1"
      using touches_entry[OF assms(1), of "snd j" T root "fst j" w] Cons.prems by auto
    obtain w2 where "each (archive_entry (disk_at dr) root) (map (\<lambda>j. rel_entry (fst j) (snd j)) jobs) w1 = (Inr (), w2)"
        "touches_world T w1 w2"
      using Cons.IH[of w1] Cons.prems by auto
    then show ?case using w1 transpD[OF touches_world_preorder(2)] by auto
  qed
  moreover have "touches_world T w (w\<lparr>w_events := es\<rparr>)" for es by (simp add: touches_world_def touches_same)
  ultimately show ?thesis
    using transpD[OF touches_world_preorder(2)] by (simp add: ArchiveManifest_def Submit_ok) blast
qed

text \<open>The destinations of the crashes of a fleet and of a snapshot; archiving them succeeds.\<close>

definition crash_targets :: "path \<Rightarrow> path \<Rightarrow> fs \<Rightarrow> path set" where
  "crash_targets dr bs fs = (\<lambda>r. dr @ realtimeCrashesPath # r) ` set (crash_rels fs bs (fleet_ids fs bs))"

lemma archiveNewCrashes_touches:
  assumes "outputs_ready (w_fs w) bs" and "fs_reach (w_fs w) dr" and "no_file_on (w_fs w) (dr @ [realtimeCrashesPath])"
    and "range_order ord"
  shows "\<exists>w'. archiveNewCrashes ord (fleet bs) (disk_at dr) w = (Inr (), w') \<and>
    touches_world (crash_targets dr bs (w_fs w)) w w'"
proof -
  let ?fs = "w_fs w" and ?c = realtimeCrashesPath
  have wf: "fs_wf ?fs" and v: "valid_names bs"
    using assms(1) by (auto simp: outputs_ready_def dir_ready_def fs_reach_def)
  obtain archived where ls: "LsDstFiles_disk \<lparr>DstRoot = abs_of dr\<rparr> ?c ?fs = (Inr archived, ?fs)"
    "\<forall>n\<in>set archived. slash \<notin> set n"
    using LsDstFiles_disk_ok[OF wf assms(2)] assms(3) by (auto simp: realtimeCrashesPath_def)
  let ?outs = "map (\<lambda>fid. (fid, output_of ?fs (out_path bs fid))) (fleet_ids ?fs bs)"
  have outs: "ReadOutputs (fleet bs) ?fs = (Inr ?outs, ?fs)"
    using assms(1) by (intro ReadOutputs_all_ready) (auto simp: outputs_ready_def list_all_iff)
  obtain ids where ids: "ord ?outs = map (\<lambda>fid. (fid, output_of ?fs (out_path bs fid))) ids"
    "distinct ids" "set ids = set (fleet_ids ?fs bs)"
    using range_order_graph[OF assms(4) fleet_ids_facts(2)] by metis
  have "r \<in> set (crash_rels ?fs bs ids) \<longleftrightarrow> r \<in> set (crash_rels ?fs bs (fleet_ids ?fs bs))" for r
    by (simp add: crash_rels_set ids(3))
  then have same: "set (crash_rels ?fs bs ids) = set (crash_rels ?fs bs (fleet_ids ?fs bs))" by blast
  let ?jobs = "map (\<lambda>r. (r, ?c # r)) (crash_rels ?fs bs ids)"
  have "valid_name ?c" by (simp add: realtimeCrashesPath_def)
  then have "\<forall>j\<in>set ?jobs. valid_names (snd j) \<and> snd j \<noteq> [] \<and> dr @ snd j \<in> crash_targets dr bs ?fs"
    using wf_names[OF wf v] unfolding crash_targets_def same[symmetric]
    by (fastforce simp: crash_rels_set file_at_Some)
  then obtain w' where w': "ArchiveManifest (disk_at dr)
      \<lparr>srcRoot = abs_of bs, entries = map (\<lambda>r. rel_entry r (?c # r)) (crash_rels ?fs bs ids)\<rparr> w = (Inr (), w')"
    "touches_world (crash_targets dr bs ?fs) w w'"
    using touches_manifest[OF fs_reach_valid[OF assms(2)], of ?jobs "crash_targets dr bs ?fs" "abs_of bs" w] by (auto simp: comp_def)
  have "fold_res (add_output (fleet bs) archived) (ord ?outs) \<lparr>srcRoot = abs_of bs, entries = []\<rparr> =
      Inr \<lparr>srcRoot = abs_of bs, entries = map (\<lambda>r. rel_entry r (?c # r)) (crash_rels ?fs bs ids)\<rparr>"
    using crash_manifest_ok[OF assms(1) ls(2), of ids "\<lparr>srcRoot = abs_of bs, entries = []\<rparr>"] ids by simp
  then have "archiveNewCrashes ord (fleet bs) (disk_at dr) w = (Inr (), w')"
    using ls(1) outs w'(1) by (simp add: archiveNewCrashes_def LsDstFiles_def disk_at_def fleet_def)
  then show ?thesis using w'(2) by blast
qed

definition snapshot_targets :: "path \<Rightarrow> string \<Rightarrow> path set" where
  "snapshot_targets dr t = {p. strict_prefix (dr @ [t]) p}"

lemma archive_tick_touches:
  assumes "dir_ready (w_fs w) bs" and "valid_names dr"
  shows "\<exists>w'. archive_ticks (disk_at dr) (abs_of bs) [ts] w = (Inr (), w') \<and> touches_world (snapshot_targets dr (format_int ts)) w w'"
proof -
  let ?fs = "w_fs w" and ?t = "format_int ts"
  have wf: "fs_wf ?fs" and v: "valid_names bs" and d: "fs_is_dir ?fs bs"
    using assms(1) by (auto simp: dir_ready_def fs_reach_def)
  let ?jobs = "map (\<lambda>r. (r, ?t # r)) (all_files ?fs bs)"
  have r: "valid_names r \<and> r \<noteq> []" if "r \<in> set (all_files ?fs bs)" for r
    using that wf_names[OF wf v, of r] d by (auto simp: all_files_set[OF wf] fs_is_file_iff)
  then have m: "map (manifest_entry ?t) (all_files ?fs bs) = map (\<lambda>j. rel_entry (fst j) (snd j)) ?jobs"
    by (auto simp: manifest_entry_rel valid_format_int)
  have "\<forall>j\<in>set ?jobs. valid_names (snd j) \<and> snd j \<noteq> [] \<and> dr @ snd j \<in> snapshot_targets dr ?t"
    using r by (auto simp: valid_format_int snapshot_targets_def strict_prefix_def)
  from touches_manifest[OF assms(2) this, of "abs_of bs" w]
  obtain w' where "ArchiveManifest (disk_at dr)
      \<lparr>srcRoot = abs_of bs, entries = map (\<lambda>j. rel_entry (fst j) (snd j)) ?jobs\<rparr> w = (Inr (), w')"
    "touches_world (snapshot_targets dr ?t) w w'" by blast
  then show ?thesis
    using newSimpleManifest_ok[OF assms(1), of ?t] unfolding m[symmetric]
    by (intro exI[of _ w']) (simp add: archive_ticks_def archiveToTimestampedDir_def ArchiveToNamedDir_def go_catch_def)
qed

subsection \<open>Changes below one directory\<close>

definition confined :: "path \<Rightarrow> fs \<Rightarrow> fs \<Rightarrow> bool" where
  "confined d fs fs' \<longleftrightarrow> (\<forall>p. \<not> strict_prefix d p \<longrightarrow> fs_lookup fs' p = fs_lookup fs p \<or>
     prefix p d \<and> fs_lookup fs p = None \<and> fs_lookup fs' p = Some Dir)"

lemma touches_confined: "touches T fs fs' \<Longrightarrow> \<forall>t\<in>T. strict_prefix d t \<Longrightarrow> confined d fs fs'"
  unfolding touches_def confined_def strict_prefix_def by (metis prefix_same_cases)

lemma crash_targets_below: "\<forall>t\<in>crash_targets dr bs fs. strict_prefix (dr @ [realtimeCrashesPath]) t"
  by (auto simp: crash_targets_def crash_rels_set strict_prefix_def)

lemma snapshot_targets_below: "\<forall>p\<in>snapshot_targets dr t. strict_prefix (dr @ [t]) p"
  by (simp add: snapshot_targets_def)

end
