(* ===== verification/ServerSpec.thy ===== *)
theory ServerSpec
  imports ServerRun ArchiveFrame
begin

text \<open>
  What the running server promises (\<open>server/server.go\<close>): without an archive or with one on disk next to the fleet's
  directories, with handlers that come one at a time, as long as complete reports name their fuzzer and inputs like files,
  nobody asks for the page of a single input and the other admin pages can be rendered, it does not end, and it behaves
  like one map from fuzzers to the named inputs of their queues, to which every complete report adds and of which every
  answer for the queues is the JSON. The page of a single input is left out because it ends the server when the
  input is not there, which is shown too.
\<close>

subsection \<open>A tidy server\<close>

text \<open>
  Below the output directory there are directories down to the corpora of the fuzzers and files in the corpora,
  nothing else.
\<close>

definition fleet_tidy :: "fs \<Rightarrow> path \<Rightarrow> bool" where
  "fleet_tidy fs bs \<longleftrightarrow> outputs_ready fs bs \<and> dir_ready fs (bs @ [''input'']) \<and>
     list_all (\<lambda>p. prefix (bs @ [''output'']) p \<longrightarrow>
         (if fs_is_dir fs p then length p \<le> length bs + 3 else length p = length bs + 4))
       (map fst (fs_tree fs))"

lemma fleet_tidy_iff:
  "fleet_tidy fs bs \<longleftrightarrow> outputs_ready fs bs \<and> dir_ready fs (bs @ [''input'']) \<and>
     (\<forall>p. prefix (bs @ [''output'']) p \<longrightarrow> (fs_is_dir fs p \<longrightarrow> length p \<le> length bs + 3) \<and>
        (\<forall>b. file_at fs p = Some b \<longrightarrow> length p = length bs + 4))"
proof -
  have "(\<forall>p\<in>set (map fst (fs_tree fs)). prefix (bs @ [''output'']) p \<longrightarrow>
      (if fs_is_dir fs p then length p \<le> length bs + 3 else length p = length bs + 4)) \<longleftrightarrow>
    (\<forall>p. prefix (bs @ [''output'']) p \<longrightarrow> (fs_is_dir fs p \<longrightarrow> length p \<le> length bs + 3) \<and>
        (\<forall>b. file_at fs p = Some b \<longrightarrow> length p = length bs + 4))" (is "?l \<longleftrightarrow> ?r")
  proof
    assume l: ?l
    show ?r
    proof (intro allI impI)
      fix p assume p: "prefix (bs @ [''output'']) p"
      then have "p \<in> set (map fst (fs_tree fs))" if "fs_lookup fs p = Some n" for n
        using that by (auto simp: fs_lookup_def dest!: map_of_SomeD split: if_splits intro!: rev_image_eqI)
      then show "(fs_is_dir fs p \<longrightarrow> length p \<le> length bs + 3) \<and>
          (\<forall>b. file_at fs p = Some b \<longrightarrow> length p = length bs + 4)"
        using l p by (fastforce simp: file_at_Some)
    qed
  next
    assume r: ?r
    show ?l
    proof (intro ballI impI)
      fix p assume p: "p \<in> set (map fst (fs_tree fs))" "prefix (bs @ [''output'']) p"
      then have "map_of (fs_tree fs) p \<noteq> None" by (auto simp: map_of_eq_None_iff)
      moreover have "p \<noteq> []" using p(2) by auto
      ultimately obtain n where "fs_lookup fs p = Some n" by (auto simp: fs_lookup_def)
      then show "if fs_is_dir fs p then length p \<le> length bs + 3 else length p = length bs + 4"
        using r p(2) by (cases n) (auto simp: file_at_Some)
    qed
  qed
  then show ?thesis by (simp add: fleet_tidy_def list_all_iff)
qed

text \<open>A report whose fuzzer and inputs have names of files, or one the handler drops for a missing corpus.\<close>

definition good_names :: "Input list \<Rightarrow> bool" where
  "good_names is \<longleftrightarrow> list_all (\<lambda>i. valid_name (Name i)) is"

definition good_report :: "State \<Rightarrow> bool" where
  "good_report st \<longleftrightarrow> (case (Queue (Output st), Crashes (Output st), Hangs (Output st)) of
     (Some q, Some c, Some h) \<Rightarrow>
       valid_name (Id st) \<and> good_names (Inputs q) \<and> good_names (Inputs c) \<and> good_names (Inputs h)
   | _ \<Rightarrow> True)"

text \<open>The queue of a report that has all its corpora.\<close>

definition complete_queue :: "State \<Rightarrow> Input list option" where
  "complete_queue st = (case (Queue (Output st), Crashes (Output st), Hangs (Output st)) of
     (Some q, Some c, Some h) \<Rightarrow> Some (Inputs q)
   | _ \<Rightarrow> None)"

text \<open>The page of a single input.\<close>

definition asks_input :: "string \<Rightarrow> string \<Rightarrow> bool" where
  "asks_input method path \<longleftrightarrow> (method = ''GET'' \<or> method = ''HEAD'') \<and> prefix ''/admin/fuzzer/'' path"

lemma asks_input_POST [simp]: "\<not> asks_input ''POST'' path"
  by (simp add: asks_input_def)

definition harmless :: "server_event \<Rightarrow> bool" where
  "harmless e \<longleftrightarrow> (case e of
     Request ord now method path body \<Rightarrow> range_order ord \<and> \<not> asks_input method path \<and>
       (method = ''POST'' \<and> path = ''/state'' \<longrightarrow> good_report (decode_state body))
   | _ \<Rightarrow> True)"

text \<open>No archive, or one on disk next to the input and output directories, with no file in its way.\<close>

definition archiver_at :: "path option \<Rightarrow> Archiver" where
  "archiver_at ar = (case ar of None \<Rightarrow> NullArchiver | Some dr \<Rightarrow> disk_at dr)"

definition apart_from :: "path \<Rightarrow> path \<Rightarrow> bool" where
  "apart_from p q \<longleftrightarrow> \<not> prefix p q \<and> \<not> prefix q p"

definition archive_ready :: "fs \<Rightarrow> path \<Rightarrow> path option \<Rightarrow> bool" where
  "archive_ready fs bs ar = (case ar of None \<Rightarrow> True
     | Some dr \<Rightarrow> fs_reach fs dr \<and> no_file_on fs (dr @ [realtimeCrashesPath]) \<and> valid_names (fs_cwd fs) \<and>
         apart_from dr (bs @ [''output'']) \<and> apart_from dr (bs @ [''input'']))"

definition server_tidy :: "path \<Rightarrow> path option \<Rightarrow> ('s3, 'z) server_scheme \<Rightarrow> bool" where
  "server_tidy bs ar sv \<longleftrightarrow> fleet_tidy (w_fs sv) bs \<and> fileManager sv = fleet bs \<and> archiver sv = archiver_at ar \<and>
     archive_ready (w_fs sv) bs ar \<and> nodes_wf (nodes sv) \<and> (\<forall>p. \<exists>html. templates sv p = Inr html) \<and>
     list_all (\<lambda>t. case t of
         ArchiveTask a root interval \<Rightarrow> ar \<noteq> None \<and> a = archiver_at ar \<and> root = abs_of bs \<and> 0 < interval
       | _ \<Rightarrow> True) (s_tasks sv)"

lemma server_tidy_grows:
  assumes "server_tidy bs ar sv" and "server_grows sv sv'" and "fleet_tidy (w_fs sv') bs" and "archive_ready (w_fs sv') bs ar"
  shows "server_tidy bs ar sv'"
  using assms by (simp add: server_tidy_def server_grows_def settings_of_def)

subsection \<open>What the archive leaves alone\<close>

definition keeps_fleet :: "path \<Rightarrow> path option \<Rightarrow> fs \<Rightarrow> fs \<Rightarrow> bool" where
  "keeps_fleet bs ar fs fs' \<longleftrightarrow> (fs_wf fs \<longrightarrow> fs_wf fs') \<and> fs_denied fs' = fs_denied fs \<and> archive_ready fs' bs ar \<and>
     (\<forall>p. prefix (bs @ [''output'']) p \<or> prefix (bs @ [''input'']) p \<longrightarrow> fs_lookup fs' p = fs_lookup fs p)"

lemma confined_keeps:
  assumes "confined (dr @ [c]) fs fs'" and "fs_grows fs fs'" and "archive_ready fs bs (Some dr)"
  shows "keeps_fleet bs (Some dr) fs fs'"
proof -
  have ready: "fs_reach fs dr" "no_file_on fs (dr @ [realtimeCrashesPath])" "valid_names (fs_cwd fs)"
    "apart_from dr (bs @ [''output''])" "apart_from dr (bs @ [''input''])"
    using assms(3) by (simp_all add: archive_ready_def)
  have same: "fs_lookup fs' p = fs_lookup fs p" if a: "apart_from dr q" and p: "prefix q p" for p q
  proof -
    have "\<not> prefix dr p" "\<not> prefix p dr"
      using a p prefix_same_cases[of dr p q] prefix_order.trans[of q p dr] by (auto simp: apart_from_def)
    then have "\<not> strict_prefix (dr @ [c]) p" "\<not> prefix p (dr @ [c])"
      using append_prefixD[of dr "[c]" p] by (auto simp: strict_prefix_def)
    then show ?thesis using assms(1) by (auto simp: confined_def)
  qed
  have "\<not> fs_is_file fs' q" if "prefix q (dr @ [realtimeCrashesPath])" for q
  proof -
    have "\<not> strict_prefix (dr @ [c]) q" using that by (auto simp: strict_prefix_def prefix_def append_eq_append_conv2 append_eq_Cons_conv)
    then have "fs_lookup fs' q = fs_lookup fs q \<or> fs_lookup fs' q = Some Dir" using assms(1) by (auto simp: confined_def)
    moreover have "\<not> fs_is_file fs q" using ready(2) that by (auto simp: no_file_on_def list_all_iff)
    ultimately show ?thesis by (auto simp: fs_is_file_iff)
  qed
  then have "archive_ready fs' bs (Some dr)"
    using ready assms(2) fs_reach_cong[of fs' fs dr] by (simp add: archive_ready_def no_file_on_def list_all_iff fs_grows_def)
  then show ?thesis using same ready assms(2) by (auto simp: keeps_fleet_def fs_grows_def)
qed

lemma fleet_tidy_keeps:
  assumes "keeps_fleet bs ar fs fs'" and "fleet_tidy fs bs"
  shows "fleet_tidy fs' bs \<and> fleet_queues fs' bs = fleet_queues fs bs"
proof -
  have out: "outputs_ready fs bs" and inp: "dir_ready fs (bs @ [''input''])" using assms(2) by (simp_all add: fleet_tidy_def)
  have wf: "fs_wf fs" using inp by (simp add: dir_ready_def)
  have same: "fs_lookup fs' (bs @ ''output'' # r) = fs_lookup fs (bs @ ''output'' # r)"
    "fs_lookup fs' (bs @ [''input'']) = fs_lookup fs (bs @ [''input''])" for r
    using assms(1) by (simp_all add: keeps_fleet_def)
  have den: "fs_denied fs' = fs_denied fs" and wf': "fs_wf fs'" using assms(1) wf by (simp_all add: keeps_fleet_def)
  note reach = fs_reach_cong[OF den]
  have ids: "set (fleet_ids fs' bs) = set (fleet_ids fs bs)" by (simp add: fleet_ids_set same)
  have dir: "dir_ready fs' (bs @ ''output'' # r) = dir_ready fs (bs @ ''output'' # r)" for r
    using wf wf' by (simp add: dir_ready_def reach same)
  have "out_ready fs' (out_path bs fid) = out_ready fs (out_path bs fid)" if "fid \<in> set (fleet_ids fs bs)" for fid
    using out_path_fid[OF fleet_ids_valid[OF wf that], of bs] by (simp add: out_ready_def corpus_paths_def dir)
  then have "outputs_ready fs' bs"
    using out dir[of "[]"] by (simp add: outputs_ready_def list_all_iff ids reach)
  moreover have "dir_ready fs' (bs @ [''input''])" using inp wf' by (simp add: dir_ready_def reach same)
  moreover have "prefix (bs @ [''output'']) p \<Longrightarrow> fs_lookup fs' p = fs_lookup fs p" for p
    using assms(1) by (simp add: keeps_fleet_def)
  ultimately have "fleet_tidy fs' bs" using assms(2) unfolding fleet_tidy_iff by (auto simp: file_at_def)
  moreover have "fleet_queues fs' bs = fleet_queues fs bs"
    by (auto simp: fleet_queues_def queue_path_def same dir_files_def fun_eq_iff)
  ultimately show ?thesis ..
qed

text \<open>Archiving the crashes and taking a snapshot succeed and keep the fleet.\<close>

lemma archiveNewCrashes_keeps:
  fixes w :: "('s3, 'z) world_scheme"
  assumes "outputs_ready (w_fs w) bs" and "archive_ready (w_fs w) bs ar" and "range_order ord"
  shows "\<exists>w'. archiveNewCrashes ord (fleet bs) (archiver_at ar) w = (Inr (), w') \<and> keeps_fleet bs ar (w_fs w) (w_fs w')"
proof (cases ar)
  case None
  then show ?thesis
    using archiveNewCrashes_null[OF assms(1,3)] by (auto simp: archiver_at_def keeps_fleet_def archive_ready_def)
next
  case (Some dr)
  then have "fs_reach (w_fs w) dr" "no_file_on (w_fs w) (dr @ [realtimeCrashesPath])"
    using assms(2) by (simp_all add: archive_ready_def)
  from archiveNewCrashes_touches[OF assms(1) this assms(3)] obtain w' where
    w': "archiveNewCrashes ord (fleet bs) (disk_at dr) w = (Inr (), w')" "touches_world (crash_targets dr bs (w_fs w)) w w'" by blast
  moreover have "confined (dr @ [realtimeCrashesPath]) (w_fs w) (w_fs w')"
    using w'(2) touches_confined crash_targets_below by (auto simp: touches_world_def)
  moreover have "fs_grows (w_fs w) (w_fs w')" using withinD[OF grows_archiveNewCrashes w'(1)] by (simp add: world_grows_def)
  ultimately show ?thesis
    using confined_keeps assms(2) by (auto simp: Some archiver_at_def)
qed

lemma fleet_tidy_root: "fleet_tidy fs bs \<Longrightarrow> dir_ready fs bs"
  using fs_wf_lookup[of fs bs "''output''"] by (auto simp: fleet_tidy_def outputs_ready_def dir_ready_def)

lemma archive_tick_keeps:
  fixes w :: "('s3, 'z) world_scheme"
  assumes "fleet_tidy (w_fs w) bs" and "archive_ready (w_fs w) bs (Some dr)"
  shows "\<exists>w'. archive_ticks (archiver_at (Some dr)) (abs_of bs) [ts] w = (Inr (), w') \<and> keeps_fleet bs (Some dr) (w_fs w) (w_fs w')"
proof -
  have "dir_ready (w_fs w) bs" by (rule fleet_tidy_root[OF assms(1)])
  moreover have "valid_names dr" using assms(2) by (auto simp: archive_ready_def dest: fs_reach_valid)
  ultimately obtain w' where
    w': "archive_ticks (disk_at dr) (abs_of bs) [ts] w = (Inr (), w')" "touches_world (snapshot_targets dr (format_int ts)) w w'"
    using archive_tick_touches by blast
  moreover have "confined (dr @ [format_int ts]) (w_fs w) (w_fs w')"
    using w'(2) touches_confined snapshot_targets_below by (auto simp: touches_world_def)
  moreover have "fs_grows (w_fs w) (w_fs w')" using withinD[OF grows_archive_ticks w'(1)] by (simp add: world_grows_def)
  ultimately show ?thesis using confined_keeps assms(2) by (auto simp: archiver_at_def)
qed

subsection \<open>The abstract server\<close>

text \<open>
  The abstract state: the queue of every fuzzer that has one, its inputs by name. A complete report adds its queue to
  the one of its fuzzer; nothing else changes anything.
\<close>

type_synonym fleet_map = "string \<Rightarrow> (string \<Rightarrow> bytes option) option"

definition take_report :: "State \<Rightarrow> fleet_map \<Rightarrow> fleet_map" where
  "take_report st m =
     (case complete_queue st of None \<Rightarrow> m | Some q \<Rightarrow> m(Id st \<mapsto> absorb (m (Id st)) \<lparr>Inputs = q\<rparr>))"

definition event_report :: "server_event \<Rightarrow> State option" where
  "event_report e = (case e of
     Request ord now method path body \<Rightarrow>
       if method = ''POST'' \<and> path = ''/state'' then Some (decode_state body) else None
   | _ \<Rightarrow> None)"

definition server_spec :: "server_event \<Rightarrow> fleet_map \<Rightarrow> fleet_map" where
  "server_spec e m = (case event_report e of None \<Rightarrow> m | Some st \<Rightarrow> take_report st m)"

lemma event_report_tick [simp]:
  "event_report (ReaperTick n) = None" "event_report (PollerTick n) = None" "event_report (ArchiveTick n) = None"
  by (simp_all add: event_report_def)

text \<open>An input stays, whatever comes, and as it is while nothing comes from its fuzzer.\<close>

definition has_input :: "string \<Rightarrow> string \<Rightarrow> fleet_map \<Rightarrow> bool" where
  "has_input fid n m \<longleftrightarrow> (\<exists>f b. m fid = Some f \<and> f n = Some b)"

lemma has_input_absorb: "m fid = Some f \<Longrightarrow> f n = Some b \<Longrightarrow> \<exists>b'. absorb (m fid) c n = Some b'"
  using stored_not_None[of f n "Inputs c"] by (auto simp: absorb_def)

lemma has_input_spec: "has_input fid n m \<Longrightarrow> has_input fid n (server_spec e m)"
  using has_input_absorb[of m fid]
  by (fastforce simp: has_input_def server_spec_def take_report_def split: option.split)

lemma has_input_run: "has_input fid n m \<Longrightarrow> has_input fid n (fold server_spec es m)"
  by (induction es arbitrary: m) (simp_all add: has_input_spec)

definition reports_as :: "string \<Rightarrow> server_event \<Rightarrow> bool" where
  "reports_as fid e \<longleftrightarrow> (\<exists>st. event_report e = Some st \<and> Id st = fid)"

lemma spec_others: "\<not> list_ex (reports_as fid) es \<Longrightarrow> fold server_spec es m fid = m fid"
  by (induction es arbitrary: m) (auto simp: server_spec_def take_report_def reports_as_def split: option.split)

text \<open>The names stay UTF-8, since the texts of every report are.\<close>

definition map_utf8 :: "fleet_map \<Rightarrow> bool" where
  "map_utf8 m \<longleftrightarrow> (\<forall>fid f. m fid = Some f \<longrightarrow>
     utf8_ok fid \<and> (\<forall>n b. f n = Some b \<longrightarrow> n \<noteq> readmeFilename \<longrightarrow> utf8_ok n))"

lemma absorb_names: "absorb old c n = Some b \<Longrightarrow> (\<exists>f. old = Some f \<and> f n \<noteq> None) \<or> n \<in> Name ` set (Inputs c)"
  using stored_other[of n "Inputs c"] by (fastforce simp: absorb_def split: option.splits)

lemma map_utf8_report: "map_utf8 m \<Longrightarrow> state_utf8 st \<Longrightarrow> map_utf8 (take_report st m)"
proof -
  assume m: "map_utf8 m" and st: "state_utf8 st"
  have "utf8_ok (Name i)" if "complete_queue st = Some q" "i \<in> set q" for q i
    using that st by (auto simp: complete_queue_def state_utf8_def corpus_utf8_def list_all_iff split: option.splits)
  then show ?thesis
    using m st
    by (auto simp: map_utf8_def take_report_def state_utf8_def split: option.split if_splits dest!: absorb_names)
qed

lemma map_utf8_spec: "map_utf8 m \<Longrightarrow> map_utf8 (server_spec e m)"
  using map_utf8_report decode_state_utf8 by (auto simp: server_spec_def event_report_def split: option.split server_event.split)

lemma map_utf8_run: "map_utf8 m \<Longrightarrow> map_utf8 (fold server_spec es m)"
  by (induction es arbitrary: m) (simp_all add: map_utf8_spec)

subsection \<open>The handlers on a tidy server\<close>

lemma good_post_ok:
  assumes "fleet_tidy fs bs" and "valid_name fid" and "good_names q" and "good_names c" and "good_names h"
  shows "post_ok fs (out_path bs fid) q c h"
proof -
  note p = out_path_fid[OF assms(2), of bs]
  have below: "length r = 3" if "file_at fs (bs @ ''output'' # r) = Some b" for r b
    using that assms(1) by (auto simp: fleet_tidy_iff prefix_def dest!: spec[of _ "bs @ ''output'' # r"])
  have top: "\<not> fs_is_file fs x" if x: "prefix x (bs @ [''output''])" for x
  proof
    assume "fs_is_file fs x"
    moreover have "fs_wf fs" "fs_is_dir fs (bs @ [''output''])"
      using assms(1) by (auto simp: fleet_tidy_def outputs_ready_def dir_ready_def)
    moreover obtain y where "bs @ [''output''] = x @ y" using x by (auto simp: prefix_def)
    ultimately show False
      using fs_lookup_below_None[of fs "x @ [hd y]" "tl y"] fs_wf_no_child[of fs x "hd y"] by (cases y) (auto simp: fs_is_file_iff)
  qed
  have "no_file_on fs (out_path bs fid @ [k])" for k
    unfolding no_file_on_def list_all_iff
  proof
    fix x assume "x \<in> set (prefixes (out_path bs fid @ [k]))"
    then have x: "prefix x (bs @ [''output''] @ [fid, k])" by (simp add: p)
    show "\<not> fs_is_file fs x"
    proof (cases "prefix x (bs @ [''output''])")
      case False
      then obtain r where "x = bs @ ''output'' # r" "prefix r [fid, k]"
        using x prefix_append[of x "bs @ [''output'']" "[fid, k]"] by auto
      moreover from this(2) have "length r \<le> 2" by (auto dest: prefix_length_le)
      ultimately show ?thesis using below[of r] by (auto simp: fs_is_file_iff file_at_Some)
    qed (rule top)
  qed
  moreover have "\<not> fs_is_dir fs (bs @ [''output'', fid, k, n])" for k n
    using assms(1) by (auto simp: fleet_tidy_iff prefix_def dest!: spec[of _ "bs @ [''output'', fid, k, n]"])
  ultimately show ?thesis
    using assms(3-5) by (simp add: post_ok_def out_free_def corpus_paths_def p good_names_def list_all_iff)
qed

lemma tidy_stored:
  assumes "fleet_tidy fs bs" and "valid_name fid" and "outputs_ready fs2 bs" and "fs_denied fs2 = fs_denied fs"
    and dirs: "\<And>d. fs_is_dir fs2 d \<longleftrightarrow> fs_is_dir fs d \<or> (\<exists>p\<in>set (corpus_paths (out_path bs fid)). prefix d p)"
    and files: "\<And>e. dir_files fs2 e \<noteq> dir_files fs e \<Longrightarrow> \<exists>k. e = out_path bs fid @ [k]"
  shows "fleet_tidy fs2 bs"
  unfolding fleet_tidy_iff
proof (intro conjI allI impI)
  note p = out_path_fid[OF assms(2), of bs]
  show "outputs_ready fs2 bs" by fact
  have "fs_wf fs2" using assms(3) by (simp add: outputs_ready_def dir_ready_def)
  then show "dir_ready fs2 (bs @ [''input''])"
    using assms(1) dirs[of "bs @ [''input'']"] fs_reach_cong[OF assms(4)] by (simp add: fleet_tidy_def dir_ready_def)
  fix x assume x: "prefix (bs @ [''output'']) x"
  show "length x \<le> length bs + 3" if "fs_is_dir fs2 x"
    using that dirs[of x] assms(1) x by (auto simp: fleet_tidy_iff corpus_paths_def p dest: prefix_length_le)
  show "length x = length bs + 4" if b: "file_at fs2 x = Some b" for b
  proof (cases "dir_files fs2 (butlast x) = dir_files fs (butlast x)")
    case True
    have "x = butlast x @ [last x]" using x by (cases x rule: rev_cases) auto
    then have "file_at fs x = Some b" using True b by (metis dir_files_file_at)
    then show ?thesis using assms(1) x by (auto simp: fleet_tidy_iff)
  next
    case False
    then obtain k where "butlast x = out_path bs fid @ [k]" using files by blast
    then show ?thesis using x by (cases x rule: rev_cases) (auto simp: p)
  qed
qed

lemma report_eta:
  assumes "Queue (Output s) = Some q" and "Crashes (Output s) = Some c" and "Hangs (Output s) = Some h"
  shows "s = report (Id s) (State.Stats s) (Inputs q) (Inputs c) (Inputs h)"
  using assms by (cases s; cases "Output s") (simp add: report_def full_output_def)

lemma fleet_queues_stored:
  assumes "fleet_tidy fs bs" and "valid_name fid"
    and dirs: "\<And>d. fs_is_dir fs2 d \<longleftrightarrow> fs_is_dir fs d \<or> (\<exists>p\<in>set (corpus_paths (out_path bs fid)). prefix d p)"
    and files: "\<And>e. dir_files fs2 e =
       (if e = out_path bs fid @ [''queue''] then stored (dir_files fs e) q
        else if e = out_path bs fid @ [''crashes''] then stored (dir_files fs e) c
        else if e = out_path bs fid @ [''hangs''] then stored (dir_files fs e) h
        else dir_files fs e)"
  shows "fleet_queues fs2 bs = (fleet_queues fs bs)(fid \<mapsto> absorb (fleet_queues fs bs fid) \<lparr>Inputs = q\<rparr>)"
proof
  fix g
  note p = out_path_fid[OF assms(2), of bs]
  have none: "dir_files fs (queue_path bs fid) = Map.empty" if "\<not> fs_is_dir fs (queue_path bs fid)"
    using assms(1) that by (intro dir_files_no_dir) (simp_all add: fleet_tidy_def outputs_ready_def dir_ready_def)
  have "fs_is_dir fs2 (queue_path bs fid)" using dirs[of "queue_path bs fid"] by (auto simp: corpus_paths_def p queue_path_def)
  moreover have "fs_is_dir fs2 (queue_path bs g) \<longleftrightarrow> fs_is_dir fs (queue_path bs g)" if "g \<noteq> fid"
    using that dirs[of "queue_path bs g"] by (auto simp: corpus_paths_def p queue_path_def)
  moreover have "dir_files fs2 (queue_path bs g) =
      (if g = fid then stored (dir_files fs (queue_path bs fid)) q else dir_files fs (queue_path bs g))"
    using files[of "queue_path bs g"] by (simp add: p queue_path_def)
  ultimately show "fleet_queues fs2 bs g = ((fleet_queues fs bs)(fid \<mapsto> absorb (fleet_queues fs bs fid) \<lparr>Inputs = q\<rparr>)) g"
    using none by (auto simp: fleet_queues_def absorb_def)
qed

text \<open>What the handler does with a good report is what the abstract server does.\<close>

lemma archive_ready_stored:
  assumes "archive_ready fs bs ar" and "valid_name fid" and "fs_denied fs2 = fs_denied fs" and "fs_cwd fs2 = fs_cwd fs"
    and files: "\<And>e. dir_files fs2 e \<noteq> dir_files fs e \<Longrightarrow> \<exists>k. e = out_path bs fid @ [k]"
  shows "archive_ready fs2 bs ar"
proof (cases ar)
  case (Some dr)
  have ready: "fs_reach fs dr" "no_file_on fs (dr @ [realtimeCrashesPath])" "valid_names (fs_cwd fs)"
    "apart_from dr (bs @ [''output''])" "apart_from dr (bs @ [''input''])"
    using assms(1) by (simp_all add: Some archive_ready_def)
  have "\<not> fs_is_file fs2 q" if q: "prefix q (dr @ [realtimeCrashesPath])" for q
  proof
    assume "fs_is_file fs2 q"
    then obtain d n b where b: "q = d @ [n]" "dir_files fs2 d n = Some b"
      by (cases q rule: rev_cases) (auto simp: fs_is_file_iff dir_files_Some)
    have "\<not> fs_is_file fs q" using ready(2) q by (auto simp: no_file_on_def list_all_iff)
    then have "dir_files fs d n = None" using b(1) by (cases "dir_files fs d n") (auto simp: fs_is_file_iff dir_files_Some)
    then have "dir_files fs2 d \<noteq> dir_files fs d" using b(2) by auto
    then obtain k where "d = out_path bs fid @ [k]" using files by blast
    then have "prefix (bs @ [''output'']) q" using b(1) by (simp add: out_path_fid[OF assms(2)])
    then have "prefix (bs @ [''output'']) (dr @ [realtimeCrashesPath])" using q by (rule prefix_order.trans)
    then show False using ready(4) by (auto simp: apart_from_def realtimeCrashesPath_def)
  qed
  then show ?thesis
    using ready assms(4) fs_reach_cong[OF assms(3)] by (simp add: Some archive_ready_def no_file_on_def list_all_iff)
qed (simp add: archive_ready_def)

text \<open>
  A report with all its corpora: the files \<open>fs2\<close> after storing it, and the world \<open>w3\<close> in which the handler
  archives.
\<close>

lemma postState_parts:
  fixes sv :: "('s3, 'z) server_scheme"
  assumes "server_tidy bs ar sv" and "range_order ord" and "good_report st"
    and o: "Queue (Output st) = Some q" "Crashes (Output st) = Some c" "Hangs (Output st) = Some h"
  obtains w3 w4 sv' :: "('s3, 'z) server_scheme" where "postState ord now st sv = (Inr (), sv')" and "w_fs sv' = w_fs w4"
    and "archiveNewCrashes ord (fleet bs) (archiver_at ar) w3 = (Inr (), w4)"
    and "valid_name (Id st)" and "fleet_tidy (w_fs w3) bs" and "archive_ready (w_fs w3) bs ar"
    and "fs_denied (w_fs w3) = fs_denied (w_fs sv)" and "keeps_fleet bs ar (w_fs w3) (w_fs w4)"
    and "\<And>d. fs_is_dir (w_fs w3) d \<longleftrightarrow> fs_is_dir (w_fs sv) d \<or> (\<exists>p\<in>set (corpus_paths (out_path bs (Id st))). prefix d p)"
    and "\<And>e. dir_files (w_fs w3) e =
       (if e = out_path bs (Id st) @ [''queue''] then stored (dir_files (w_fs sv) e) (Inputs q)
        else if e = out_path bs (Id st) @ [''crashes''] then stored (dir_files (w_fs sv) e) (Inputs c)
        else if e = out_path bs (Id st) @ [''hangs''] then stored (dir_files (w_fs sv) e) (Inputs h)
        else dir_files (w_fs sv) e)"
proof -
  let ?fid = "Id st" and ?rep = "report (Id st) (State.Stats st) (Inputs q) (Inputs c) (Inputs h)"
  have good: "valid_name ?fid" "good_names (Inputs q)" "good_names (Inputs c)" "good_names (Inputs h)"
    using assms(3) o by (simp_all add: good_report_def)
  have tidy: "fleet_tidy (w_fs sv) bs" and sv: "fileManager sv = fleet bs" "archiver sv = archiver_at ar"
      "archive_ready (w_fs sv) bs ar"
    using assms(1) by (simp_all add: server_tidy_def)
  then have ready: "server_ready (w_fs sv) bs"
    by (simp add: fleet_tidy_def outputs_ready_def server_ready_def dir_ready_def)
  from register_output[OF ready good(1) good_post_ok[OF tidy good]] obtain fs1 fs2 where
    mk: "MkAllOutputDirs (mgr bs ?fid) (w_fs sv) = (Inr (), fs1)" and
    wr: "WriteOutput (mgr bs ?fid) (full_output (Inputs q) (Inputs c) (Inputs h)) fs1 = (Inr (), fs2)" and
    out: "outputs_ready fs2 bs" and den: "fs_denied fs2 = fs_denied (w_fs sv)" and
    dirs: "\<And>d. fs_is_dir fs2 d \<longleftrightarrow> fs_is_dir (w_fs sv) d \<or> (\<exists>p\<in>set (corpus_paths (out_path bs ?fid)). prefix d p)" and
    files: "\<And>e. dir_files fs2 e =
       (if e = out_path bs ?fid @ [''queue''] then stored (dir_files (w_fs sv) e) (Inputs q)
        else if e = out_path bs ?fid @ [''crashes''] then stored (dir_files (w_fs sv) e) (Inputs c)
        else if e = out_path bs ?fid @ [''hangs''] then stored (dir_files (w_fs sv) e) (Inputs h)
        else dir_files (w_fs sv) e)"
    by blast
  have cwd: "fs_cwd fs2 = fs_cwd (w_fs sv)"
    using withinD[OF grows_MkAllOutputDirs mk] withinD[OF grows_WriteOutput wr] by (simp add: fs_grows_def)
  have fs2: "fleet_tidy fs2 bs" by (rule tidy_stored[OF tidy good(1) out den dirs]) (use files in \<open>auto split: if_splits\<close>)
  let ?w3 = "sv\<lparr>w_events := w_events sv @ [metric_event sv Gauge ''fuzzer.queue_size''
     (f32_of_uint (of_nat (length (Inputs q)))) [(''fuzzer_id'', ?fid)]], w_fs := fs2\<rparr>"
  have a2: "archive_ready fs2 bs ar"
    by (rule archive_ready_stored[OF sv(3) good(1) den cwd]) (use files in \<open>auto split: if_splits\<close>)
  then have "outputs_ready (w_fs ?w3) bs" "archive_ready (w_fs ?w3) bs ar" using out by simp_all
  from archiveNewCrashes_keeps[OF this assms(2)] obtain w4 where
    arch: "archiveNewCrashes ord (fleet bs) (archiver_at ar) ?w3 = (Inr (), w4)" and keep: "keeps_fleet bs ar fs2 (w_fs w4)"
    by auto
  let ?sv' = "w4\<lparr>nodes := \<lparr>NodeStats = AList.update ?fid (State.Stats st) (NodeStats (nodes w4)),
     updates = AList.update ?fid now (updates (nodes w4))\<rparr>\<rparr>"
  have "postState ord now ?rep sv = (Inr (), ?sv')"
    using mk wr arch sv(1,2)
    by (simp add: postState_def report_def full_output_def corpus_len_def pure_def Submit_ok
        MkAllOutputDirs_fleet_def WriteOutput_fleet_def setStats_ok)
  from that[OF this[folded report_eta[OF o]] _ arch] show thesis
    using good(1) fs2 a2 den keep dirs files by simp
qed

lemma postState_incomplete:
  assumes "complete_queue st = None" shows "postState ord now st sv = (Inl nil_deref, sv)"
  using assms by (auto simp: complete_queue_def postState_def go_try_def pure_def corpus_len_def split: option.splits)

lemma complete_queueD:
  "complete_queue st = Some qs \<Longrightarrow> \<exists>q c h. Queue (Output st) = Some q \<and> Crashes (Output st) = Some c \<and> Hangs (Output st) = Some h \<and> qs = Inputs q"
  by (auto simp: complete_queue_def split: option.splits)

lemma postState_tidy:
  fixes sv :: "('s3, 'z) server_scheme"
  assumes "server_tidy bs ar sv" and "range_order ord" and "good_report st"
  shows "\<exists>r sv'. postState ord now st sv = (r, sv') \<and> (\<forall>m. r \<noteq> Inl (Fatal m)) \<and> server_tidy bs ar sv' \<and>
    (complete_queue st \<noteq> None \<longrightarrow> r = Inr ()) \<and> fleet_queues (w_fs sv') bs = take_report st (fleet_queues (w_fs sv) bs)"
proof (cases "complete_queue st")
  case None
  then show ?thesis using assms(1) by (simp add: postState_incomplete[OF None] nil_deref_def take_report_def)
next
  case (Some qs)
  then obtain q c h where o: "Queue (Output st) = Some q" "Crashes (Output st) = Some c" "Hangs (Output st) = Some h" "qs = Inputs q"
    using complete_queueD by blast
  obtain w3 w4 sv' :: "('s3, 'z) server_scheme" where
    post: "postState ord now st sv = (Inr (), sv')" "w_fs sv' = w_fs w4"
      "archiveNewCrashes ord (fleet bs) (archiver_at ar) w3 = (Inr (), w4)" and
    parts: "valid_name (Id st)" "fleet_tidy (w_fs w3) bs" "archive_ready (w_fs w3) bs ar"
      "fs_denied (w_fs w3) = fs_denied (w_fs sv)" "keeps_fleet bs ar (w_fs w3) (w_fs w4)" and
    dirs: "\<And>d. fs_is_dir (w_fs w3) d \<longleftrightarrow> fs_is_dir (w_fs sv) d \<or> (\<exists>p\<in>set (corpus_paths (out_path bs (Id st))). prefix d p)" and
    files: "\<And>e. dir_files (w_fs w3) e =
       (if e = out_path bs (Id st) @ [''queue''] then stored (dir_files (w_fs sv) e) (Inputs q)
        else if e = out_path bs (Id st) @ [''crashes''] then stored (dir_files (w_fs sv) e) (Inputs c)
        else if e = out_path bs (Id st) @ [''hangs''] then stored (dir_files (w_fs sv) e) (Inputs h)
        else dir_files (w_fs sv) e)"
    by (rule postState_parts[OF assms o(1-3), of now]) (rule that; assumption)
  have tidy: "fleet_tidy (w_fs sv) bs" using assms(1) by (simp add: server_tidy_def)
  have keep: "fleet_tidy (w_fs sv') bs" "fleet_queues (w_fs sv') bs = fleet_queues (w_fs w3) bs" "archive_ready (w_fs sv') bs ar"
    using fleet_tidy_keeps[OF parts(5,2)] parts(5) by (simp_all add: post(2) keeps_fleet_def)
  have "server_tidy bs ar sv'"
    using server_tidy_grows[OF assms(1) withinD[OF postState_grows post(1)] keep(1,3)] .
  moreover have "fleet_queues (w_fs sv') bs = take_report st (fleet_queues (w_fs sv) bs)"
    using fleet_queues_stored[OF tidy parts(1) dirs files] by (simp add: keep(2) take_report_def Some o(4))
  ultimately show ?thesis using post(1) by (intro exI[of _ "Inr ()"] exI[of _ sv']) simp
qed

text \<open>Every route but the report leaves the server as it is, and answers.\<close>

lemma getQueues_tidy:
  assumes "server_tidy bs ar sv" shows "getQueues sv = (Inr (JsonQueues (server_queues (w_fs sv) bs)), sv)"
proof -
  have "fleet_ready (w_fs sv) bs" "fileManager sv = fleet bs"
    using assms outputs_ready_fleet_ready by (simp_all add: server_tidy_def fleet_tidy_def)
  then show ?thesis by (simp add: getQueues_def ReadQueues_ok server_queues_def)
qed

lemma queues_sent:
  assumes "server_tidy bs ar sv"
  shows "dispatch go_server_codec ord now ''GET'' ''/queue'' [] sv =
    (Inr (ok_response (json_line (encode_queues (server_queues (w_fs sv) bs)))), sv)"
  using getQueues_tidy[OF assms] by (simp add: dispatch_client encode_body_def go_server_codec_def)

lemma getInputs_tidy:
  assumes "server_tidy bs ar sv"
  shows "getInputs sv = (Inr (JsonInputs (corpus_of (w_fs sv) (bs @ [''input'']))), sv)"
proof -
  have h: "dir_ready (w_fs sv) (bs @ [''input''])" "fileManager sv = fleet bs"
    using assms by (simp_all add: server_tidy_def fleet_tidy_def)
  then have v: "valid_names bs" by (simp add: dir_ready_def fs_reach_def)
  have "ReadInputs_fleet (fleet bs) (w_fs sv) = (Inr (corpus_of (w_fs sv) (bs @ [''input''])), w_fs sv)"
    using ReadInputCorpus_ok[OF h(1)] fleet_dirs(2)[OF v] by (simp add: ReadInputs_fleet_def TopLevelInputDir_def)
  then show ?thesis using h(2) by (simp add: getInputs_def)
qed

text \<open>The pages of the index, the outputs and the archive.\<close>

lemma admin_pages_tidy:
  assumes "server_tidy bs ar sv"
  shows "\<exists>html. adminIndex sv = (Inr (Html html), sv)" and "\<exists>html. adminOutput sv = (Inr (Html html), sv)"
    and "\<exists>html. adminArchive sv = (Inr (Html html), sv)"
proof -
  have page: "\<exists>html. execute p sv = (Inr (Html html), sv)" for p
  proof -
    obtain html where "templates sv p = Inr html" using assms unfolding server_tidy_def by blast
    then show ?thesis using execute_ok[of sv p] by blast
  qed
  show "\<exists>html. adminIndex sv = (Inr (Html html), sv)" using page by (simp add: adminIndex_def)
  have h: "fileManager sv = fleet bs" "outputs_ready (w_fs sv) bs" "archiver sv = archiver_at ar" "archive_ready (w_fs sv) bs ar"
    using assms by (simp_all add: server_tidy_def fleet_tidy_def)
  obtain outs where "ReadOutputs (fleet bs) (w_fs sv) = (Inr outs, w_fs sv)"
    using ReadOutputs_all_ready[of "w_fs sv" bs] h(2) by (auto simp: outputs_ready_def list_all_iff)
  then have "report_fatal (on_fs (ReadOutputs (fleet bs))) sv = (Inr outs, sv)" by simp
  then show "\<exists>html. adminOutput sv = (Inr (Html html), sv)" using page by (simp add: adminOutput_def h(1))
  have "\<exists>names. LsDstFiles (archiver_at ar) ''realtime-crashes'' sv = (Inr names, sv)"
  proof (cases ar)
    case None
    then show ?thesis by (simp add: archiver_at_def LsDstFiles_def)
  next
    case (Some dr)
    then have r: "fs_reach (w_fs sv) dr" "no_file_on (w_fs sv) (dr @ [''realtime-crashes''])"
      using h(4) by (simp_all add: archive_ready_def realtimeCrashesPath_def)
    have "fs_wf (w_fs sv)" using h(2) by (simp add: outputs_ready_def dir_ready_def)
    from LsDstFiles_disk_ok[OF this r] obtain names where
      "LsDstFiles_disk \<lparr>DstRoot = abs_of dr\<rparr> ''realtime-crashes'' (w_fs sv) = (Inr names, w_fs sv)"
      by (auto simp: realtimeCrashesPath_def)
    then show ?thesis by (simp add: Some archiver_at_def disk_at_def LsDstFiles_def)
  qed
  then obtain names where "report_fatal (LsDstFiles (archiver_at ar) ''realtime-crashes'') sv = (Inr names, sv)" by auto
  then show "\<exists>html. adminArchive sv = (Inr (Html html), sv)" using page by (simp add: adminArchive_def h(3))
qed

text \<open>A request that is neither a report nor asks for a single input changes nothing, and is answered.\<close>

lemma dispatch_quiet:
  assumes "server_tidy bs ar sv" and "\<not> asks_input method path" and "\<not> (method = ''POST'' \<and> path = ''/state'')"
  shows "\<exists>resp. dispatch go_server_codec ord now method path body sv = (Inr resp, sv)"
proof -
  obtain h1 h2 h3 where pages: "adminIndex sv = (Inr (Html h1), sv)" "adminOutput sv = (Inr (Html h2), sv)"
      "adminArchive sv = (Inr (Html h3), sv)"
    using admin_pages_tidy[OF assms(1)] by blast
  have i: "(method = ''GET'' \<or> method = ''HEAD'') \<Longrightarrow> input_request sv path = None"
    using assms(2) by (auto simp: asks_input_def input_request_other)
  note reads = getQueues_tidy[OF assms(1)] getInputs_tidy[OF assms(1)] getConfig_def[of sv] getTargetBinary_def[of sv] getDict_def[of sv]
  show ?thesis
  proof (cases "method = ''GET'' \<or> method = ''HEAD''")
    case True
    moreover have "method \<noteq> ''POST''" using True by auto
    ultimately show ?thesis using i[OF True] by (simp add: dispatch_def Let_def pages reads)
  next
    case False
    then show ?thesis using assms(3) by (cases "method = ''POST''") (simp_all add: dispatch_def Let_def)
  qed
qed

lemma dispatch_tidy:
  assumes "server_tidy bs ar sv" and "harmless (Request ord now method path body)"
  shows "\<exists>r sv'. dispatch go_server_codec ord now method path body sv = (r, sv') \<and> (\<forall>m. r \<noteq> Inl (Fatal m)) \<and> server_tidy bs ar sv' \<and>
    fleet_queues (w_fs sv') bs = server_spec (Request ord now method path body) (fleet_queues (w_fs sv) bs)"
proof (cases "method = ''POST'' \<and> path = ''/state''")
  case True
  then obtain r sv' where "postState ord now (decode_state body) sv = (r, sv')" "\<forall>m. r \<noteq> Inl (Fatal m)" "server_tidy bs ar sv'"
      "fleet_queues (w_fs sv') bs = take_report (decode_state body) (fleet_queues (w_fs sv) bs)"
    using postState_tidy[OF assms(1), of ord "decode_state body" now] assms(2) by (auto simp: harmless_def)
  then show ?thesis using True
    by (cases r) (auto simp: dispatch_client server_spec_def event_report_def go_server_codec_def)
next
  case False
  then have "event_report (Request ord now method path body) = None" by (simp add: event_report_def)
  moreover have "\<not> asks_input method path" using assms(2) by (simp add: harmless_def)
  ultimately show ?thesis
    using assms(1) dispatch_quiet[OF assms(1) _ False, of ord now body] by (auto simp: server_spec_def)
qed

lemma server_tidy_table: "server_tidy bs ar sv \<Longrightarrow> table_step sv sv' \<Longrightarrow> server_tidy bs ar sv'"
  by (simp add: server_tidy_def table_step_def settings_of_def)

lemma ticks_answer: "nodes_wf (nodes w) \<Longrightarrow> \<exists>w'. cleanUpOldNodes interval now w = (Inr (), w')"
  by (simp add: cleanUpOldNodes_ok)

lemma table_step_queues: "table_step sv sv' \<Longrightarrow> fleet_queues (w_fs sv') bs = fleet_queues (w_fs sv) bs"
  by (simp add: table_step_def)

lemma archive_tick_tidy:
  assumes "server_tidy bs ar sv" and "ArchiveTask a root interval \<in> set (s_tasks sv)"
  shows "\<exists>sv'. archive_ticks a root [ts] sv = (Inr (), sv') \<and> server_tidy bs ar sv' \<and>
    fleet_queues (w_fs sv') bs = fleet_queues (w_fs sv) bs"
proof -
  obtain dr where ar: "ar = Some dr" and a: "a = archiver_at ar" "root = abs_of bs"
    using assms by (fastforce simp: server_tidy_def list_all_iff)
  have tidy: "fleet_tidy (w_fs sv) bs" and "archive_ready (w_fs sv) bs (Some dr)"
    using assms(1) ar by (simp_all add: server_tidy_def)
  from archive_tick_keeps[OF this] obtain sv' where
    t: "archive_ticks a root [ts] sv = (Inr (), sv')" and keep: "keeps_fleet bs ar (w_fs sv) (w_fs sv')"
    unfolding a ar by blast
  note f = fleet_tidy_keeps[OF keep tidy]
  have "archive_ready (w_fs sv') bs ar" using keep by (simp add: keeps_fleet_def)
  then have "server_tidy bs ar sv'"
    using server_tidy_grows[OF assms(1) withinD[OF lift_world[OF grows_archive_ticks] t]] f by blast
  then show ?thesis using t f by blast
qed

lemma server_step_tidy:
  assumes "server_tidy bs ar sv" and "harmless e" and "server_step sv e out"
  shows "\<exists>sv'. out = Some sv' \<and> server_tidy bs ar sv' \<and> fleet_queues (w_fs sv') bs = server_spec e (fleet_queues (w_fs sv) bs)"
  using assms(3)
proof cases
  case (answered ord now m p body resp sv')
  then show ?thesis using dispatch_tidy[OF assms(1), of ord now m p body] assms(2) by auto
next
  case (dropped ord now m p body e sv')
  then show ?thesis using dispatch_tidy[OF assms(1), of ord now m p body] assms(2) by auto
next
  case (ended ord now m p body msg sv')
  then show ?thesis using dispatch_tidy[OF assms(1), of ord now m p body] assms(2) by auto
next
  case (reaped interval now sv')
  then have "table_step sv sv'" using withinD[OF cleanUp_table] by blast
  then show ?thesis using reaped server_tidy_table[OF assms(1)] table_step_queues[of sv sv' bs] by (simp add: server_spec_def)
next
  case (reaper_ended interval now e sv')
  then show ?thesis using ticks_answer[of sv interval now] assms(1) by (auto simp: server_tidy_def)
next
  case (polled interval now sv')
  then have "table_step sv sv'" using withinD[OF logMetrics_table] by blast
  then show ?thesis using polled server_tidy_table[OF assms(1)] table_step_queues[of sv sv' bs] by (simp add: server_spec_def)
next
  case (poller_ended interval now e sv')
  then show ?thesis by (simp add: logMetrics_ok)
next
  case (no_ticker a root interval now)
  then show ?thesis using assms(1) by (fastforce simp: server_tidy_def list_all_iff)
next
  case (archived a root interval now sv')
  then show ?thesis using archive_tick_tidy[OF assms(1), of a root interval now] by (auto simp: server_spec_def)
next
  case (archive_ended a root interval now e sv')
  then show ?thesis using archive_tick_tidy[OF assms(1), of a root interval now] by auto
qed

text \<open>A run does to the queues what the abstract server does.\<close>

lemma server_run_tidy:
  assumes "server_run sv es out" and "\<forall>e\<in>set es. harmless e" and "server_tidy bs ar sv"
  shows "\<exists>sv'. out = Some sv' \<and> server_tidy bs ar sv' \<and>
    fleet_queues (w_fs sv') bs = fold server_spec es (fleet_queues (w_fs sv) bs)"
  using assms
proof (induction rule: server_run.induct)
  case (step sv es sv1 e out)
  then show ?case using server_step_tidy[of bs ar sv1 e out] by auto
qed simp

text \<open>The queues a tidy server sends are its abstract state.\<close>

definition queues_show :: "(string \<times> InputCorpus) list \<Rightarrow> fleet_map \<Rightarrow> bool" where
  "queues_show qs m \<longleftrightarrow> distinct (map fst qs) \<and> (\<forall>fid. case m fid of
     None \<Rightarrow> map_of qs fid = None
   | Some f \<Rightarrow> \<exists>c. map_of qs fid = Some c \<and> sorted (map Name (Inputs c)) \<and> distinct (map Name (Inputs c)) \<and>
       (\<forall>i. i \<in> set (Inputs c) \<longleftrightarrow> Name i \<noteq> readmeFilename \<and> f (Name i) = Some (Body i)))"

lemma queues_showD:
  assumes "queues_show qs m" and "m fid = Some f"
  shows "\<exists>c. map_of qs fid = Some c \<and> distinct (map Name (Inputs c)) \<and>
    (\<forall>i. i \<in> set (Inputs c) \<longleftrightarrow> Name i \<noteq> readmeFilename \<and> f (Name i) = Some (Body i))"
  using assms unfolding queues_show_def by (auto dest!: spec[of _ fid])

lemma server_queues_show: "server_tidy bs ar sv \<Longrightarrow> queues_show (server_queues (w_fs sv) bs) (fleet_queues (w_fs sv) bs)"
proof -
  assume "server_tidy bs ar sv"
  then have out: "outputs_ready (w_fs sv) bs" by (simp add: server_tidy_def fleet_tidy_def)
  note ids = fleet_ready_ids[OF outputs_ready_fleet_ready[OF out]]
  show ?thesis
    using server_queues_names(1)[OF out] corpus_of_names_sd
    by (auto simp: queues_show_def fleet_queues_def ids[symmetric] server_queues_def map_of_graph corpus_of_set)
qed

text \<open>The names of the files are UTF-8 exactly when those of the abstract state are.\<close>

lemma fleet_utf8_map: "server_tidy bs ar sv \<Longrightarrow> fleet_utf8 (w_fs sv) bs \<longleftrightarrow> map_utf8 (fleet_queues (w_fs sv) bs)"
proof -
  assume "server_tidy bs ar sv"
  then have "outputs_ready (w_fs sv) bs" by (simp add: server_tidy_def fleet_tidy_def)
  note ids = fleet_ready_ids[OF outputs_ready_fleet_ready[OF this]]
  show ?thesis by (auto simp: fleet_utf8_def map_utf8_def list_all_iff ids fleet_queues_def queue_utf8_iff)
qed

text \<open>What the abstract server has fits below a client's directory: no file or directory is in the way.\<close>

definition queues_fit :: "fs \<Rightarrow> path \<Rightarrow> fleet_map \<Rightarrow> bool" where
  "queues_fit fs cs m \<longleftrightarrow> fs_wf fs \<and> (\<forall>fid f. m fid = Some f \<longrightarrow> fs_reach fs (queue_path cs fid) \<and>
     no_file_on fs (queue_path cs fid) \<and> (\<forall>n b. f n = Some b \<longrightarrow> \<not> fs_is_dir fs (queue_path cs fid @ [n])))"

lemma queues_fit_ok:
  assumes "server_tidy bs ar sv" and "queues_fit fs cs (fleet_queues (w_fs sv) bs)"
  shows "queues_ok fs cs (server_queues (w_fs sv) bs)"
proof -
  have out: "outputs_ready (w_fs sv) bs" using assms(1) by (simp add: server_tidy_def fleet_tidy_def)
  note ids = fleet_ready_ids[OF outputs_ready_fleet_ready[OF out]]
  have "valid_name fid \<and> fill_ok fs (queue_path cs fid, Inputs c)" if q: "(fid, c) \<in> set (server_queues (w_fs sv) bs)" for fid c
  proof -
    have f: "fleet_queues (w_fs sv) bs fid = Some (dir_files (w_fs sv) (queue_path bs fid))"
      using q by (auto simp: server_queues_def ids fleet_queues_def)
    have c: "c = corpus_of (w_fs sv) (queue_path bs fid)" using q by (auto simp: server_queues_def)
    show ?thesis
      using assms(2) f q server_queues_names(2)[OF out] by (auto simp: queues_fit_def fill_ok_def list_all_iff c corpus_of_set)
  qed
  then show ?thesis using server_queues_names(1)[OF out] by (auto simp: queues_ok_def list_all_iff)
qed

text \<open>An upload succeeds and does what the abstract server does.\<close>

lemma upload_tidy:
  fixes w :: "('t3, ('s3, 'z) server_scheme option, 'y) fuzz_world_scheme"
  assumes fuzzer: "FileManager f = mgr as fid" "FuzzerId f = fid" "valid_names as" "valid_name fid"
      "out_ready (w_fs w) (out_path as fid)" "ReadFuzzerStats (mgr as fid) (w_fs w) = (Inr st, w_fs w)"
      "proc w \<in> {Running, Paused}"
    and server: "connected go_server_codec ord (hostport srv) now sv w" "range_order ord" "server_tidy bs ar sv"
    and json: "marshal_state (disk_report (w_fs w) as fid st) = Inr json" "state_utf8 (disk_report (w_fs w) as fid st)"
  shows "\<exists>w' sv'. uploadState marshal_state srv elapsed f w = (Inr (), w') \<and> proc w' = Running \<and> net w' = Some sv' \<and>
    server_tidy bs ar sv' \<and> fleet_queues (w_fs sv') bs = take_report (disk_report (w_fs w) as fid st) (fleet_queues (w_fs sv) bs)"
proof -
  let ?rep = "disk_report (w_fs w) as fid st"
  have "fs_wf (w_fs w)" using fuzzer(5) by (simp add: out_ready_def corpus_paths_def dir_ready_def)
  note names = corpus_of_valid[OF this]
  have rep: "complete_queue ?rep \<noteq> None" "good_report ?rep"
    using fuzzer(4) names
    by (auto simp: disk_report_def report_def full_output_def complete_queue_def good_report_def good_names_def list_all_iff)
  obtain sv' where sv': "postState ord now ?rep sv = (Inr (), sv')" "server_tidy bs ar sv'"
    "fleet_queues (w_fs sv') bs = take_report ?rep (fleet_queues (w_fs sv) bs)"
    using postState_tidy[OF server(3,2) rep(2), of now] rep(1) by auto
  have "DecodeState go_server_codec json = ?rep"
    using marshalled_state[OF json(1)] json(2) by (simp add: go_server_codec_def fix_State_utf8)
  from upload_connected[where marshal = marshal_state, OF fuzzer server(1) json(1) this sv'(1), of elapsed]
  show ?thesis using sv'(2,3) by (auto simp: connected_def)
qed

lemma fresh_queues_fit:
  assumes "fresh_dir fs (cs @ [''output''])" and "server_tidy bs ar sv"
  shows "queues_fit fs cs (fleet_queues (w_fs sv) bs)"
proof -
  have out: "outputs_ready (w_fs sv) bs" using assms(2) by (simp add: server_tidy_def fleet_tidy_def)
  then have wf: "fs_wf (w_fs sv)" by (simp add: outputs_ready_def dir_ready_def)
  note ids = fleet_ready_ids[OF outputs_ready_fleet_ready[OF out]]
  have ok: "queues_ok fs cs [(fid, c)]" if "fleet_queues (w_fs sv) bs fid = Some f" "\<forall>i\<in>set (Inputs c). valid_name (Name i)" for fid f c
    using that fleet_ids_valid[OF wf, of fid bs] assms(1)
    by (intro fresh_queues_ok) (auto simp: fleet_queues_def ids split: if_splits)
  have "fs_reach fs (queue_path cs fid) \<and> no_file_on fs (queue_path cs fid)" if "fleet_queues (w_fs sv) bs fid = Some f" for fid f
    using ok[OF that, of "\<lparr>Inputs = []\<rparr>"] by (simp add: queues_ok_def fill_ok_def)
  moreover have "fs_lookup fs (queue_path cs fid @ [n]) = None" for fid n
    using fresh_dir_below[OF assms(1), of "[fid, ''queue'', n]"] by (simp add: queue_path_def)
  ultimately show ?thesis using assms(1) by (simp add: queues_fit_def fresh_dir_def)
qed

text \<open>A download brings every input the abstract server has, over what the client has under its name.\<close>

lemma download_tidy:
  assumes conn: "connected go_server_codec ord (hostport srv) now sv w"
    and sv: "server_tidy bs ar sv" "map_utf8 (fleet_queues (w_fs sv) bs)"
    and client: "valid_names cs" "queue_order qord" "queues_fit (w_fs w) cs (fleet_queues (w_fs sv) bs)"
  shows "\<exists>w'. downloadQueues (go_codec qord) srv (fleet cs) w = (Inr (), w') \<and>
    (\<forall>fid f n b. fleet_queues (w_fs sv) bs fid = Some f \<and> f n = Some b \<and> n \<noteq> readmeFilename \<longrightarrow>
       dir_files (w_fs w') (queue_path cs fid) n = Some (overlay b (old_body (dir_files (w_fs w) (queue_path cs fid) n))))"
proof -
  let ?qs = "server_queues (w_fs sv) bs"
  have out: "outputs_ready (w_fs sv) bs" "fileManager sv = fleet bs" using sv(1) by (simp_all add: server_tidy_def fleet_tidy_def)
  have wf: "fs_wf (w_fs w)" using client(3) by (simp add: queues_fit_def)
  obtain qs where qs: "DecodeQueues (go_codec qord)
      \<lparr>Content = EncodeJson go_server_codec (JsonQueues ?qs), ReadErr = None\<rparr> [] = some_queues qs" "mset qs = mset ?qs"
    using queues_through_json[of "w_fs sv" bs qord] fleet_utf8_map[OF sv(1)] sv(2) client(2) by blast
  obtain w' where w': "downloadQueues (go_codec qord) srv (fleet cs) w = (Inr (), w')"
    "\<forall>g. fleet_queues (w_fs w') cs g = (case map_of ?qs g of
        None \<Rightarrow> fleet_queues (w_fs w) cs g
      | Some q \<Rightarrow> Some (absorb (fleet_queues (w_fs w) cs g) q))"
    using download_connected[OF conn out(2,1) qs client(1) wf queues_fit_ok[OF sv(1) client(3)]] by blast
  have "dir_files (w_fs w') (queue_path cs fid) n = Some (overlay b (old_body (dir_files (w_fs w) (queue_path cs fid) n)))"
    if f: "fleet_queues (w_fs sv) bs fid = Some f" "f n = Some b" "n \<noteq> readmeFilename" for fid f n b
  proof -
    obtain c where c: "map_of ?qs fid = Some c" "distinct (map Name (Inputs c))"
        "\<forall>i. i \<in> set (Inputs c) \<longleftrightarrow> Name i \<noteq> readmeFilename \<and> f (Name i) = Some (Body i)"
      using queues_showD[OF server_queues_show[OF sv(1)] f(1)] by blast
    have "dir_files (w_fs w) (queue_path cs fid) = (case fleet_queues (w_fs w) cs fid of None \<Rightarrow> Map.empty | Some d \<Rightarrow> d)"
      using dir_files_no_dir[OF wf] by (simp add: fleet_queues_def)
    then have "dir_files (w_fs w') (queue_path cs fid) = stored (dir_files (w_fs w) (queue_path cs fid)) (Inputs c)"
      using w'(2)[rule_format, of fid] c(1) by (simp add: fleet_queues_def absorb_def split: if_splits)
    moreover have "\<lparr>Name = n, Body = b\<rparr> \<in> set (Inputs c)" using c(3) f(2,3) by simp
    ultimately show ?thesis using stored_distinct[OF c(2)] by fastforce
  qed
  then show ?thesis using w'(1) by blast
qed

text \<open>A body that is no JSON text decodes to the zero state, whose corpora are missing.\<close>

lemma no_json_good_report: "parse_json (string_of_bytes body) = None \<Longrightarrow> good_report (decode_state body)"
  by (simp add: decode_state_def decode_body_def good_report_def zero_State_def)

subsection \<open>Properties\<close>

text \<open>
  C17: Whatever requests and ticks a server has gone through, in whatever order, its table has the same clients in both
  maps and one entry for each, its files form a tree, no file and no directory that was there is gone, and the
  settings, the archiver and the list of goroutines are those of the start.
\<close>

theorem server_run_keeps:
  assumes "server_run sv es (Some sv')" and "nodes_wf (nodes sv)" and "fs_wf (w_fs sv)" and "valid_names (fs_cwd (w_fs sv))"
  shows "nodes_wf (nodes sv') \<and> fs_wf (w_fs sv') \<and> settings_of sv' = settings_of sv \<and>
    (\<forall>p. fs_is_dir (w_fs sv) p \<longrightarrow> fs_is_dir (w_fs sv') p) \<and> (\<forall>p. fs_is_file (w_fs sv) p \<longrightarrow> fs_is_file (w_fs sv') p)"
proof -
  have "server_grows sv sv'"
    by (rule server_run_within[OF assms(1) refl]) (simp_all add: server_step_grows)
  then show ?thesis using assms(2-4) by (simp add: server_grows_def fs_grows_def)
qed

text \<open>
  A server whose output directory exists, without an archive or with one on disk beside that directory, stays up: no run
  of requests and ticks ends it, as long as every report that is complete has file names for the fuzzer and its inputs
  (a body that is no JSON, or one without a corpus, only loses its request) and nobody asks for the page of a single
  input. At any time the queues it sends are the
  files of the queues it stores.
\<close>

theorem server_stays_up:
  assumes "server_run sv es out" and "\<forall>e\<in>set es. harmless e" and "server_tidy bs ar sv"
  shows "\<exists>sv'. out = Some sv' \<and> server_tidy bs ar sv' \<and>
    dispatch go_server_codec ord now ''GET'' ''/queue'' [] sv' =
      (Inr (ok_response (json_line (encode_queues (server_queues (w_fs sv') bs)))), sv')"
proof -
  obtain sv' where sv': "out = Some sv'" "server_tidy bs ar sv'"
    using server_run_tidy[OF assms] by blast
  moreover note queues_sent[OF sv'(2)]
  ultimately show ?thesis by blast
qed

text \<open>
  C40: A request for the page of a single input that is not there ends the server, whoever sends it and whatever else the server
  has; of an input that is there it gets the page, and the server stays as it is.
\<close>

theorem input_page_can_end_server:
  assumes "\<And>p. templates sv p = Inr (render p)" and "asks_input method path" and "input_route sv path = Some (fid, kind, n)"
    and "server_step sv (Request ord now method path body) out"
  shows "out = (case fst (ReadInput_fleet (fileManager sv) fid kind n (w_fs sv)) of Inl _ \<Rightarrow> None | Inr _ \<Rightarrow> Some sv)"
proof -
  have r: "input_request sv path = Some (fid, kind, n)" using assms(2,3) by (simp add: asks_input_def input_request_def)
  have g: "method = ''GET'' \<or> method = ''HEAD''" and p: "prefix ''/admin/fuzzer/'' path" using assms(2) by (simp_all add: asks_input_def)
  have "path \<noteq> ''/''" "path \<noteq> ''/admin''" "path \<noteq> ''/admin/archive''" using p by auto
  then have d: "dispatch go_server_codec ord now method path body sv = go_try (adminInput fid kind n)
      (\<lambda>r. go_ret (ok_response (if method = ''HEAD'' then [] else encode_body go_server_codec r))) sv"
    using g r by (simp add: dispatch_def Let_def)
  note page = adminInput_result[where fid = fid and t = kind and n = n, OF assms(1)]
  show ?thesis
  proof (cases "fst (ReadInput_fleet (fileManager sv) fid kind n (w_fs sv))")
    case (Inl f)
    then have "\<exists>w'. adminInput fid kind n sv = (Inl (Fatal ''log.Fatal''), w')"
      using page by (auto split: prod.splits sum.splits)
    then show ?thesis using assms(4) d Inl by (auto elim!: server_step_cases)
  next
    case (Inr i)
    then have "adminInput fid kind n sv = (Inr (Html (render (InputPage i))), sv)"
      using page by (auto split: prod.splits sum.splits)
    then show ?thesis using assms(4) d Inr by (auto elim!: server_step_cases)
  qed
qed

text \<open>
  C6: No input a client has reported is lost: once a server has taken in a complete report, every later answer to a
  request for the queues has an input of that name in the queue of that fuzzer, whatever harmless requests, handled one at a
  time, and ticks come between, and even after the reaper has removed the fuzzer from the table. Harmless
  are all requests but reports with names that are not those of files, and requests for the page of a single input.
\<close>

theorem reported_inputs_served:
  assumes "server_run sv (before @ Request o1 t1 ''POST'' ''/state'' body # after) out"
    and "\<forall>e\<in>set before. harmless e" and "harmless (Request o1 t1 ''POST'' ''/state'' body)" and "\<forall>e\<in>set after. harmless e"
    and "server_tidy bs ar sv" and "complete_queue (decode_state body) = Some q" and "i \<in> set q" and "Name i \<noteq> readmeFilename"
  shows "\<exists>sv' queues c j. out = Some sv' \<and>
    dispatch go_server_codec ord now ''GET'' ''/queue'' [] sv' = (Inr (ok_response (json_line (encode_queues queues))), sv') \<and>
    map_of queues (Id (decode_state body)) = Some c \<and> j \<in> set (Inputs c) \<and> Name j = Name i"
proof -
  let ?e = "Request o1 t1 ''POST'' ''/state'' body" and ?fid = "Id (decode_state body)"
  let ?m = "fold server_spec before (fleet_queues (w_fs sv) bs)"
  have h: "\<forall>e\<in>set (before @ ?e # after). harmless e" using assms(2-4) by auto
  obtain sv' where sv': "out = Some sv'" "server_tidy bs ar sv'"
    "fleet_queues (w_fs sv') bs = fold server_spec after (server_spec ?e ?m)"
    using server_run_tidy[OF assms(1) h assms(5)] by auto
  have "has_input ?fid (Name i) (server_spec ?e ?m)"
    using assms(6) stored_member[OF assms(7)]
    by (auto simp: has_input_def server_spec_def event_report_def take_report_def absorb_def)
  from has_input_run[OF this, of after] obtain f b where f: "fleet_queues (w_fs sv') bs ?fid = Some f" "f (Name i) = Some b"
    unfolding sv'(3)[symmetric] has_input_def by blast
  let ?qs = "server_queues (w_fs sv') bs"
  obtain c where c: "map_of ?qs ?fid = Some c" "distinct (map Name (Inputs c))"
      "\<And>i. i \<in> set (Inputs c) \<longleftrightarrow> Name i \<noteq> readmeFilename \<and> f (Name i) = Some (Body i)"
    using queues_showD[OF server_queues_show[OF sv'(2)] f(1)] by blast
  have "\<lparr>Name = Name i, Body = b\<rparr> \<in> set (Inputs c)" using c(3) f(2) assms(8) by simp
  then show ?thesis using sv'(1) c(1) queues_sent[OF sv'(2), of ord now]
    by (intro exI[of _ sv'] exI[of _ ?qs] exI[of _ c] exI[of _ "\<lparr>Name = Name i, Body = b\<rparr>"]) simp
qed


text \<open>A server that has just been set up below \<open>/d\<close>, with its reaper and an archive in \<open>/a\<close>, and gets one report.\<close>

definition tidy_server :: "unit server" where
  "tidy_server = (sample_server (disk_at [''a'']))\<lparr>
     w_fs := \<lparr>fs_cwd = [], fs_tree = [([''d''], Dir), ([''d'', ''input''], Dir), ([''d'', ''output''], Dir)], fs_denied = []\<rparr>,
     nodes := newNodes, s_tasks := [ReaperTask reaper_interval, ArchiveTask (disk_at [''a'']) ''/d'' 60]\<rparr>"

lemma tidy_server_tidy: "server_tidy [''d''] (Some [''a'']) tidy_server"
proof -
  have "fleet_tidy (w_fs tidy_server) [''d'']" "archive_ready (w_fs tidy_server) [''d''] (Some [''a''])"
    by (simp add: tidy_server_def, code_simp)+
  moreover have "abs_of [''d''] = ''/d''" by code_simp
  ultimately show ?thesis
    by (simp add: server_tidy_def tidy_server_def sample_server_def nodes_wf_new archiver_at_def)
qed

definition sample_report :: State where
  "sample_report = sample_state\<lparr>Output := (Output sample_state)\<lparr>
     Crashes := Some \<lparr>Inputs = [\<lparr>Name = ''id:1'', Body = [0, 255]\<rparr>]\<rparr>, Hangs := Some \<lparr>Inputs = []\<rparr>\<rparr>\<rparr>"

lemma sample_report_json: "\<exists>b. marshal_state sample_report = Inr b \<and> decode_state b = sample_report"
proof -
  have "json_float 0x4029000000000000 = Some ''12.5''" "json_float 0 = Some ''0''" by code_simp+
  then obtain b where b: "marshal_state sample_report = Inr b"
    by (simp add: marshal_state_def encode_state_def encode_stats_def sample_report_def sample_state_def zero_State_def
        zero_stats_def)
  moreover have "state_utf8 sample_report" by code_simp
  ultimately show ?thesis using marshalled_state[OF b] by (simp add: fix_State_utf8)
qed

text \<open>One report, one tick of the reaper and one of the archive.\<close>

definition sample_events :: "bytes \<Rightarrow> server_event list" where
  "sample_events b = [Request (\<lambda>m. m) 7 ''POST'' ''/state'' b, ReaperTick 8, ArchiveTick 9]"

lemma sample_run:
  obtains b sv' where "marshal_state sample_report = Inr b" and "decode_state b = sample_report"
    and "\<forall>e\<in>set (sample_events b). harmless e" and "server_run tidy_server (sample_events b) (Some sv')"
proof -
  obtain b where b: "marshal_state sample_report = Inr b" "decode_state b = sample_report"
    using sample_report_json by blast
  let ?e = "Request (\<lambda>m. m) 7 ''POST'' ''/state'' b"
  have "good_report sample_report" by code_simp
  then have h: "harmless ?e" using b(2) by (simp add: harmless_def range_order_def)
  obtain r sv1 where r: "dispatch go_server_codec (\<lambda>m. m) 7 ''POST'' ''/state'' b tidy_server = (r, sv1)"
    "\<forall>m. r \<noteq> Inl (Fatal m)" "server_tidy [''d''] (Some [''a'']) sv1"
    using dispatch_tidy[OF tidy_server_tidy h] by blast
  have s1: "server_step tidy_server ?e (Some sv1)"
    using r(1,2) by (cases r) (auto intro: server_step.intros)
  have t1: "s_tasks sv1 = s_tasks tidy_server"
    using server_step_grows[OF s1] by (simp add: server_grows_def settings_of_def)
  obtain sv2 where c: "cleanUpOldNodes reaper_interval 8 sv1 = (Inr (), sv2)"
    using ticks_answer[of sv1 reaper_interval 8] r(3) by (auto simp: server_tidy_def)
  then have s2: "server_step sv1 (ReaperTick 8) (Some sv2)"
    using t1 by (intro server_step.reaped[of reaper_interval]) (simp_all add: tidy_server_def)
  have w2: "table_step sv1 sv2" using cleanUp_table c by (rule withinD)
  then have t2: "ArchiveTask (disk_at [''a'']) ''/d'' 60 \<in> set (s_tasks sv2)"
    using t1 by (simp add: table_step_def settings_of_def tidy_server_def)
  obtain sv3 where a3: "archive_ticks (disk_at [''a'']) ''/d'' [9] sv2 = (Inr (), sv3)"
    using archive_tick_tidy[OF server_tidy_table[OF r(3) w2] t2] by blast
  have s3: "server_step sv2 (ArchiveTick 9) (Some sv3)" by (rule server_step.archived[OF t2 _ a3]) simp
  have "server_run tidy_server ((([] @ [?e]) @ [ReaperTick 8]) @ [ArchiveTick 9]) (Some sv3)"
    by (rule server_run.step[OF server_run.step[OF server_run.step[OF server_run.start s1] s2] s3])
  then show thesis using that[OF b, of sv3] h by (auto simp: sample_events_def harmless_def)
qed

text \<open>A browser that asks for an input of a fuzzer the server does not have.\<close>

lemma input_page_can_end_server_witness:
  "server_step tidy_server (Request (\<lambda>m. m) 7 ''GET'' ''/admin/fuzzer/f/input/queue/x'' []) None"
proof -
  let ?e = "Request (\<lambda>m. m) 7 ''GET'' ''/admin/fuzzer/f/input/queue/x'' []"
  have r: "\<And>p. templates tidy_server p = Inr ((\<lambda>_. []) p)" by (simp add: tidy_server_def sample_server_def)
  have a: "asks_input ''GET'' ''/admin/fuzzer/f/input/queue/x''" by code_simp
  let ?parts = "[[], ''admin'', ''fuzzer'', ''f'', ''input'', ''queue'', ''x'']"
  have path: "''/admin/fuzzer/f/input/queue/x'' = join_with slash ?parts" by simp
  have "split_on slash (join_with slash ?parts) = concat (map (split_on slash) ?parts)" by (rule split_on_join) simp
  also have "\<dots> = ?parts" by simp
  finally have "split_on slash ''/admin/fuzzer/f/input/queue/x'' = ?parts" unfolding path .
  then have "sample_route ''/admin/fuzzer/f/input/queue/x'' = Some (''f'', ''queue'', ''x'')"
    unfolding sample_route_def by (simp del: split_on.simps)
  moreover have "input_route tidy_server = sample_route" by (simp add: tidy_server_def sample_server_def)
  ultimately have i: "input_route tidy_server ''/admin/fuzzer/f/input/queue/x'' = Some (''f'', ''queue'', ''x'')" by metis
  let ?fs = "\<lparr>fs_cwd = [], fs_tree = [([''d''], Dir), ([''d'', ''input''], Dir), ([''d'', ''output''], Dir)], fs_denied = []\<rparr>"
  have "is_ok (fst (ReadInput_fleet (fleet [''d'']) ''f'' ''queue'' ''x'' ?fs)) = False" by code_simp
  then obtain e where "fst (ReadInput_fleet (fleet [''d'']) ''f'' ''queue'' ''x'' ?fs) = Inl e"
    by (cases "fst (ReadInput_fleet (fleet [''d'']) ''f'' ''queue'' ''x'' ?fs)") simp_all
  then have m: "fst (ReadInput_fleet (fileManager tidy_server) ''f'' ''queue'' ''x'' (w_fs tidy_server)) = Inl e"
    by (simp add: tidy_server_def sample_server_def)
  obtain out where out: "server_step tidy_server ?e out" using request_step by blast
  from input_page_can_end_server[where render = "\<lambda>_. []", OF r a i out] out m show ?thesis by simp
qed

lemma server_run_keeps_witness:
  "\<exists>b sv'. marshal_state sample_report = Inr b \<and>
    server_run tidy_server (sample_events b) (Some sv') \<and>
    nodes_wf (nodes sv') \<and> fs_is_dir (w_fs sv') [''d'', ''input'']"
proof -
  obtain b sv' where r: "marshal_state sample_report = Inr b" "server_run tidy_server (sample_events b) (Some sv')"
    by (rule sample_run)
  have h: "nodes_wf (nodes tidy_server)" "fs_wf (w_fs tidy_server)" "valid_names (fs_cwd (w_fs tidy_server))"
    "fs_is_dir (w_fs tidy_server) [''d'', ''input'']"
    by (simp_all add: tidy_server_def nodes_wf_new) code_simp+
  show ?thesis using server_run_keeps[OF r(2) h(1-3)] h(4) r by blast
qed

lemma server_stays_up_witness:
  "\<exists>b sv'. marshal_state sample_report = Inr b \<and>
    server_run tidy_server (sample_events b) (Some sv') \<and>
    server_tidy [''d''] (Some [''a'']) sv'"
proof -
  obtain b sv' where r: "marshal_state sample_report = Inr b" "decode_state b = sample_report"
    "\<forall>e\<in>set (sample_events b). harmless e" "server_run tidy_server (sample_events b) (Some sv')"
    by (rule sample_run)
  show ?thesis using server_stays_up[OF r(4,3) tidy_server_tidy] r by blast
qed

lemma distinct_singleton_set: "set xs = {x} \<Longrightarrow> distinct xs \<Longrightarrow> xs = [x]"
  by (cases xs; cases "tl xs") auto


lemma reported_inputs_served_witness:
  "\<exists>b sv' queues c j. marshal_state sample_report = Inr b \<and>
    server_run tidy_server (sample_events b) (Some sv') \<and>
    dispatch go_server_codec (\<lambda>m. m) 9 ''GET'' ''/queue'' [] sv' =
      (Inr (ok_response (json_line (encode_queues queues))), sv') \<and>
    map_of queues ''h-1'' = Some c \<and> j \<in> set (Inputs c) \<and> Name j = ''id:0''"
proof -
  obtain b sv' where r: "marshal_state sample_report = Inr b" "decode_state b = sample_report"
    "\<forall>e\<in>set (sample_events b). harmless e" "server_run tidy_server (sample_events b) (Some sv')"
    by (rule sample_run)
  let ?i = "\<lparr>Name = ''id:0'', Body = [1, 60, 255]\<rparr>"
  have run: "server_run tidy_server ([] @ Request (\<lambda>m. m) 7 ''POST'' ''/state'' b # [ReaperTick 8, ArchiveTick 9]) (Some sv')"
    using r(4) by (simp add: sample_events_def)
  have h: "\<forall>e\<in>set []. harmless e" "harmless (Request (\<lambda>m. m) 7 ''POST'' ''/state'' b)" "\<forall>e\<in>set [ReaperTick 8, ArchiveTick 9]. harmless e"
    using r(3) by (auto simp: sample_events_def)
  have q: "complete_queue (decode_state b) = Some [?i]" "Id (decode_state b) = ''h-1''"
    unfolding r(2) by code_simp+
  show ?thesis
    using reported_inputs_served[OF run h tidy_server_tidy q(1), of ?i "\<lambda>m. m" 9] q(2) r by (auto simp: readmeFilename_def)
qed

end
