(* ===== verification/ServerRaces.thy ===== *)
theory ServerRaces
  imports ServerSpec
begin

text \<open>
  Two handlers at once (\<open>server/server.go\<close>): package \<open>net/http\<close> runs every request in a goroutine of its own, and
  nothing orders the handlers' calls on the files. A handler that registers a new fuzzer makes its directories one after
  the other (\<open>MkAllOutputDirs\<close> of \<open>types/files.go\<close>); what another handler meets in between.
\<close>

text \<open>The new fuzzer's first call has made the directory of its queue.\<close>

definition half_registered :: "path \<Rightarrow> string \<Rightarrow> fs \<Rightarrow> fs" where
  "half_registered bs fid fs = mkdirs (queue_path bs fid) fs"

lemma MkQueueDir_half:
  assumes "fleet_tidy fs bs" and "valid_name fid"
  shows "MkQueueDir (mgr bs fid) fs = (Inr (), half_registered bs fid fs)"
    and "no_file_on fs (queue_path bs fid)"
proof -
  have "post_ok fs (out_path bs fid) [] [] []" using good_post_ok[OF assms] by (simp add: good_names_def)
  then show nf: "no_file_on fs (queue_path bs fid)"
    using out_path_fid[OF assms(2), of bs] by (simp add: post_ok_def out_free_def corpus_paths_def queue_path_def)
  have r: "fs_reach fs bs" using assms(1) by (simp add: fleet_tidy_def outputs_ready_def)
  then have v: "valid_names bs" by (rule fs_reach_valid)
  have "fs_reach fs (queue_path bs fid)" using r assms(2) by (simp add: queue_path_def fs_reach_append)
  moreover have "QueueDir (mgr bs fid) = abs_of (queue_path bs fid)"
    using corpus_dirs_mgr(1)[OF v, of fid] out_path_fid[OF assms(2), of bs] assms(2) by (simp add: fuzzer_ok_def queue_path_def)
  ultimately show "MkQueueDir (mgr bs fid) fs = (Inr (), half_registered bs fid fs)"
    using nf by (simp add: MkQueueDir_def half_registered_def os_mkdir_all_ok)
qed

lemma half_facts:
  assumes "fleet_tidy fs bs" and "valid_name fid" and "fid \<notin> set (fleet_ids fs bs)"
  shows "fs_wf (half_registered bs fid fs)" and "fs_reach (half_registered bs fid fs) q = fs_reach fs q"
    and "fs_is_dir (half_registered bs fid fs) d \<longleftrightarrow> fs_is_dir fs d \<or> prefix d (queue_path bs fid)"
    and "\<not> fs_is_dir (half_registered bs fid fs) (bs @ [''output'', fid, ''crashes''])"
proof -
  have wf: "fs_wf fs" and r: "fs_reach fs bs" using assms(1) by (simp_all add: fleet_tidy_def outputs_ready_def dir_ready_def)
  have "valid_names (queue_path bs fid)" using fs_reach_valid[OF r] assms(2) by (simp add: queue_path_def)
  then show "fs_wf (half_registered bs fid fs)"
    unfolding half_registered_def using wf MkQueueDir_half(2)[OF assms(1,2)] by (intro fs_wf_mkdirs)
  show "fs_reach (half_registered bs fid fs) q = fs_reach fs q" by (simp add: half_registered_def)
  show d: "fs_is_dir (half_registered bs fid fs) d \<longleftrightarrow> fs_is_dir fs d \<or> prefix d (queue_path bs fid)" for d
    by (auto simp: half_registered_def fs_lookup_mkdirs)
  have "\<not> fs_is_dir fs (bs @ [''output'', fid, ''crashes''])"
    using fs_wf_lookup[OF wf, of "bs @ [''output'', fid]" "''crashes''"] assms(3) by (auto simp: fleet_ids_set)
  then show "\<not> fs_is_dir (half_registered bs fid fs) (bs @ [''output'', fid, ''crashes''])"
    by (simp add: d queue_path_def)
qed

text \<open>What another fuzzer can store, it can still store.\<close>

lemma half_post_ok:
  assumes "fleet_tidy fs bs" and "valid_name fid" and "valid_name g" and "g \<noteq> fid" and "post_ok fs (out_path bs g) q c h"
  shows "post_ok (half_registered bs fid fs) (out_path bs g) q c h"
proof -
  let ?fs1 = "half_registered bs fid fs"
  have "fs_is_file ?fs1 p = fs_is_file fs p" for p
    using MkQueueDir_half(2)[OF assms(1,2)] by (simp add: half_registered_def fs_is_file_mkdirs)
  then have "no_file_on ?fs1 = no_file_on fs" by (simp add: fun_eq_iff no_file_on_def)
  moreover have "fs_is_dir ?fs1 (bs @ [''output'', g, k, n]) = fs_is_dir fs (bs @ [''output'', g, k, n])" for k n
    by (auto simp: half_registered_def fs_lookup_mkdirs queue_path_def dest: prefix_length_le)
  ultimately show ?thesis using assms(5) out_path_fid[OF assms(3), of bs] by (simp add: post_ok_def out_free_def)
qed

text \<open>A handler that cannot read the outputs ends the server, whatever the archive.\<close>

lemma archiveNewCrashes_unreadable:
  assumes "ReadOutputs fm fs = (Inl (Err e), fs)"
  shows "w_fs w = fs \<Longrightarrow> \<exists>m w'. archiveNewCrashes ord fm (archiver_at ar) w = (Inl (Fatal m), w')"
proof -
  assume fs: "w_fs w = fs"
  have "\<exists>r. LsDstFiles (archiver_at ar) realtimeCrashesPath w = (r, w) \<and> (\<forall>f. r = Inl f \<longrightarrow> (\<exists>e. f = Err e))"
  proof (cases ar)
    case None
    then show ?thesis by (simp add: archiver_at_def LsDstFiles_def)
  next
    case (Some dr)
    then show ?thesis
      by (auto simp: archiver_at_def LsDstFiles_def disk_at_def LsDstFiles_disk_def Let_def on_fs_def
          split: sum.split fault.split dest: fs_stat_Inl fs_read_dir_Inl)
  qed
  then obtain r where r: "LsDstFiles (archiver_at ar) realtimeCrashesPath w = (r, w)" "\<And>f. r = Inl f \<Longrightarrow> \<exists>e. f = Err e"
    by blast
  have o: "on_fs (ReadOutputs fm) w = (Inl (Err e), w)" using assms fs by (simp add: on_fs_def)
  show ?thesis
    using r o by (cases r) (auto simp: archiveNewCrashes_def go_try_def go_fatal_def)
qed

subsection \<open>Properties\<close>

text \<open>
  C38: The first report of a fuzzer can end the server: between the handler's first call, which makes the directory of
  the new fuzzer's queue, and its last, every complete report of another fuzzer that is handled ends in \<open>log.Fatal\<close>,
  because reading the outputs of all fuzzers does not find the new one's other directories. The same report is handled
  without fault before.
\<close>

theorem first_report_race:
  assumes "server_tidy bs ar sv" and "valid_name fid" and "fid \<notin> set (fleet_ids (w_fs sv) bs)"
    and "good_report st" and "complete_queue st \<noteq> None" and "Id st \<noteq> fid" and "range_order ord"
  shows "\<exists>fs1. MkQueueDir (mgr bs fid) (w_fs sv) = (Inr (), fs1) \<and>
    (\<exists>m w'. postState ord now st (sv\<lparr>w_fs := fs1\<rparr>) = (Inl (Fatal m), w')) \<and>
    (\<exists>w'. postState ord now st sv = (Inr (), w'))"
proof -
  have tidy: "fleet_tidy (w_fs sv) bs" and sv: "fileManager sv = fleet bs" "archiver sv = archiver_at ar"
    using assms(1) by (simp_all add: server_tidy_def)
  obtain q c h where o: "Queue (Output st) = Some q" "Crashes (Output st) = Some c" "Hangs (Output st) = Some h"
    using assms(5) by (auto simp: complete_queue_def split: option.splits)
  have good: "valid_name (Id st)" "good_names (Inputs q)" "good_names (Inputs c)" "good_names (Inputs h)"
    using assms(4) o by (simp_all add: good_report_def)
  note st = report_eta[OF o] and post = good_post_ok[OF tidy good] and pst = out_path_fid[OF good(1), of bs]
  let ?fs1 = "half_registered bs fid (w_fs sv)"
  note mk = MkQueueDir_half[OF tidy assms(2)] and half = half_facts[OF tidy assms(2,3)]
  note post1 = half_post_ok[OF tidy assms(2) good(1) assms(6) post]
  have reach: "fs_reach ?fs1 bs" using tidy half(2) by (simp add: fleet_tidy_def outputs_ready_def)
  obtain fs2 fs3 where all: "MkAllOutputDirs (mgr bs (Id st)) ?fs1 = (Inr (), fs2)"
    and wr: "WriteOutput (mgr bs (Id st)) (full_output (Inputs q) (Inputs c) (Inputs h)) fs2 = (Inr (), fs3)"
    and own: "out_ready fs3 (out_path bs (Id st))" and den: "fs_denied fs3 = fs_denied ?fs1"
    and dirs: "\<And>d. fs_is_dir fs3 d \<longleftrightarrow> fs_is_dir ?fs1 d \<or> (\<exists>p\<in>set (corpus_paths (out_path bs (Id st))). prefix d p)"
    by (rule store_output[OF half(1) reach good(1) post1], rule that)
  have "fs_wf fs3" using own by (simp add: out_ready_dirs dir_ready_def)
  then have out: "dir_ready fs3 (bs @ [''output''])"
    using reach dirs fs_reach_cong[OF den] by (auto simp: dir_ready_def fs_reach_append half(3) queue_path_def)
  have "fid \<in> set (fleet_ids fs3 bs)" using dirs half(3) by (auto simp: fleet_ids_set queue_path_def)
  moreover have "\<not> fs_is_dir fs3 (bs @ [''output'', fid, ''crashes''])"
    using dirs half(4) assms(6) by (auto simp: corpus_paths_def pst)
  then have "\<not> out_ready fs3 (out_path bs fid)"
    using out_path_fid[OF assms(2), of bs] by (auto simp: out_ready_dirs dir_ready_def)
  ultimately obtain e where read: "ReadOutputs (fleet bs) fs3 = (Inl (Err e), fs3)"
    using ReadOutputs_one_missing[OF out] by blast
  let ?w3 = "sv\<lparr>w_events := w_events sv @ [metric_event sv Gauge ''fuzzer.queue_size''
     (f32_of_uint (of_nat (length (Inputs q)))) [(''fuzzer_id'', Id st)]], w_fs := fs3\<rparr>"
  obtain m w' where "archiveNewCrashes ord (fleet bs) (archiver_at ar) ?w3 = (Inl (Fatal m), w')"
    using archiveNewCrashes_unreadable[OF read, of ?w3 ord ar] by auto
  then have "postState ord now (report (Id st) (State.Stats st) (Inputs q) (Inputs c) (Inputs h)) (sv\<lparr>w_fs := ?fs1\<rparr>) =
      (Inl (Fatal m), w')"
    using all wr sv
    by (simp add: postState_def report_def full_output_def corpus_len_def pure_def Submit_ok MkAllOutputDirs_fleet_def
        WriteOutput_fleet_def)
  then have "\<exists>m w'. postState ord now st (sv\<lparr>w_fs := ?fs1\<rparr>) = (Inl (Fatal m), w')"
    using st by auto
  moreover have "\<exists>w'. postState ord now st sv = (Inr (), w')"
    using postState_tidy[OF assms(1,7,4), of now] assms(5) by auto
  ultimately show ?thesis using mk(1) by blast
qed

lemma first_report_race_witness:
  "\<exists>fs1. MkQueueDir (mgr [''d''] ''h-2'') (w_fs tidy_server) = (Inr (), fs1) \<and>
    (\<exists>m w'. postState (\<lambda>m. m) 7 sample_report (tidy_server\<lparr>w_fs := fs1\<rparr>) = (Inl (Fatal m), w')) \<and>
    (\<exists>w'. postState (\<lambda>m. m) 7 sample_report tidy_server = (Inr (), w'))"
proof -
  have "valid_name ''h-2''" "good_report sample_report" "complete_queue sample_report \<noteq> None" "Id sample_report \<noteq> ''h-2''"
    by code_simp+
  moreover have "''h-2'' \<notin> set (fleet_ids (w_fs tidy_server) [''d''])"
    by (simp add: tidy_server_def) code_simp
  ultimately show ?thesis
    using first_report_race[OF tidy_server_tidy, of "''h-2''" sample_report "\<lambda>m. m" 7] by (simp add: range_order_def)
qed

end
