(* ===== verification/ServerArchive.thy ===== *)
theory ServerArchive
  imports ServerSpec
begin

text \<open>
  The crash archive of the running server (\<open>postState\<close> and the archive goroutine of \<open>server/server.go\<close> over
  \<open>server/archiver.go\<close>): from the first complete report on, the archive on disk has a copy of every crash of the
  fleet, and the snapshots that are taken in between leave it alone.
\<close>

subsection \<open>The archive and the fleet\<close>

definition crash_rel_of :: "string \<Rightarrow> string \<Rightarrow> path" where
  "crash_rel_of fid n = [''output'', fid, ''crashes'', n]"

definition archive_mirrors :: "fs \<Rightarrow> path \<Rightarrow> path \<Rightarrow> bool" where
  "archive_mirrors fs bs dr \<longleftrightarrow> (\<forall>fid n b. n \<noteq> readmeFilename \<longrightarrow> file_at fs (bs @ crash_rel_of fid n) = Some b \<longrightarrow>
     file_at fs (dr @ realtimeCrashesPath # crash_rel_of fid n) = Some b)"

lemma archive_shape_iff:
  "archive_shape fs dr \<longleftrightarrow> fs_reach fs dr \<and> no_file_on fs (dr @ [realtimeCrashesPath]) \<and>
     (\<forall>r n. fs_lookup fs (dr @ realtimeCrashesPath # r) = Some n \<longrightarrow> (if n = Dir then length r < 4 else length r = 4))"
    (is "_ \<longleftrightarrow> ?r")
proof
  assume "archive_shape fs dr"
  then show ?r using archive_shape_lookup[of fs dr] by (simp add: archive_shape_def)
next
  assume r: ?r
  have "if fs_is_dir fs p then length p < length dr + 5 else length p = length dr + 5"
    if p: "p \<in> set (map fst (fs_tree fs))" "prefix (dr @ [realtimeCrashesPath]) p" for p
  proof -
    obtain q where q: "p = dr @ realtimeCrashesPath # q" using p(2) by (auto simp: prefix_def)
    have "map_of (fs_tree fs) p \<noteq> None" using p(1) by (auto simp: map_of_eq_None_iff)
    then obtain n where "fs_lookup fs p = Some n" by (auto simp: q fs_lookup_def)
    then show ?thesis using r by (cases n) (auto simp: q)
  qed
  then show "archive_shape fs dr" using r by (simp add: archive_shape_def list_all_iff)
qed

lemma archive_shape_same:
  assumes "archive_shape fs dr" and "archive_ready fs' bs (Some dr)"
    and "\<And>r. fs_lookup fs' (dr @ realtimeCrashesPath # r) = fs_lookup fs (dr @ realtimeCrashesPath # r)"
  shows "archive_shape fs' dr"
  using assms by (simp add: archive_shape_iff archive_ready_def)

text \<open>Copies of crashes have the depth the archive is to have.\<close>

lemma archive_shape_touched:
  assumes "archive_shape fs dr" and "touches (crash_targets dr bs fs) fs fs'" and "archive_ready fs' bs (Some dr)"
  shows "archive_shape fs' dr"
proof -
  have "if n = Dir then length r < 4 else length r = 4" if n: "fs_lookup fs' (dr @ realtimeCrashesPath # r) = Some n" for r n
  proof -
    let ?p = "dr @ realtimeCrashesPath # r"
    have depth: "length t = length dr + 5" if "t \<in> crash_targets dr bs fs" for t
      using that by (auto simp: crash_targets_def crash_rels_set)
    consider "fs_lookup fs' ?p = fs_lookup fs ?p"
      | t where "fs_is_dir fs' ?p" "t \<in> crash_targets dr bs fs" "strict_prefix ?p t"
      | "?p \<in> crash_targets dr bs fs" "fs_is_file fs' ?p"
      using assms(2) unfolding touches_def by blast
    then show ?thesis
    proof cases
      case 1
      then show ?thesis using archive_shape_lookup[OF assms(1), of r n] n by simp
    next
      case (2 t)
      then show ?thesis using n depth[of t] prefix_length_less[of ?p t] by simp
    next
      case 3
      then show ?thesis using n depth[of ?p] by (auto simp: fs_is_file_iff)
    qed
  qed
  then show ?thesis using assms(3) by (simp add: archive_shape_iff archive_ready_def)
qed

lemma archive_apart:
  assumes "archive_ready fs bs (Some dr)"
  shows "\<not> prefix (bs @ [''output'']) (dr @ [realtimeCrashesPath])" "\<not> prefix (dr @ [realtimeCrashesPath]) (bs @ [''output''])"
  using assms append_prefixD[of dr "[realtimeCrashesPath]" "bs @ [''output'']"]
  by (auto simp: archive_ready_def apart_from_def realtimeCrashesPath_def)

text \<open>Storing a report changes nothing below the archive of the crashes.\<close>

lemma stored_apart:
  assumes "archive_ready fs bs (Some dr)" and "valid_name fid"
    and dirs: "\<And>d. fs_is_dir fs2 d \<longleftrightarrow> fs_is_dir fs d \<or> (\<exists>p\<in>set (corpus_paths (out_path bs fid)). prefix d p)"
    and files: "\<And>e. (\<forall>k. e \<noteq> out_path bs fid @ [k]) \<Longrightarrow> dir_files fs2 e = dir_files fs e"
  shows "fs_lookup fs2 (dr @ realtimeCrashesPath # r) = fs_lookup fs (dr @ realtimeCrashesPath # r)"
proof -
  let ?x = "dr @ realtimeCrashesPath # r"
  note p = out_path_fid[OF assms(2), of bs]
  have x: "?x = (dr @ [realtimeCrashesPath]) @ r" by simp
  have out: "\<not> prefix (bs @ [''output'']) ?x" "\<not> prefix ?x (bs @ [''output''])"
    using archive_apart[OF assms(1)] prefix_same_cases[of "bs @ [''output'']" ?x "dr @ [realtimeCrashesPath]"]
      append_prefixD[of "dr @ [realtimeCrashesPath]" r "bs @ [''output'']"] unfolding x by auto
  then have "fs_is_dir fs2 ?x = fs_is_dir fs ?x" (is ?dir)
    using dirs[of ?x] comparable_output[of ?x bs fid] by (auto simp: corpus_paths_def p)
  have "butlast ?x \<noteq> out_path bs fid @ [k]" for k
  proof
    assume "butlast ?x = out_path bs fid @ [k]"
    then have "prefix (bs @ [''output'']) (butlast ?x)" by (simp add: p)
    then show False using out(1) prefix_order.trans[OF _ prefixeq_butlast] by blast
  qed
  then have "dir_files fs2 (butlast ?x) = dir_files fs (butlast ?x)" using files by blast
  moreover have "?x = butlast ?x @ [last ?x]" by (rule append_butlast_last_id[symmetric]) simp
  ultimately have "file_at fs2 ?x = file_at fs ?x" by (metis dir_files_file_at)
  with \<open>?dir\<close> show ?thesis by (rule lookup_from_parts)
qed

lemma snapshot_name: "realtimeCrashesPath \<noteq> format_int ts"
proof
  assume "realtimeCrashesPath = format_int ts"
  moreover have "is_number (format_int ts)" by simp
  moreover have "\<not> is_number realtimeCrashesPath" by code_simp
  ultimately show False by simp
qed

subsection \<open>The steps of the server\<close>

definition archive_tidy :: "path \<Rightarrow> path \<Rightarrow> ('s3, 'z) server_scheme \<Rightarrow> bool" where
  "archive_tidy bs dr sv \<longleftrightarrow> server_tidy bs (Some dr) sv \<and> archive_shape (w_fs sv) dr"

text \<open>After a complete report the archive has the crashes of the whole fleet.\<close>

lemma postState_mirrors:
  fixes sv :: "('s3, 'z) server_scheme"
  assumes "archive_tidy bs dr sv" and "range_order ord" and "good_report st"
    and o: "Queue (Output st) = Some q" "Crashes (Output st) = Some c" "Hangs (Output st) = Some h"
    and post: "postState ord now st sv = (res, sv')"
  shows "archive_tidy bs dr sv' \<and> archive_mirrors (w_fs sv') bs dr \<and>
    (\<forall>i\<in>set (Inputs c). fs_is_file (w_fs sv') (bs @ crash_rel_of (Id st) (Name i)))"
proof -
  have tidy: "server_tidy bs (Some dr) sv" and shape: "archive_shape (w_fs sv) dr"
    using assms(1) by (simp_all add: archive_tidy_def)
  then have ready: "archive_ready (w_fs sv) bs (Some dr)" by (simp add: server_tidy_def)
  obtain w3 w4 sv1 :: "('s3, 'z) server_scheme" where
    sv1: "postState ord now st sv = (Inr (), sv1)" "w_fs sv1 = w_fs w4" and
    arch: "archiveNewCrashes ord (fleet bs) (archiver_at (Some dr)) w3 = (Inr (), w4)" and
    fid: "valid_name (Id st)" and
    w3: "fleet_tidy (w_fs w3) bs" "archive_ready (w_fs w3) bs (Some dr)" "fs_denied (w_fs w3) = fs_denied (w_fs sv)" and
    keep: "keeps_fleet bs (Some dr) (w_fs w3) (w_fs w4)" and
    dirs: "\<And>d. fs_is_dir (w_fs w3) d \<longleftrightarrow> fs_is_dir (w_fs sv) d \<or> (\<exists>p\<in>set (corpus_paths (out_path bs (Id st))). prefix d p)" and
    files: "\<And>e. dir_files (w_fs w3) e =
       (if e = out_path bs (Id st) @ [''queue''] then stored (dir_files (w_fs sv) e) (Inputs q)
        else if e = out_path bs (Id st) @ [''crashes''] then stored (dir_files (w_fs sv) e) (Inputs c)
        else if e = out_path bs (Id st) @ [''hangs''] then stored (dir_files (w_fs sv) e) (Inputs h)
        else dir_files (w_fs sv) e)"
    by (rule postState_parts[OF tidy assms(2-6), of now]) (rule that; assumption)
  note p = out_path_fid[OF fid, of bs]
  have eq: "sv1 = sv'" using sv1(1) post by simp
  have other: "\<And>e. (\<forall>k. e \<noteq> out_path bs (Id st) @ [k]) \<Longrightarrow> dir_files (w_fs w3) e = dir_files (w_fs sv) e" by (simp add: files)
  have out: "outputs_ready (w_fs w3) bs" using w3(1) by (simp add: fleet_tidy_def)
  then have wf: "fs_wf (w_fs w3)" and v: "valid_names bs" by (auto simp: outputs_ready_def dir_ready_def fs_reach_def)
  have shape3: "archive_shape (w_fs w3) dr"
    by (rule archive_shape_same[OF shape w3(2) stored_apart[OF ready fid dirs other]])
  have fits: "archive_fits dr (w_fs w3) bs"
    by (rule register_keeps_room[OF shape wf w3(3) v fid archive_apart[OF ready] dirs other])
  have a: "archiveNewCrashes ord (fleet bs) (disk_at dr) w3 = (Inr (), w4)" using arch by (simp add: archiver_at_def)
  have "touches (crash_targets dr bs (w_fs w3)) (w_fs w3) (w_fs w4)"
    using archiveNewCrashes_touches[OF out _ _ assms(2), of dr] shape3 a by (auto simp: archive_shape_def touches_world_def)
  moreover have ready4: "archive_ready (w_fs w4) bs (Some dr)" using keep by (simp add: keeps_fleet_def)
  ultimately have shape4: "archive_shape (w_fs w4) dr" using archive_shape_touched[OF shape3] by blast
  have tidy': "server_tidy bs (Some dr) sv'" using postState_tidy[OF tidy assms(2,3), of now] post by auto
  have same: "file_at (w_fs w4) (bs @ crash_rel_of f n) = file_at (w_fs w3) (bs @ crash_rel_of f n)" for f n
    using keep by (simp add: keeps_fleet_def file_at_def crash_rel_of_def)
  have held: "file_at (w_fs w4) (dr @ realtimeCrashesPath # r) = file_at (w_fs w3) (bs @ r)"
    if "r \<in> set (crash_rels (w_fs w3) bs (fleet_ids (w_fs w3) bs))" for r
    using archiveNewCrashes_disk[OF out fits assms(2)] a that by (auto dest!: spec[of _ "realtimeCrashesPath # r"])
  have "archive_mirrors (w_fs w4) bs dr"
    unfolding archive_mirrors_def
  proof (intro allI impI)
    fix f n b assume n: "n \<noteq> readmeFilename" "file_at (w_fs w4) (bs @ crash_rel_of f n) = Some b"
    then have b: "file_at (w_fs w3) (bs @ crash_rel_of f n) = Some b" by (simp add: same)
    then have "fs_lookup (w_fs w3) (((bs @ [''output'', f]) @ [''crashes'']) @ [n]) = Some (File b)"
      by (simp add: file_at_Some crash_rel_of_def)
    then have "fs_is_dir (w_fs w3) (bs @ [''output'', f])" using fs_wf_lookup[OF wf] by blast
    then have "f \<in> set (fleet_ids (w_fs w3) bs)" by (simp add: fleet_ids_set)
    then have "crash_rel_of f n \<in> set (crash_rels (w_fs w3) bs (fleet_ids (w_fs w3) bs))"
      using n(1) b by (auto simp: crash_rels_set crash_rel_of_def)
    then show "file_at (w_fs w4) (dr @ realtimeCrashesPath # crash_rel_of f n) = Some b" using held b by simp
  qed
  moreover have "fs_is_file (w_fs w4) (bs @ crash_rel_of (Id st) (Name i))" if i: "i \<in> set (Inputs c)" for i
  proof -
    have "dir_files (w_fs w3) (out_path bs (Id st) @ [''crashes'']) (Name i) \<noteq> None"
      using files[of "out_path bs (Id st) @ [''crashes'']"] stored_member[OF i] by simp
    then show ?thesis
      using same[of "Id st" "Name i"] by (auto simp: dir_files_file_at p crash_rel_of_def fs_is_file_iff simp flip: file_at_Some)
  qed
  ultimately show ?thesis using tidy' shape4 by (simp add: archive_tidy_def sv1(2) flip: eq)
qed

text \<open>A snapshot keeps the copies and the shape of the archive.\<close>

lemma archive_tick_mirrors:
  assumes "archive_tidy bs dr sv" and "ArchiveTask a root interval \<in> set (s_tasks sv)" and "archive_ticks a root [ts] sv = (res, sv')"
  shows "archive_tidy bs dr sv' \<and> (archive_mirrors (w_fs sv) bs dr \<longrightarrow> archive_mirrors (w_fs sv') bs dr)"
proof -
  have tidy: "server_tidy bs (Some dr) sv" and shape: "archive_shape (w_fs sv) dr"
    using assms(1) by (simp_all add: archive_tidy_def)
  then have fleet: "fleet_tidy (w_fs sv) bs" and ready: "archive_ready (w_fs sv) bs (Some dr)" by (simp_all add: server_tidy_def)
  have a: "a = archiver_at (Some dr)" "root = abs_of bs" using tidy assms(2) by (fastforce simp: server_tidy_def list_all_iff)+
  have tidy': "server_tidy bs (Some dr) sv'" using archive_tick_tidy[OF tidy assms(2), of ts] assms(3) by auto
  have keep: "keeps_fleet bs (Some dr) (w_fs sv) (w_fs sv')"
    using archive_tick_keeps[OF fleet ready, of ts] assms(3) by (auto simp: a)
  have "touches (snapshot_targets dr (format_int ts)) (w_fs sv) (w_fs sv')"
    using archive_tick_touches[OF fleet_tidy_root[OF fleet], of dr ts] ready assms(3) fs_reach_valid[of "w_fs sv" dr]
    by (auto simp: a archiver_at_def touches_world_def archive_ready_def)
  then have conf: "confined (dr @ [format_int ts]) (w_fs sv) (w_fs sv')"
    using touches_confined snapshot_targets_below by blast
  have same: "fs_lookup (w_fs sv') (dr @ realtimeCrashesPath # r) = fs_lookup (w_fs sv) (dr @ realtimeCrashesPath # r)" for r
    using conf snapshot_name[of ts] by (auto simp: confined_def strict_prefix_def dest!: spec[of _ "dr @ realtimeCrashesPath # r"])
  have "archive_ready (w_fs sv') bs (Some dr)" using tidy' by (simp add: server_tidy_def)
  then have "archive_shape (w_fs sv') dr" by (rule archive_shape_same[OF shape _ same])
  moreover have "archive_mirrors (w_fs sv') bs dr" if "archive_mirrors (w_fs sv) bs dr"
    using that keep by (simp add: archive_mirrors_def file_at_def same keeps_fleet_def crash_rel_of_def)
  ultimately show ?thesis using tidy' by (simp add: archive_tidy_def)
qed

text \<open>The report of an event, when it has all its corpora, and its crashes.\<close>

definition complete_crashes :: "State \<Rightarrow> Input list option" where
  "complete_crashes st = (case (Queue (Output st), Crashes (Output st), Hangs (Output st)) of
     (Some q, Some c, Some h) \<Rightarrow> Some (Inputs c)
   | _ \<Rightarrow> None)"

lemma archive_tidy_table: "archive_tidy bs dr sv \<Longrightarrow> table_step sv sv' \<Longrightarrow> archive_tidy bs dr sv' \<and> w_fs sv' = w_fs sv"
  using server_tidy_table[of bs "Some dr" sv sv'] by (simp add: archive_tidy_def table_step_def)

lemma report_archived:
  assumes "archive_tidy bs dr sv" and "harmless (Request ord now ''POST'' ''/state'' body)"
    and "dispatch go_server_codec ord now ''POST'' ''/state'' body sv = (res, sv')"
    and "complete_crashes (decode_state body) = Some c"
  shows "archive_tidy bs dr sv' \<and> archive_mirrors (w_fs sv') bs dr \<and>
    (\<forall>i\<in>set c. fs_is_file (w_fs sv') (bs @ crash_rel_of (Id (decode_state body)) (Name i)))"
proof -
  have h: "range_order ord" "good_report (decode_state body)" using assms(2) by (simp_all add: harmless_def)
  obtain q cr hg where o: "Queue (Output (decode_state body)) = Some q" "Crashes (Output (decode_state body)) = Some cr"
      "Hangs (Output (decode_state body)) = Some hg" "c = Inputs cr"
    using assms(4) by (auto simp: complete_crashes_def split: option.splits)
  obtain r where "postState ord now (decode_state body) sv = (r, sv')"
    using assms(3) by (cases "postState ord now (decode_state body) sv") (auto simp: dispatch_client go_server_codec_def go_then_def go_try_def split: sum.splits)
  from postState_mirrors[OF assms(1) h o(1-3) this] show ?thesis by (simp add: o(4))
qed

lemma dispatch_archive_tidy:
  assumes "archive_tidy bs dr sv" and "harmless (Request ord now m p body)"
    and "dispatch go_server_codec ord now m p body sv = (res, sv')"
  shows "archive_tidy bs dr sv' \<and> (archive_mirrors (w_fs sv) bs dr \<longrightarrow> archive_mirrors (w_fs sv') bs dr)"
proof (cases "m = ''POST'' \<and> p = ''/state'' \<and> complete_crashes (decode_state body) \<noteq> None")
  case True
  then show ?thesis using report_archived[of bs dr sv ord now body res sv'] assms by auto
next
  case False
  have "sv' = sv"
  proof (cases "m = ''POST'' \<and> p = ''/state''")
    case True
    then have "complete_queue (decode_state body) = None"
      using False by (auto simp: complete_queue_def complete_crashes_def split: option.splits)
    then show ?thesis using assms(3) True by (auto simp: dispatch_client go_server_codec_def postState_incomplete)
  next
    case False
    moreover have "server_tidy bs (Some dr) sv" "\<not> asks_input m p"
      using assms(1,2) by (simp_all add: archive_tidy_def harmless_def)
    ultimately show ?thesis using dispatch_quiet[of bs "Some dr" sv m p ord now body] assms(3) by auto
  qed
  then show ?thesis using assms(1) by simp
qed

text \<open>So every step keeps what the archive has.\<close>

lemma server_step_archive:
  assumes "archive_tidy bs dr sv" and "harmless e" and "server_step sv e out"
  shows "\<exists>sv'. out = Some sv' \<and> archive_tidy bs dr sv' \<and> (archive_mirrors (w_fs sv) bs dr \<longrightarrow> archive_mirrors (w_fs sv') bs dr)"
proof -
  have "server_tidy bs (Some dr) sv" using assms(1) by (simp add: archive_tidy_def)
  then obtain sv' where out: "out = Some sv'" using server_step_tidy[OF _ assms(2,3)] by blast
  have "archive_tidy bs dr sv' \<and> (archive_mirrors (w_fs sv) bs dr \<longrightarrow> archive_mirrors (w_fs sv') bs dr)"
    using assms(3) unfolding out
  proof cases
    case (answered ord now m p body resp)
    then show ?thesis using dispatch_archive_tidy[OF assms(1), of ord now m p body] assms(2) by auto
  next
    case (dropped ord now m p body e)
    then show ?thesis using dispatch_archive_tidy[OF assms(1), of ord now m p body] assms(2) by auto
  next
    case (reaped interval now)
    then show ?thesis using archive_tidy_table[OF assms(1)] withinD[OF cleanUp_table] by metis
  next
    case (polled interval now)
    then show ?thesis using archive_tidy_table[OF assms(1)] withinD[OF logMetrics_table] by metis
  next
    case (archived a root interval now)
    then show ?thesis using archive_tick_mirrors[OF assms(1)] by blast
  qed
  then show ?thesis using out by blast
qed

lemma server_run_archive:
  assumes "server_run sv es out" and "\<forall>e\<in>set es. harmless e" and "archive_tidy bs dr sv"
  shows "\<exists>sv'. out = Some sv' \<and> archive_tidy bs dr sv' \<and> (archive_mirrors (w_fs sv) bs dr \<longrightarrow> archive_mirrors (w_fs sv') bs dr)"
  using assms
proof (induction rule: server_run.induct)
  case (step sv es sv1 e out)
  then show ?case using server_step_archive[of bs dr sv1 e out] by auto
qed simp

subsection \<open>Properties\<close>

text \<open>
  C5: No crash a client has reported is lost. Take a server that archives to disk next to the fleet's directories, into an
  archive of crashes that holds nothing but copies of crashes, and any run of requests, handled one at a time, ticks of the
  reaper and the poller, and snapshots, with a complete report in it, in which complete reports name their fuzzer and
  inputs like files and nobody asks for the page of a single input (the one admin page that ends a
  server by what it is asked for): at the end the server is up and every crash of that report is in the
  fuzzer's directory and, with the same bytes, in the archive, and so is every other crash the fleet has by then.
\<close>

theorem reported_crashes_archived:
  assumes "server_run sv (before @ Request o1 t1 ''POST'' ''/state'' body # after) out"
    and "\<forall>e\<in>set before. harmless e" and "harmless (Request o1 t1 ''POST'' ''/state'' body)" and "\<forall>e\<in>set after. harmless e"
    and "server_tidy bs (Some dr) sv" and "archive_shape (w_fs sv) dr" and "complete_crashes (decode_state body) = Some c"
  shows "\<exists>sv'. out = Some sv' \<and>
    (\<forall>i\<in>set c. Name i \<noteq> readmeFilename \<longrightarrow> (\<exists>b.
       file_at (w_fs sv') (bs @ [''output'', Id (decode_state body), ''crashes'', Name i]) = Some b \<and>
       file_at (w_fs sv') (dr @ [''realtime-crashes'', ''output'', Id (decode_state body), ''crashes'', Name i]) = Some b)) \<and>
    (\<forall>fid n b. n \<noteq> readmeFilename \<longrightarrow> file_at (w_fs sv') (bs @ [''output'', fid, ''crashes'', n]) = Some b \<longrightarrow>
       file_at (w_fs sv') (dr @ [''realtime-crashes'', ''output'', fid, ''crashes'', n]) = Some b)"
proof -
  let ?e = "Request o1 t1 ''POST'' ''/state'' body" and ?fid = "Id (decode_state body)"
  obtain sv1 o2 where run: "server_run sv before (Some sv1)" "server_step sv1 ?e o2" and
    rest: "\<And>sv2. o2 = Some sv2 \<Longrightarrow> server_run sv2 after out"
    using server_run_split[OF assms(1)] by blast
  have "archive_tidy bs dr sv" using assms(5,6) by (simp add: archive_tidy_def)
  then have sv1: "archive_tidy bs dr sv1" using server_run_archive[OF run(1) assms(2)] by auto
  obtain sv2 where sv2: "o2 = Some sv2" using server_step_archive[OF sv1 assms(3) run(2)] by blast
  obtain res where "dispatch go_server_codec o1 t1 ''POST'' ''/state'' body sv1 = (res, sv2)"
    using run(2) unfolding sv2 by (auto elim: server_step_cases)
  note rep = report_archived[OF sv1 assms(3) this assms(7)]
  obtain sv' where sv': "out = Some sv'" "archive_mirrors (w_fs sv') bs dr"
    using server_run_archive[OF rest[OF sv2] assms(4)] rep by blast
  have "fs_is_file (w_fs sv') (bs @ crash_rel_of ?fid (Name i))" if "i \<in> set c" for i
  proof -
    have "nodes_wf (nodes sv2)" "fs_wf (w_fs sv2)" "valid_names (fs_cwd (w_fs sv2))"
      using rep by (auto simp: archive_tidy_def server_tidy_def fleet_tidy_def dir_ready_def archive_ready_def)
    from server_run_keeps[OF rest[OF sv2, unfolded sv'(1)] this] show ?thesis using rep that by blast
  qed
  then show ?thesis
    using sv' by (fastforce simp: archive_mirrors_def crash_rel_of_def realtimeCrashesPath_def fs_is_file_iff file_at_Some)
qed

text \<open>The report of the example has the crash \<open>id:1\<close>; a snapshot is taken after it.\<close>

lemma reported_crashes_archived_witness:
  "\<exists>b sv' x. marshal_state sample_report = Inr b \<and> server_run tidy_server (sample_events b) (Some sv') \<and>
    file_at (w_fs sv') [''d'', ''output'', ''h-1'', ''crashes'', ''id:1''] = Some x \<and>
    file_at (w_fs sv') [''a'', ''realtime-crashes'', ''output'', ''h-1'', ''crashes'', ''id:1''] = Some x"
proof -
  obtain b sv' where r: "marshal_state sample_report = Inr b" "decode_state b = sample_report"
    "\<forall>e\<in>set (sample_events b). harmless e" "server_run tidy_server (sample_events b) (Some sv')"
    by (rule sample_run)
  have run: "server_run tidy_server ([] @ Request (\<lambda>m. m) 7 ''POST'' ''/state'' b # [ReaperTick 8, ArchiveTick 9]) (Some sv')"
    using r(4) by (simp add: sample_events_def)
  have h: "\<forall>e\<in>set []. harmless e" "harmless (Request (\<lambda>m. m) 7 ''POST'' ''/state'' b)" "\<forall>e\<in>set [ReaperTick 8, ArchiveTick 9]. harmless e"
    using r(3) by (auto simp: sample_events_def)
  have c: "complete_crashes (decode_state b) = Some [\<lparr>Name = ''id:1'', Body = [0, 255]\<rparr>]" "Id (decode_state b) = ''h-1''"
    unfolding r(2) by code_simp+
  have "archive_shape (w_fs tidy_server) [''a'']" by (simp add: tidy_server_def, code_simp)
  from reported_crashes_archived[OF run h tidy_server_tidy this c(1)] show ?thesis
    using r(1,4) by (auto simp: c(2) readmeFilename_def)
qed

end
