(* ===== verification/ClientRun.thy ===== *)
theory ClientRun
  imports Cluster
begin

text \<open>
  The running client (\<open>client/client.go\<close>): from the start of AFL on, the goroutines of \<open>client/state_uploader.go\<close> and
  \<open>client/queue_downloader.go\<close> work side by side with AFL, at their ticks and in any order. Two things can end
  the client, and nothing else does, whatever the network answers and whatever is on disk, and AFL is left
  running after every upload.
\<close>

subsection \<open>Steps\<close>

text \<open>
  An upload that takes \<open>elapsed\<close> nanoseconds, a download, or something outside the client: AFL or another process
  changes files, and the world behind the network goes on.
\<close>

datatype 'n client_event =
    UploadTick int
  | DownloadTick
  | Meanwhile fs 'n

inductive client_step ::
  "codec \<Rightarrow> RovingServerClient \<Rightarrow> FleetFileManager \<Rightarrow> Fuzzer \<Rightarrow> ('s3, 'n, 'z) fuzz_world_scheme \<Rightarrow> 'n client_event \<Rightarrow>
   ('s3, 'n, 'z) fuzz_world_scheme option \<Rightarrow> bool"
  for c :: codec and srv :: RovingServerClient and fm :: FleetFileManager and f :: Fuzzer where
  uploaded: "uploadState (Marshal c) srv elapsed f w = (Inr (), w') \<Longrightarrow> client_step c srv fm f w (UploadTick elapsed) (Some w')"
| upload_ended: "uploadState (Marshal c) srv elapsed f w = (Inl e, w') \<Longrightarrow> client_step c srv fm f w (UploadTick elapsed) None"
| downloaded: "downloadQueues c srv fm w = (Inr (), w') \<Longrightarrow> client_step c srv fm f w DownloadTick (Some w')"
| download_ended: "downloadQueues c srv fm w = (Inl e, w') \<Longrightarrow> client_step c srv fm f w DownloadTick None"
| meanwhile: "client_step c srv fm f w (Meanwhile fs n) (Some (w\<lparr>w_fs := fs, net := n\<rparr>))"

inductive client_run ::
  "codec \<Rightarrow> RovingServerClient \<Rightarrow> FleetFileManager \<Rightarrow> Fuzzer \<Rightarrow> ('s3, 'n, 'z) fuzz_world_scheme \<Rightarrow> 'n client_event list \<Rightarrow>
   ('s3, 'n, 'z) fuzz_world_scheme option \<Rightarrow> bool"
  for c :: codec and srv :: RovingServerClient and fm :: FleetFileManager and f :: Fuzzer where
  start: "client_run c srv fm f w [] (Some w)"
| step: "client_run c srv fm f w es (Some w1) \<Longrightarrow> client_step c srv fm f w1 e out \<Longrightarrow> client_run c srv fm f w (es @ [e]) out"

inductive_cases client_run_nilE: "client_run c srv fm f w [] out"
inductive_cases client_run_snocE: "client_run c srv fm f w (es @ [e]) out"

text \<open>Every step can be taken in every state.\<close>

lemma client_step_total: "\<exists>out. client_step c srv fm f w e out"
proof (cases e)
  case (UploadTick elapsed)
  then show ?thesis
    by (cases "uploadState (Marshal c) srv elapsed f w"; cases "fst (uploadState (Marshal c) srv elapsed f w)")
      (auto intro: client_step.intros)
next
  case DownloadTick
  then show ?thesis
    by (cases "downloadQueues c srv fm w"; cases "fst (downloadQueues c srv fm w)") (auto intro: client_step.intros)
qed (auto intro: client_step.intros)

subsection \<open>What ends a client\<close>

text \<open>A torn statistics file ends an upload, and a nil queue among those the server sent a download.\<close>

definition nil_queue :: "codec \<Rightarrow> RovingServerClient \<Rightarrow> ('s3, 'n, 'z) client_world_scheme \<Rightarrow> bool" where
  "nil_queue c srv w = (case fst (FetchQueues (DecodeQueues c) srv w) of
     Inl e \<Rightarrow> False
   | Inr qs \<Rightarrow> list_ex (\<lambda>(_, q). q = None) qs)"

definition ends_client ::
  "codec \<Rightarrow> RovingServerClient \<Rightarrow> Fuzzer \<Rightarrow> ('s3, 'n, 'z) fuzz_world_scheme \<Rightarrow> 'n client_event \<Rightarrow> bool" where
  "ends_client c srv f w e = (case e of
     UploadTick _ \<Rightarrow> stats_torn f (w_fs w)
   | DownloadTick \<Rightarrow> nil_queue c srv w
   | Meanwhile _ _ \<Rightarrow> False)"

text \<open>What an upload and a download do to AFL's process and to the metrics.\<close>

lemma upload_keeps:
  assumes "proc w = Running" and "uploadState (Marshal c) srv elapsed f w = (r, w')"
  shows "if r = Inr () then proc w' = Running \<and> signals (c_log w') = signals (c_log w) @ [SIGSTOP, SIGCONT] \<and>
      length (w_events w') = length (w_events w) + 2 \<and> w_fs w' = w_fs w
    else stats_torn f (w_fs w)"
proof -
  have "fst (ReadState f (w_fs w)) = Inl (Panic m) \<Longrightarrow> stats_torn f (w_fs w)" for m
    using ReadState_panics by (metis prod.collapse)
  then show ?thesis using uploadState_effect[OF _ assms(2)] assms(1) by auto
qed

lemma download_keeps:
  fixes w :: "('s3, 'n, 'z) fuzz_world_scheme"
  assumes "proc w = Running" and "downloadQueues c srv fm w = (r, w')"
  shows "if r = Inr () then proc w' = Running \<and> signals (c_log w') = signals (c_log w) \<and>
      length (w_events w') = length (w_events w) + 1
    else nil_queue c srv w"
proof -
  obtain x w1 where fetch: "FetchQueues (DecodeQueues c) srv w = (x, w1)" by fastforce
  show ?thesis
  proof (cases "nil_queue c srv w")
    case False
    then have "case x of Inl _ \<Rightarrow> True | Inr qs \<Rightarrow> list_all (\<lambda>(_, q). q \<noteq> None) qs"
      using fetch by (auto simp: nil_queue_def list_ex_iff list_all_iff split: sum.splits)
    from downloadQueues_effect[OF fetch this, of fm] obtain fs' ok where
      "downloadQueues c srv fm w = (Inr (), w1\<lparr>w_fs := fs', w_events := w_events w @ [download_event w ok]\<rparr>)" by blast
    moreover have "proc w1 = proc w" "signals (c_log w1) = signals (c_log w)"
      using withinD[OF Fetch_talks(4) fetch] by (auto simp: talks_def)
    ultimately show ?thesis using assms by auto
  next
    case True
    have "proc w' = proc w \<and> signals (c_log w') = signals (c_log w) \<and>
        (r = Inr () \<longrightarrow> length (w_events w') = length (w_events w) + 1)"
      using assms(2) withinD[OF Fetch_talks(4) fetch] fetch
      by (auto simp: talks_def downloadQueues_def download_fail_def Submit_ok on_fs_def split: sum.splits fault.splits prod.splits)
    then show ?thesis using True assms(1) by auto
  qed
qed

subsection \<open>Properties\<close>

definition is_upload :: "'n client_event \<Rightarrow> bool" where
  "is_upload e = (case e of UploadTick _ \<Rightarrow> True | _ \<Rightarrow> False)"

definition is_download :: "'n client_event \<Rightarrow> bool" where
  "is_download e = (case e of DownloadTick \<Rightarrow> True | _ \<Rightarrow> False)"

definition uploads :: "'n client_event list \<Rightarrow> nat" where "uploads es = length (filter is_upload es)"
definition downloads :: "'n client_event list \<Rightarrow> nat" where "downloads es = length (filter is_download es)"

lemma event_counts [simp]:
  "uploads [] = 0" "downloads [] = 0"
  "uploads (es @ [UploadTick t]) = Suc (uploads es)" "downloads (es @ [UploadTick t]) = downloads es"
  "uploads (es @ [DownloadTick]) = uploads es" "downloads (es @ [DownloadTick]) = Suc (downloads es)"
  "uploads (es @ [Meanwhile fs n]) = uploads es" "downloads (es @ [Meanwhile fs n]) = downloads es"
  by (simp_all add: uploads_def downloads_def is_upload_def is_download_def)

lemma signals_of_uploads: "concat (replicate (Suc k) xs) = concat (replicate k xs) @ xs"
  by (induction k) auto

text \<open>
  C7: While AFL runs, its client survives. Whatever the network answers, whatever AFL and other processes do to the files,
  and in whatever order uploads and downloads come: only two things end the client, an upload that finds a line without
  a colon in AFL's statistics file, and a download of a nil queue. As long as it is up, AFL is running, having
  been stopped and continued once for each upload, and every upload has reported its outcome and its pause, every
  download its outcome.
\<close>

theorem client_survives:
  assumes "client_run c srv fm f w es out" and "proc w = Running"
  shows "case out of
      Some w' \<Rightarrow> proc w' = Running \<and>
        signals (c_log w') = signals (c_log w) @ concat (replicate (uploads es) [SIGSTOP, SIGCONT]) \<and>
        length (w_events w') = length (w_events w) + 2 * uploads es + downloads es
    | None \<Rightarrow> \<exists>es' e w'. es = es' @ [e] \<and> client_run c srv fm f w es' (Some w') \<and> ends_client c srv f w' e"
  using assms
proof (induction rule: client_run.induct)
  case (start w)
  then show ?case by simp
next
  case (step w es w1 e out)
  then have IH: "proc w1 = Running" "signals (c_log w1) = signals (c_log w) @ concat (replicate (uploads es) [SIGSTOP, SIGCONT])"
    "length (w_events w1) = length (w_events w) + 2 * uploads es + downloads es" by simp_all
  have ended: ?case if "out = None" "ends_client c srv f w1 e" using that step.hyps(1) by auto
  show ?case using step.hyps(2)
  proof cases
    case (uploaded elapsed w')
    then show ?thesis using IH upload_keeps[OF IH(1) uploaded(3)] by (simp add: signals_of_uploads del: replicate_Suc)
  next
    case (upload_ended elapsed x w')
    then show ?thesis using upload_keeps[OF IH(1) upload_ended(3)] by (intro ended) (simp_all add: ends_client_def)
  next
    case (downloaded w')
    then show ?thesis using IH download_keeps[OF IH(1) downloaded(3)] by simp
  next
    case (download_ended x w')
    then show ?thesis using download_keeps[OF IH(1) download_ended(3)] by (intro ended) (simp_all add: ends_client_def)
  next
    case (meanwhile fs n)
    then show ?thesis using IH by simp
  qed
qed

text \<open>Two uploads and a download with a network that breaks off, in a directory without output.\<close>

lemma client_survives_witness:
  "\<exists>w'. client_run (const_codec []) (NewRovingServerClient ''s'') \<lparr>Basedir = ''/d''\<rparr> sample_aflfuzzer (fuzzing sample_fs)
      [UploadTick 5, DownloadTick] (Some w') \<and>
    proc w' = Running \<and> signals (c_log w') = [SIGSTOP, SIGCONT] \<and> length (w_events w') = 3"
proof -
  let ?c = "const_codec []" and ?srv = "NewRovingServerClient ''s''" and ?fm = "\<lparr>Basedir = ''/d''\<rparr>"
    and ?w = "fuzzing sample_fs"
  have w: "proc ?w = Running" "w_fs ?w = sample_fs" "c_log ?w = []" "w_events ?w = []"
    by (simp_all add: fuzzing_def flaky_world_def client_world.defs)
  have m: "FileManager sample_aflfuzzer = mgr [''w''] ''h-1''" and v: "valid_names [''w'']" "fuzzer_ok ''h-1''" "valid_name ''h-1''" by code_simp+
  have "fs_read_file sample_fs (FuzzerStatsPath (FileManager sample_aflfuzzer)) \<noteq> Inr buf" for buf
    unfolding m corpus_dirs_mgr(4)[OF v(1,2)] out_path_fid[OF v(3)]
    using fs_stat_reach[of sample_fs "[''w'', ''output'', ''h-1'', ''fuzzer_stats'']"] v
    by (simp add: fs_read_file_def sample_fs_def fs_lookup_def fs_reach_def split: sum.split)
  then have torn: "\<not> stats_torn sample_aflfuzzer sample_fs" by (simp add: stats_torn_def split: sum.split)
  have nonil: "\<not> nil_queue ?c ?srv v" for v :: "(unit, nat) fuzz_world"
    by (auto simp: nil_queue_def FetchQueues_def const_codec_def go_try_def split: sum.split prod.split)
  obtain r1 w1 where u: "uploadState (Marshal ?c) ?srv 5 sample_aflfuzzer ?w = (r1, w1)" by fastforce
  with upload_keeps[OF w(1) u] torn have u1: "r1 = Inr ()" "proc w1 = Running" by (auto simp: w(2) split: if_splits)
  obtain r2 w2 where d: "downloadQueues ?c ?srv ?fm w1 = (r2, w2)" by fastforce
  with download_keeps[OF u1(2) d] nonil have d1: "r2 = Inr ()" by (auto split: if_splits)
  have "client_run ?c ?srv ?fm sample_aflfuzzer ?w (([] @ [UploadTick 5]) @ [DownloadTick]) (Some w2)"
    using u d unfolding u1(1) d1
    by (intro client_run.step[OF client_run.step[OF client_run.start]] client_step.uploaded client_step.downloaded)
  then have run: "client_run ?c ?srv ?fm sample_aflfuzzer ?w [UploadTick 5, DownloadTick] (Some w2)" by simp
  have "uploads [UploadTick 5, DownloadTick :: nat client_event] = 1" "downloads [UploadTick 5, DownloadTick :: nat client_event] = 1"
    by (simp_all add: uploads_def downloads_def is_upload_def is_download_def)
  then show ?thesis using client_survives[OF run w(1)] run w by (intro exI[of _ w2]) simp
qed

end
