(* ===== verification/ClusterRun.thy ===== *)
theory ClusterRun
  imports ServerSpec ClientRun
begin

text \<open>
  A running client and the running server (\<open>client/state_uploader.go\<close> and \<open>client/queue_downloader.go\<close> against the
  handlers of \<open>server/server.go\<close>): the client's ticks, AFL's work and what else reaches the server, in any order. What the
  server goes through is a run of \<open>ServerRun\<close>, the client's requests being some of its events, so all that holds
  of such runs holds here; and the client goes on as well.
\<close>

subsection \<open>Names that went through JSON\<close>

lemma utf8_fix_chars: "is_ascii c \<Longrightarrow> c \<in> set (utf8_fix s) \<Longrightarrow> c \<in> set s"
proof -
  assume c: "is_ascii c" "c \<in> set (utf8_fix s)"
  have "list_all (\<lambda>x. \<not> is_ascii x) replacement" by code_simp
  then have "\<not> is_ascii x" if "x \<in> set replacement" for x using that by (auto simp: list_all_iff)
  then obtain r where "r \<in> set (runes s)" "c \<in> set r"
    using c by (auto simp: utf8_fix_def split: if_splits)
  then have "c \<in> set (concat (runes s))" unfolding set_concat by blast
  then show ?thesis by simp
qed

lemma utf8_fix_ascii: "list_all is_ascii (utf8_fix s) \<Longrightarrow> utf8_fix s = s"
proof (induction s)
  case (Cons c s)
  show ?case
  proof (cases "is_ascii c")
    case True
    then show ?thesis using Cons by (simp add: utf8_fix_Cons)
  next
    case False
    have "\<not> list_all is_ascii replacement" by code_simp
    moreover have "\<not> list_all is_ascii (take (rune_len (c # s)) (c # s))"
      using False rune_len_pos[of "c # s"] by (cases "rune_len (c # s)") simp_all
    ultimately show ?thesis using Cons.prems False unfolding utf8_fix_Cons by (simp only: if_False list_all_append simp_thms split: if_splits)
  qed
qed simp

lemma utf8_fix_valid: "valid_name n \<Longrightarrow> valid_name (utf8_fix n)"
proof -
  assume n: "valid_name n"
  have a: "is_ascii slash" "is_ascii (CHR 0x00)" "list_all is_ascii []" "list_all is_ascii ''.''" "list_all is_ascii ''..''" by code_simp+
  have "slash \<notin> set (utf8_fix n)" "CHR 0x00 \<notin> set (utf8_fix n)"
    using n utf8_fix_chars[of slash n] utf8_fix_chars[of "CHR 0x00" n] a by (auto simp: valid_name_def)
  moreover have "utf8_fix n \<noteq> t" if "t \<in> {[], ''.'', ''..''}" for t
    using that n utf8_fix_ascii[of n] a by (auto simp: valid_name_def)
  ultimately show ?thesis by (simp add: valid_name_def)
qed

lemma good_report_fix: "good_report st \<Longrightarrow> good_report (fix_State st)"
  by (auto simp: good_report_def good_names_def fix_State_def fix_output_def fix_corpus_def fix_input_def list_all_iff
      split: option.splits intro: utf8_fix_valid)

subsection \<open>Requests\<close>

lemma server_run_append: "server_run sv1 es2 out \<Longrightarrow> server_run sv es1 (Some sv1) \<Longrightarrow> server_run sv (es1 @ es2) out"
proof (induction rule: server_run.induct)
  case (step sv1 es sv2 e out)
  then show ?case by (metis append.assoc server_run.step)
qed simp

text \<open>The server behind the network goes through a run of harmless events.\<close>

definition serves_on ::
  "path \<Rightarrow> path option \<Rightarrow> map_order \<Rightarrow> string \<Rightarrow> int \<Rightarrow> ('t3, ('s3, 'z) server_scheme option, 'y) client_world_scheme \<Rightarrow>
   ('t3, ('s3, 'z) server_scheme option, 'y) client_world_scheme \<Rightarrow> bool" where
  "serves_on bs ar ord host now w w' \<longleftrightarrow> (\<forall>sv. connected go_server_codec ord host now sv w \<longrightarrow> server_tidy bs ar sv \<longrightarrow>
     (\<exists>es sv'. connected go_server_codec ord host now sv' w' \<and> server_run sv es (Some sv') \<and> (\<forall>e\<in>set es. harmless e)))"

lemma serves_onD:
  assumes "serves_on bs ar ord host now w w'" and "connected go_server_codec ord host now sv w" and "server_tidy bs ar sv"
  obtains es sv' where "connected go_server_codec ord host now sv' w'" and "server_run sv es (Some sv')"
    and "\<forall>e\<in>set es. harmless e" and "server_tidy bs ar sv'"
  using assms server_run_tidy unfolding serves_on_def by blast

lemma serves_on_same: "net w' = net w \<Longrightarrow> net_do w' = net_do w \<Longrightarrow> net_new_request w' = net_new_request w \<Longrightarrow> serves_on bs ar ord host now w w'"
  unfolding serves_on_def connected_def by (metis empty_iff empty_set server_run.start)

lemma serves_on_trans: "serves_on bs ar ord host now u v \<Longrightarrow> serves_on bs ar ord host now v w \<Longrightarrow> serves_on bs ar ord host now u w"
  unfolding serves_on_def
proof (intro allI impI)
  fix sv assume uv: "\<forall>sv. connected go_server_codec ord host now sv u \<longrightarrow> server_tidy bs ar sv \<longrightarrow>
      (\<exists>es sv'. connected go_server_codec ord host now sv' v \<and> server_run sv es (Some sv') \<and> (\<forall>e\<in>set es. harmless e))"
    and vw: "\<forall>sv. connected go_server_codec ord host now sv v \<longrightarrow> server_tidy bs ar sv \<longrightarrow>
      (\<exists>es sv'. connected go_server_codec ord host now sv' w \<and> server_run sv es (Some sv') \<and> (\<forall>e\<in>set es. harmless e))"
    and sv: "connected go_server_codec ord host now sv u" "server_tidy bs ar sv"
  obtain es sv1 where 1: "connected go_server_codec ord host now sv1 v" "server_run sv es (Some sv1)" "\<forall>e\<in>set es. harmless e"
    using uv sv by blast
  then have "server_tidy bs ar sv1" using server_run_tidy[OF 1(2,3) sv(2)] by simp
  then obtain es' sv2 where 2: "connected go_server_codec ord host now sv2 w" "server_run sv1 es' (Some sv2)" "\<forall>e\<in>set es'. harmless e"
    using vw 1(1) by blast
  then show "\<exists>es sv'. connected go_server_codec ord host now sv' w \<and> server_run sv es (Some sv') \<and> (\<forall>e\<in>set es. harmless e)"
    using server_run_append[OF 2(2) 1(2)] 1(3) by (intro exI[of _ "es @ es'"] exI[of _ sv2]) auto
qed

text \<open>A request whose body is whole or, at a retry, used up.\<close>

definition harmless_request :: "map_order \<Rightarrow> string \<Rightarrow> int \<Rightarrow> request \<Rightarrow> bool" where
  "harmless_request ord host now req \<longleftrightarrow> (\<exists>b. ContentLength req = length b \<and> (ReqBody req = b \<or> ReqBody req = []) \<and>
     harmless (Request ord now (Method req) (drop (length host) (Url req)) b))"

lemma served:
  assumes "server_tidy bs ar sv" and "harmless_request ord host now req"
    and "serve go_server_codec ord host now req (Some sv) = (r, rest, n)"
  shows "\<exists>es sv'. n = Some sv' \<and> server_run sv es (Some sv') \<and> (\<forall>e\<in>set es. harmless e) \<and>
    harmless_request ord host now (req\<lparr>ReqBody := rest\<rparr>)"
proof (cases "length (ReqBody req) < ContentLength req")
  case True
  then show ?thesis using assms(2,3) server_run.start[of sv] by (auto simp: serve_def harmless_request_def intro!: exI[of _ "[]"])
next
  case False
  obtain b where b: "ContentLength req = length b" "ReqBody req = b \<or> ReqBody req = []"
      "harmless (Request ord now (Method req) (drop (length host) (Url req)) b)"
    using assms(2) unfolding harmless_request_def by blast
  then have body: "ReqBody req = b" using False by auto
  let ?e = "Request ord now (Method req) (drop (length host) (Url req)) b"
  obtain x sv' where d: "dispatch go_server_codec ord now (Method req) (drop (length host) (Url req)) b sv = (x, sv')"
      "\<forall>m. x \<noteq> Inl (Fatal m)"
    using dispatch_tidy[OF assms(1) b(3)] by blast
  then have step: "server_step sv ?e (Some sv')" by (cases x) (auto intro: server_step.intros)
  have "n = Some sv'" "rest = []"
    using assms(3) False d unfolding serve_def body by (auto split: sum.splits fault.splits)
  moreover have "server_run sv ([] @ [?e]) (Some sv')" by (rule server_run.step[OF server_run.start step])
  moreover have "harmless_request ord host now (req\<lparr>ReqBody := []\<rparr>)"
    using b by (auto simp: harmless_request_def)
  ultimately show ?thesis using b(3) by (intro exI[of _ "[?e]"] exI[of _ sv']) auto
qed

lemma attempt_serves:
  assumes "connected go_server_codec ord host now sv w" and "server_tidy bs ar sv" and "harmless_request ord host now req"
    and "attempt req w = (a, req', w')"
  shows "serves_on bs ar ord host now w w' \<and> harmless_request ord host now req'"
proof -
  have w: "net w = Some sv" "net_do w = serve go_server_codec ord host now" "net_new_request w = (\<lambda>_ _. None)"
    using assms(1) by (simp_all add: connected_def)
  obtain r rest n where s: "serve go_server_codec ord host now req (Some sv) = (r, rest, n)"
    by (cases "serve go_server_codec ord host now req (Some sv)")
  then have w': "w' = w\<lparr>net := n, c_log := c_log w @ [Sent req]\<rparr>" "req' = req\<lparr>ReqBody := rest\<rparr>"
    using assms(4) by (simp_all add: attempt_def w)
  obtain es sv' where sv': "n = Some sv'" "server_run sv es (Some sv')" "\<forall>e\<in>set es. harmless e"
      "harmless_request ord host now (req\<lparr>ReqBody := rest\<rparr>)"
    using served[OF assms(2,3) s] by blast
  have "serves_on bs ar ord host now w w'"
    unfolding serves_on_def
    using sv'(1-3) w by (auto simp: w' connected_def)
  then show ?thesis using sv'(4) w'(2) by simp
qed

lemma makeRequest_loop_serves:
  "makeRequest_loop s t req w = (r, w') \<Longrightarrow> connected go_server_codec ord host now sv w \<Longrightarrow> server_tidy bs ar sv \<Longrightarrow>
   harmless_request ord host now req \<Longrightarrow> serves_on bs ar ord host now w w'"
proof (induction s t req w arbitrary: sv rule: makeRequest_loop_induct)
  case (round s t req w)
  obtain a req1 w1 where a: "attempt req w = (a, req1, w1)" by (cases "attempt req w")
  have w1: "serves_on bs ar ord host now w w1" "harmless_request ord host now req1"
    using attempt_serves[OF round(3-5) a] by simp_all
  show ?case
  proof (cases "a = None \<and> \<not> maxRetries s \<le> t + 1")
    case True
    then have a: "attempt req w = (None, req1, w1)" "\<not> maxRetries s \<le> t + 1" using a by simp_all
    then have rest: "makeRequest_loop s (t + 1) req1 (sleep (retryDelay s) w1) = (r, w')"
      using round(2) by (simp add: makeRequest_loop_rounds)
    obtain es sv1 where "connected go_server_codec ord host now sv1 w1" and sv1: "server_tidy bs ar sv1"
      by (rule serves_onD[OF w1(1) round(3,4)])
    then have "connected go_server_codec ord host now sv1 (sleep (retryDelay s) w1)" by (simp add: connected_def sleep_def)
    from round(1)[OF a rest this sv1 w1(2)] have "serves_on bs ar ord host now (sleep (retryDelay s) w1) w'" .
    moreover have "serves_on bs ar ord host now w1 (sleep (retryDelay s) w1)" by (rule serves_on_same) (simp_all add: sleep_def)
    ultimately show ?thesis using w1(1) serves_on_trans by blast
  next
    case False
    then have "w' = w1" using round(2) a by (cases a) (auto simp: makeRequest_loop_rounds)
    then show ?thesis using w1(1) by simp
  qed
qed

lemma makeRequest_serves:
  assumes "makeRequest s method path body w = (r, w')" and "server_tidy bs ar sv"
    and "harmless (Request ord now method (''/'' @ path) (case body of None \<Rightarrow> [] | Some b \<Rightarrow> b))"
    and "connected go_server_codec ord (hostport s) now sv w"
  shows "serves_on bs ar ord (hostport s) now w w'"
proof -
  let ?b = "case body of None \<Rightarrow> [] | Some b \<Rightarrow> b"
  let ?req = "\<lparr>Method = method, Url = hostport s @ ''/'' @ path, ReqBody = ?b, ContentLength = length ?b\<rparr>"
  have "makeRequest_loop s 0 ?req w = (r, w')" using assms(1,4) by (simp add: makeRequest_def connected_def Let_def)
  moreover have "harmless_request ord (hostport s) now ?req" using assms(3) by (auto simp: harmless_request_def)
  ultimately show ?thesis using makeRequest_loop_serves assms(2,4) by blast
qed

subsection \<open>The client's ticks\<close>

text \<open>A fuzzer's disk: files below directories, and a reachable output directory.\<close>

definition client_disk :: "path \<Rightarrow> string \<Rightarrow> fs \<Rightarrow> bool" where
  "client_disk as fid fs \<longleftrightarrow> fs_wf fs \<and> valid_names (fs_cwd fs) \<and> fs_reach fs (out_path as fid)"

text \<open>What is read from it is a good report.\<close>

lemma ReadState_good:
  assumes "FileManager f = mgr as fid" and "FuzzerId f = fid" and "valid_names as" and "valid_name fid" and "client_disk as fid fs"
    and "ReadState f fs = (Inr st, fs')"
  shows "good_report st"
proof -
  have wf: "fs_wf fs" and reach: "fs_reach fs (out_path as fid)" and ok: "fuzzer_ok fid"
    using assms(4,5) by (simp_all add: client_disk_def fuzzer_ok_def)
  have ready: "out_ready fs (out_path as fid)"
  proof (rule ccontr)
    assume "\<not> out_ready fs (out_path as fid)"
    then show False using ReadOutput_not_ready[OF assms(3) ok wf reach] assms(1,6) by (auto simp: ReadState_def go_try_def)
  qed
  show ?thesis
    using assms(1,2,4,6) ReadOutput_ok[OF assms(3) ok ready] corpus_of_valid[OF wf]
    by (auto simp: ReadState_def go_try_def good_report_def good_names_def list_all_iff split: sum.splits prod.splits)
qed

lemma upload_serves:
  fixes w :: "('t3, ('s3, 'z) server_scheme option, 'y) fuzz_world_scheme"
  assumes f: "FileManager f = mgr as fid" "FuzzerId f = fid" "valid_names as" "valid_name fid" "client_disk as fid (w_fs w)"
    and "proc w = Running" and conn: "connected go_server_codec ord (hostport srv) now sv w" and sv: "server_tidy bs ar sv"
    and ord: "range_order ord" and "uploadState marshal_state srv elapsed f w = (r, w')"
  shows "serves_on bs ar ord (hostport srv) now w w'"
proof -
  let ?R = "serves_on bs ar ord (hostport srv) now" and ?w1 = "w\<lparr>proc := Paused, c_log := c_log w @ [Signalled SIGSTOP]\<rparr>"
  note same = serves_on_same[where bs = bs and ar = ar and ord = ord and host = "hostport srv" and now = now]
  have st: "stop w = (Inr (), ?w1)" using assms(6) by (simp add: stop_def send_signal_def)
  obtain x w2 where b: "upload_body marshal_state srv f ?w1 = (x, w2)" by (cases "upload_body marshal_state srv f ?w1")
  have body: "?R ?w1 w2"
  proof (cases "ReadState f (w_fs w)")
    case (Pair y fs')
    then have fs': "fs' = w_fs w" using ReadState_frame by blast
    then have rs: "on_fs (ReadState f) ?w1 = (y, ?w1)" using Pair by (intro on_fs_same) simp
    show ?thesis
    proof (cases y)
      case (Inl e)
      then show ?thesis using b rs by (cases e) (auto simp: upload_body_def Submit_ok intro!: same)
    next
      case (Inr st)
      have good: "good_report st" using ReadState_good[OF f] Pair Inr by simp
      obtain z w3 where u: "UploadState marshal_state srv st ?w1 = (z, w3)" by (cases "UploadState marshal_state srv st ?w1")
      have "?R ?w1 w3"
      proof (cases "marshal_state st")
        case (Inl e)
        then show ?thesis using u by (auto simp: UploadState_def go_fail_def intro!: same)
      next
        case (Inr json)
        then have "good_report (decode_state json)" using marshalled_state good good_report_fix by simp
        then have "harmless (Request ord now ''POST'' (''/'' @ ''state'') (case Some json of None \<Rightarrow> [] | Some b \<Rightarrow> b))"
          using ord by (simp add: harmless_def)
        moreover have "connected go_server_codec ord (hostport srv) now sv ?w1" using conn by (simp add: connected_def)
        moreover obtain z' where "makeRequest srv ''POST'' ''state'' (Some json) ?w1 = (z', w3)"
          using u Inr by (cases "makeRequest srv ''POST'' ''state'' (Some json) ?w1") (auto simp: UploadState_def go_try_def split: sum.splits)
        ultimately show ?thesis using makeRequest_serves sv by blast
      qed
      moreover have "?R w3 w2" using b rs u Inr
        by (cases z) (auto simp: upload_body_def Submit_ok split: fault.splits intro!: same)
      ultimately show ?thesis by (rule serves_on_trans)
    qed
  qed
  have last: "snd (go_defer m d s) = snd (m s) \<or> snd (go_defer m d s) = snd (d (snd (m s)))"
    for m :: "('t3, ('s3, 'z) server_scheme option, 'y, unit) fgo" and d s
    by (auto simp: go_defer_def split: prod.splits sum.splits fault.splits)
  have signal: "?R v (snd (start_fuzzer v))" for v :: "('t3, ('s3, 'z) server_scheme option, 'y) fuzz_world_scheme"
    by (rule same) (auto simp: start_fuzzer_def send_signal_def split: proc.split)
  have gauge: "?R v (snd (SubmitMetricGauge n x tg v))" for n x tg and v :: "('t3, ('s3, 'z) server_scheme option, 'y) fuzz_world_scheme"
    by (rule same) (simp_all add: Submit_ok)
  have "?R ?w1 w'"
  proof -
    let ?gauge = "SubmitMetricGauge ''state_uploader.upload_state.time_paused_s'' (f32_of_f64 (secs_of_ns elapsed)) (metricTags f)"
    let ?m = "go_defer (upload_body marshal_state srv f) ?gauge"
    have "snd (?m ?w1) = w2 \<or> snd (?m ?w1) = snd (?gauge w2)"
      using last[of "upload_body marshal_state srv f" ?gauge ?w1] by (simp add: b)
    then have m: "?R ?w1 (snd (?m ?w1))" using body serves_on_trans[OF body gauge] by auto
    have "w' = snd (go_defer ?m start_fuzzer ?w1)" using assms(10) st by (simp add: uploadState_def)
    then show ?thesis using last[of ?m start_fuzzer ?w1] m serves_on_trans[OF m signal] by auto
  qed
  moreover have "?R w ?w1" by (rule same) simp_all
  ultimately show ?thesis using serves_on_trans by blast
qed

lemma download_serves:
  fixes w :: "('t3, ('s3, 'z) server_scheme option, 'y) fuzz_world_scheme"
  assumes conn: "connected go_server_codec ord (hostport srv) now sv w" and sv: "server_tidy bs ar sv"
    and utf8: "map_utf8 (fleet_queues (w_fs sv) bs)" and ord: "range_order ord" "queue_order qord"
    and run: "downloadQueues (go_codec qord) srv (fleet cs) w = (r, w')"
  shows "\<not> nil_queue (go_codec qord) srv w" "serves_on bs ar ord (hostport srv) now w w'" "fs_grows (w_fs w) (w_fs w')"
proof -
  let ?qs = "server_queues (w_fs sv) bs"
  have "dispatch go_server_codec ord now ''GET'' (''/'' @ ''queue'') (case None of None \<Rightarrow> [] | Some b \<Rightarrow> b) sv =
      (Inr (ok_response (json_line (encode_queues ?qs))), sv)"
    using queues_sent[OF sv] by simp
  from makeRequest_connected[OF conn this] obtain acts where
    req: "makeRequest srv ''GET'' ''queue'' None w =
      (Inr (ok_response (json_line (encode_queues ?qs))), w\<lparr>net := Some sv, c_log := c_log w @ acts\<rparr>)"
    by (auto simp: ok_response_def)
  have "fleet_utf8 (w_fs sv) bs" using fleet_utf8_map[OF sv] utf8 by simp
  from queues_through_json[OF this ord(2)] obtain qs where
    "DecodeQueues (go_codec qord) (RespBody (ok_response (json_line (encode_queues ?qs)))) [] = some_queues qs"
    by (auto simp: go_server_codec_def ok_response_def)
  then have fetch: "FetchQueues (DecodeQueues (go_codec qord)) srv w =
      (Inr (some_queues qs), w\<lparr>net := Some sv, c_log := c_log w @ acts\<rparr>)"
    using req by (simp add: FetchQueues_def)
  then show "\<not> nil_queue (go_codec qord) srv w" by (auto simp: nil_queue_def some_queues_def list_ex_iff)
  obtain x fs' where x: "WriteQueues (fleet cs) (some_queues qs) (w_fs w) = (x, fs')" by fastforce
  then have "fs_grows (w_fs w) fs'" by (rule withinD[OF grows_WriteQueues])
  moreover have w': "w_fs w' = fs' \<and> net w' = Some sv \<and> net_do w' = net_do w \<and> net_new_request w' = net_new_request w"
    using run x by (auto simp: downloadQueues_def fetch on_fs_def download_fail_def Submit_ok split: sum.splits fault.splits)
  ultimately show "fs_grows (w_fs w) (w_fs w')" by simp
  show "serves_on bs ar ord (hostport srv) now w w'" using w' conn by (intro serves_on_same) (simp_all add: connected_def)
qed

subsection \<open>A client and the server\<close>

text \<open>
  A tick of the client, a change of its files by AFL or by hand, or an event at the server that does not come from this
  client; a server that has ended leaves nobody behind the network.
\<close>

datatype system_event =
    Upload int
  | Download
  | Files fs
  | AtServer server_event

inductive system_step ::
  "(queues \<Rightarrow> queues) \<Rightarrow> RovingServerClient \<Rightarrow> path \<Rightarrow> Fuzzer \<Rightarrow> ('t3, ('s3, 'z) server_scheme option, 'y) fuzz_world_scheme \<Rightarrow>
   system_event \<Rightarrow> ('t3, ('s3, 'z) server_scheme option, 'y) fuzz_world_scheme option \<Rightarrow> bool"
  for qord :: "queues \<Rightarrow> queues" and srv :: RovingServerClient and cs :: path and f :: Fuzzer where
  uploads: "client_step (go_codec qord) srv (fleet cs) f w (UploadTick elapsed) out \<Longrightarrow> system_step qord srv cs f w (Upload elapsed) out"
| downloads: "client_step (go_codec qord) srv (fleet cs) f w DownloadTick out \<Longrightarrow> system_step qord srv cs f w Download out"
| files: "system_step qord srv cs f w (Files fs) (Some (w\<lparr>w_fs := fs\<rparr>))"
| serves: "net w = Some sv \<Longrightarrow> server_step sv e n \<Longrightarrow> system_step qord srv cs f w (AtServer e) (Some (w\<lparr>net := n\<rparr>))"

inductive system_run ::
  "(queues \<Rightarrow> queues) \<Rightarrow> RovingServerClient \<Rightarrow> path \<Rightarrow> Fuzzer \<Rightarrow> ('t3, ('s3, 'z) server_scheme option, 'y) fuzz_world_scheme \<Rightarrow>
   system_event list \<Rightarrow> ('t3, ('s3, 'z) server_scheme option, 'y) fuzz_world_scheme option \<Rightarrow> bool"
  for qord :: "queues \<Rightarrow> queues" and srv :: RovingServerClient and cs :: path and f :: Fuzzer where
  start: "system_run qord srv cs f w [] (Some w)"
| step: "system_run qord srv cs f w es (Some w1) \<Longrightarrow> system_step qord srv cs f w1 e out \<Longrightarrow> system_run qord srv cs f w (es @ [e]) out"

inductive_cases system_run_nilE: "system_run qord srv cs f w [] out"
inductive_cases client_uploadE: "client_step c srv fm f w (UploadTick elapsed) out"
inductive_cases client_downloadE: "client_step c srv fm f w DownloadTick out"

definition quiet_event :: "path \<Rightarrow> string \<Rightarrow> system_event \<Rightarrow> bool" where
  "quiet_event as fid e = (case e of Files fs \<Rightarrow> client_disk as fid fs | AtServer e \<Rightarrow> harmless e | _ \<Rightarrow> True)"

definition server_events :: "system_event list \<Rightarrow> server_event list" where
  "server_events es = concat (map (\<lambda>e. case e of AtServer e \<Rightarrow> [e] | _ \<Rightarrow> []) es)"

text \<open>What holds while both are up, \<open>sv0\<close> being the server at the start.\<close>

definition both_up ::
  "path \<Rightarrow> path option \<Rightarrow> map_order \<Rightarrow> int \<Rightarrow> RovingServerClient \<Rightarrow> path \<Rightarrow> string \<Rightarrow> ('s3, 'z) server_scheme \<Rightarrow>
   system_event list \<Rightarrow> ('t3, ('s3, 'z) server_scheme option, 'y) fuzz_world_scheme \<Rightarrow> bool" where
  "both_up bs ar ord now srv as fid sv0 es w \<longleftrightarrow> proc w = Running \<and> client_disk as fid (w_fs w) \<and>
     (\<exists>ses sv. connected go_server_codec ord (hostport srv) now sv w \<and> server_tidy bs ar sv \<and>
        map_utf8 (fleet_queues (w_fs sv) bs) \<and> server_run sv0 ses (Some sv) \<and> (\<forall>e\<in>set ses. harmless e) \<and>
        subseq (server_events es) ses)"

lemma both_up_on:
  assumes "both_up bs ar ord now srv as fid sv0 es w" and "serves_on bs ar ord (hostport srv) now w w'"
    and "proc w' = Running" and "client_disk as fid (w_fs w')" and "server_events [e] = []"
  shows "both_up bs ar ord now srv as fid sv0 (es @ [e]) w'"
proof -
  obtain ses sv where sv: "connected go_server_codec ord (hostport srv) now sv w" "server_tidy bs ar sv"
      "map_utf8 (fleet_queues (w_fs sv) bs)" "server_run sv0 ses (Some sv)" "\<forall>e\<in>set ses. harmless e" "subseq (server_events es) ses"
    using assms(1) by (auto simp: both_up_def)
  obtain ses' sv' where sv': "connected go_server_codec ord (hostport srv) now sv' w'" "server_run sv ses' (Some sv')"
      "\<forall>e\<in>set ses'. harmless e" "server_tidy bs ar sv'"
    by (rule serves_onD[OF assms(2) sv(1,2)])
  have "map_utf8 (fleet_queues (w_fs sv') bs)" using server_run_tidy[OF sv'(2,3) sv(2)] map_utf8_run[OF sv(3)] by simp
  moreover have "server_events (es @ [e]) = server_events es" using assms(5) by (simp add: server_events_def)
  moreover have "subseq (server_events es @ []) (ses @ ses')" by (rule list_emb_append_mono[OF sv(6) list_emb_Nil])
  ultimately show ?thesis
    using assms(3,4) sv' sv(5) server_run_append[OF sv'(2) sv(4)]
    by (auto simp: both_up_def intro!: exI[of _ "ses @ ses'"] exI[of _ sv'])
qed

lemma client_disk_grows: "client_disk as fid fs \<Longrightarrow> fs_grows fs fs' \<Longrightarrow> client_disk as fid fs'"
  using fs_reach_cong[of fs' fs "out_path as fid"] by (simp add: client_disk_def fs_grows_def)

lemma system_step_up:
  fixes w :: "('t3, ('s3, 'z) server_scheme option, 'y) fuzz_world_scheme"
  assumes f: "FileManager f = mgr as fid" "FuzzerId f = fid" "valid_names as" "valid_name fid"
    and ord: "range_order ord" "queue_order qord"
    and up: "both_up bs ar ord now srv as fid sv0 es w" and quiet: "quiet_event as fid e"
    and step: "system_step qord srv cs f w e out"
  shows "(\<exists>w'. out = Some w' \<and> both_up bs ar ord now srv as fid sv0 (es @ [e]) w') \<or>
    out = None \<and> (\<exists>t. e = Upload t) \<and> stats_torn f (w_fs w)"
proof -
  obtain ses sv where w: "proc w = Running" "client_disk as fid (w_fs w)"
    and sv: "connected go_server_codec ord (hostport srv) now sv w" "server_tidy bs ar sv"
      "map_utf8 (fleet_queues (w_fs sv) bs)" "server_run sv0 ses (Some sv)" "\<forall>e\<in>set ses. harmless e" "subseq (server_events es) ses"
    using up by (auto simp: both_up_def)
  have marshal: "Marshal (go_codec qord) = marshal_state" by (simp add: go_codec_def)
  show ?thesis using step
  proof cases
    case (uploads t)
    obtain r w' where u: "uploadState marshal_state srv t f w = (r, w')" by (cases "uploadState marshal_state srv t f w")
    note k = upload_keeps[of w "go_codec qord", unfolded marshal, OF w(1) u]
    have "serves_on bs ar ord (hostport srv) now w w'" using upload_serves[OF f w(2,1) sv(1,2) ord(1) u] .
    then have "both_up bs ar ord now srv as fid sv0 (es @ [e]) w'" if "r = Inr ()"
      using that k w(2) uploads(1) by (intro both_up_on[OF up]) (simp_all add: server_events_def)
    moreover have "out = (if r = Inr () then Some w' else None)"
      using uploads(2) u by (elim client_uploadE) (simp_all add: marshal)
    ultimately show ?thesis using k uploads(1) by (cases "r = Inr ()") auto
  next
    case downloads
    obtain r w' where d: "downloadQueues (go_codec qord) srv (fleet cs) w = (r, w')"
      by (cases "downloadQueues (go_codec qord) srv (fleet cs) w")
    note s = download_serves[OF sv(1-3) ord d]
    have k: "r = Inr ()" "proc w' = Running" using download_keeps[OF w(1) d] s(1) by (auto split: if_splits)
    have "both_up bs ar ord now srv as fid sv0 (es @ [e]) w'"
      using both_up_on[OF up s(2) k(2) client_disk_grows[OF w(2) s(3)], of e] downloads(1) by (simp add: server_events_def)
    moreover have "out = Some w'" using downloads(2) d k(1) by (elim client_downloadE) simp_all
    ultimately show ?thesis by simp
  next
    case (files fs)
    have "serves_on bs ar ord (hostport srv) now w (w\<lparr>w_fs := fs\<rparr>)" by (rule serves_on_same) simp_all
    then have "both_up bs ar ord now srv as fid sv0 (es @ [e]) (w\<lparr>w_fs := fs\<rparr>)"
      using w(1) quiet files(1) by (intro both_up_on[OF up]) (simp_all add: server_events_def quiet_event_def)
    then show ?thesis using files(2) by simp
  next
    case (serves sv1 e1 n)
    have eq: "sv1 = sv" using serves(3) sv(1) by (simp add: connected_def)
    have h: "harmless e1" using quiet serves(1) by (simp add: quiet_event_def)
    obtain sv' where sv': "n = Some sv'" "server_tidy bs ar sv'" "fleet_queues (w_fs sv') bs = server_spec e1 (fleet_queues (w_fs sv) bs)"
      using server_step_tidy[OF sv(2) h serves(4)[unfolded eq]] by blast
    have "connected go_server_codec ord (hostport srv) now sv' (w\<lparr>net := n\<rparr>)" using sv(1) sv'(1) by (simp add: connected_def)
    moreover have "server_run sv0 (ses @ [e1]) (Some sv')" using server_run.step[OF sv(4)] serves(4) eq sv'(1) by simp
    moreover have "subseq (server_events (es @ [e])) (ses @ [e1])"
      using list_emb_append_mono[OF sv(6), of "[e1]" "[e1]"] serves(1) by (simp add: server_events_def)
    moreover have "map_utf8 (fleet_queues (w_fs sv') bs)" using sv'(3) sv(3) map_utf8_spec by simp
    ultimately have "both_up bs ar ord now srv as fid sv0 (es @ [e]) (w\<lparr>net := n\<rparr>)"
      using w sv'(2) sv(5) h by (auto simp: both_up_def intro!: exI[of _ "ses @ [e1]"] exI[of _ sv'])
    then show ?thesis using serves(2) by simp
  qed
qed

lemma system_run_up:
  assumes "system_run qord srv cs f w es out"
    and f: "FileManager f = mgr as fid" "FuzzerId f = fid" "valid_names as" "valid_name fid"
    and ord: "range_order ord" "queue_order qord"
    and up: "both_up bs ar ord now srv as fid sv0 [] w" and "\<forall>e\<in>set es. quiet_event as fid e"
  shows "case out of Some w' \<Rightarrow> both_up bs ar ord now srv as fid sv0 es w'
    | None \<Rightarrow> \<exists>es' t w'. es = es' @ [Upload t] \<and> system_run qord srv cs f w es' (Some w') \<and> stats_torn f (w_fs w')"
  using assms(1,8,9)
proof (induction rule: system_run.induct)
  case (step w es w1 e out)
  then have "both_up bs ar ord now srv as fid sv0 es w1" by simp
  from system_step_up[OF f ord this _ step.hyps(2)] step show ?case by fastforce
qed simp

end
