(* ===== verification/Spec2Isabelle.thy ===== *)
theory Spec2Isabelle
  imports Cmd Admin NodesLocks ServerRaces ServerArchive ClusterRun
begin

text \<open>
  Roving runs the fuzzer AFL on many machines and lets the machines share what they find. One server and
  some clients make a cluster; a client runs several fuzzers. Each fuzzer periodically uploads its state
  (its AFL statistics and the files of its queue, crashes and hangs) to the server, which stores the files
  below its working directory, archives new crashes and keeps a table of the fuzzers' statistics. Each
  client periodically downloads the queues of all fuzzers, so that AFL picks up what the others found.
  This development translates the Go code under \<open>src/types\<close>, \<open>src/server\<close>, \<open>src/client\<close> and \<open>src/cmd\<close>
  function by function and proves what makes each part correct.

  \<^bold>\<open>How the code is written down.\<close> A Go function without effects is a HOL function. A function with effects
  takes the state and gives a result and the new state (\<open>GoBase\<close>, type \<open>go\<close>); the result is a value or a
  fault: an error that is returned, a \<open>log.Fatal\<close>, which ends the process, or a run-time panic. A struct is a
  record, a nil pointer is \<open>None\<close>, a byte is \<open>8 word\<close>, a \<open>uint64\<close> is \<open>64 word\<close>, floats are their IEEE bit
  patterns, and a map is an association list in the order a range loop visits it. A method both file managers
  have gets the suffix \<open>_fleet\<close> in the second, and one both archivers have \<open>_disk\<close> or \<open>_s3\<close>.

  \<^bold>\<open>The theories\<close>, from the bottom:
  \<^item> \<open>GoBase\<close>, \<open>GoPath\<close>, \<open>GoFS\<close>, \<open>GoStrconv\<close>, \<open>GoFloat\<close>: the part of Go's library the code uses (sequencing
    of effects and \<open>for range\<close> loops; \<open>path/filepath\<close>; the calls of \<open>os\<close> and \<open>ioutil\<close> over a tree of files;
    \<open>strings\<close> and \<open>strconv\<close>; \<open>ParseFloat\<close> with exact rounding). \<open>FSLaws\<close> has the laws of the file calls,
    and that each keeps the tree well formed and removes nothing.
  \<^item> \<open>GoUtf8\<close>, \<open>GoJson\<close>, \<open>GoFormat\<close>, \<open>GoBase64\<close>: runes, JSON texts (printing and parsing, and that a printed
    value is parsed back), numbers in their shortest form, base 64. \<open>Codec\<close> has the JSON of the program's structs
    on top of them, field by field, each an instance of the locale \<open>wire_format\<close>: what a client marshals the server decodes, and the other way round for the
    queues and the settings, except that bytes of texts that are no UTF-8 are replaced; and whatever bytes come in, the
    texts of the report or the queues that are decoded from them are UTF-8.
  \<^item> \<open>Corpus\<close> (\<open>types/types.go\<close>, the readers of \<open>types/files.go\<close>): inputs and corpora. The locale
    \<open>corpus_store\<close> is the contract of writing inputs into a directory, interpreted on the code's writer; a
    corpus written and read back is the corpus, what lies under other names stays, a shorter rewrite keeps
    the old tail.
  \<^item> \<open>Stats\<close> (\<open>types/stats.go\<close>): the parser of AFL's statistics equals a reference definition by lookups,
    panics exactly on a line without a colon, and reads back a rendered file.
  \<^item> \<open>AflFiles\<close> (\<open>types/files.go\<close>) and \<open>FleetFiles\<close> (\<open>types/fleet_file_manager.go\<close>): the directories of one
    fuzzer and of a fleet. Outputs and queues are read back as written; \<open>WriteQueues\<close> refines an update of
    the map from fuzzers to what their queues hold; reading the fleet gives all outputs or an error.
  \<^item> \<open>Metrics\<close> (\<open>types/metrics.go\<close>): samples, error reports, and the record \<open>world\<close>.
    \<open>Config\<close> (\<open>types/config.go\<close>): the settings, with an exact characterisation of what validation accepts.
  \<^item> \<open>Archiver\<close> (\<open>server/archiver.go\<close>): the three archivers, manifests and timestamped snapshots. The locale
    \<open>archive_store\<close> is the contract of an archiver that copies files, interpreted on the disk archiver; a
    manifest lists exactly the files below its root, and a snapshot holds all of them. The record \<open>surroundings\<close> is what
    the set-up asks of the machine: environment variables, the AWS session, listening at a port.
  \<^item> \<open>NodesModel\<close> (\<open>server/nodes.go\<close>, \<open>server/reaper.go\<close>, \<open>server/metrics_poller.go\<close>): the table of clients, a
    refinement of one map from a client to its statistics and the time of its last report; a client is reaped
    exactly when it has been silent for too long; the poller only reports. The first two follow from the contract \<open>client_table\<close>, a locale that the
    two maps and the reaper are an instance of.
    \<open>NodesLocks\<close> has the same calls as lists of lock operations and map accesses of threads that interleave
    freely: the calls that take the locks do not race, nothing deadlocks, and the reaper races. A waiting writer keeps
    new readers out, as in Go's \<open>sync.RWMutex\<close>.
  \<^item> \<open>Server\<close> (\<open>server/server.go\<close>): the package variables as one record, the handlers, the set-up. \<open>Admin\<close>
    (\<open>server/admin.go\<close>): the admin pages up to the text a template makes of its values, which is a field of the server's
    state and may fail, their helper functions and the loading of their templates, with
    the time stamps of \<open>GoTime\<close>.
  \<^item> \<open>ClientHttp\<close> (\<open>client/server_client.go\<close>): requests with their retries. \<open>Fuzzer\<close> (\<open>client/fuzzer.go\<close>,
    \<open>client/state_uploader.go\<close>): ids, the AFL command, pausing and resuming around an upload. \<open>ClientMain\<close>
    (\<open>client/client.go\<close>, \<open>client/queue_downloader.go\<close>): downloading queues, preparing and running fuzzers.
  \<^item> \<open>Cluster\<close>: all routes of the server, those of the clients and the admin pages; the server as the network of a client,
    with the JSON of \<open>Codec\<close> on both sides.
    \<open>ServerRun\<close>: the running server as a step relation, requests and ticks in any order, and what no step takes away.
    \<open>ArchiveFrame\<close>: the disk archiver changes files at the destinations of its manifest only, and does not fail.
    \<open>ServerSpec\<close>: without an archive, or with one on disk next to the fleet's directories, a run whose reports are well
    named refines one abstract map, from a fuzzer to the named inputs of its queue, which every complete report adds to, and
    no reported input is lost. Such a run does not end the server, under the conditions of \<open>harmless\<close> and \<open>server_tidy\<close>:
    the events come one at a time, no request is for the admin page of a single input, the pages can be rendered, and an
    archive has a positive interval. Without them it can end: \<open>input_page_can_end_server\<close>, \<open>archive_needs_interval\<close> of
    \<open>ServerRun\<close>, and the race of \<open>ServerRaces\<close>. \<open>ServerArchive\<close>: nor is a reported crash lost, of which the archive
    has a copy from then on. Of a run with an archive in S3, whose answers are open, there is
    \<open>server_run_keeps\<close> of \<open>ServerSpec\<close>. \<open>ServerRaces\<close>: two handlers at once, the first
    report of a fuzzer against another report. \<open>ClientRun\<close>: the running client, the ticks of its uploader and its downloader
    in any order, and what can end it. \<open>ClusterRun\<close>: client and server together, where all the client's requests are
    events of a run of the server. \<open>GoFlag\<close>: package \<open>flag\<close>, with the parsers of integers and
    durations. \<open>Cmd\<close> (\<open>cmd/\<close>): the programs, from their command lines. This theory: an input travels from one
    fuzzer through the server to another client, whatever the server does in between, and a client and the server keep
    each other going.

  \<^bold>\<open>States.\<close> The record \<open>world\<close> (files, events sent to the metrics and error services, the S3 client) is
  extended by \<open>node_world\<close> with the table of clients, by \<open>server\<close> with the server's package variables, and on the
  other side by \<open>client_world\<close> with the network and a log of what was sent, and by \<open>fuzz_world\<close> with the life of
  the AFL process. An operation on files alone is lifted by \<open>on_fs\<close>.

  \<^bold>\<open>The environment\<close> is not defined here and is a parameter wherever it is used: what the network answers,
  the S3 calls, the metrics library, what AFL does while it runs, the clock, the order of map
  iteration, the host name, the random source, the rendering of templates. What a theorem relies on is a
  hypothesis of it, such as that the iteration order is a rearrangement. The handlers and the client's calls take
  the JSON they use as an argument; \<open>Cluster\<close> passes them the real one, \<open>go_server_codec\<close> and \<open>go_codec\<close>.

  \<^bold>\<open>Bounds.\<close> The loops are recursive functions with measures: the retry loop by the number of tries that are
  left, the digit and bit loops by the number. The walk of a directory takes fuel, and is called with
  one more than the number of entries of the file tree, which bounds the depth of any path below the root;
  that the manifest is complete is proved for this fuel. The JSON parser takes the length of the text as fuel,
  which is proved to be enough for every text (\<open>parse_json_fuel\<close>), and stops at 10000 nested values as the Go
  package does; the shortest text of a float is searched with up to 17 digits, which tell all doubles apart. Endless loops (uploader, downloader, reaper,
  poller, archiver) are run for the rounds given by a list of times or of environment steps.

  \<^bold>\<open>Not modelled\<close>:
  \<^item> \<open>html/template\<close> with the files of
    \<open>server/templates\<close>, HTTP framing and time-outs;
  \<^item> symbolic links, device errors and full disks; goroutine scheduling outside the locks of the table (handlers
    and periodic tasks are atomic steps elsewhere, but for the race of \<open>ServerRaces\<close>); the pipes to the AFL process;
  \<^item> messages of \<open>log.Printf\<close>, which nothing reads; \<open>server/dummy.go\<close>, which declares a variable for the build; tests, build
    files, and the example targets, which are programs to fuzz.
\<close>

text \<open>
  An input one fuzzer has found reaches the other clients byte for byte. A client uploads the
  state of its fuzzer to a server without an archive, and its fuzzer runs again; then a client without
  output downloads the queues: every file of the fuzzer's queue that the server did not have under that
  name (README.txt apart) is in the second client's copy of that queue, with the same content. Everything in
  between is the code's: the state goes through JSON, HTTP, the server's files and JSON again; names are UTF-8,
  and the numbers in the statistics are ones JSON can hold.
\<close>

theorem cluster_sync:
  fixes wa :: "('t3, ('s3, 'z) server_scheme option, 'y) fuzz_world_scheme"
    and wb :: "('u3, ('s3, 'z) server_scheme option, 'x) client_world_scheme"
  assumes fuzzer: "FileManager f = mgr as fid" "FuzzerId f = fid" "valid_names as" "valid_name fid"
      "out_ready (w_fs wa) (out_path as fid)" "ReadFuzzerStats (mgr as fid) (w_fs wa) = (Inr st, w_fs wa)"
      "proc wa \<in> {Running, Paused}"
    and network: "connected go_server_codec ord (hostport srv) now sv wa"
      "net_do wb = serve go_server_codec ord (hostport srv) now" "net_new_request wb = (\<lambda>_ _. None)"
    and server: "fileManager sv = fleet bs" "archiver sv = NullArchiver" "range_order ord"
      "server_ready (w_fs sv) bs" "post_fits (w_fs sv) bs (w_fs wa) as fid"
    and json: "marshal_state (disk_report (w_fs wa) as fid st) = Inr json" "state_utf8 (disk_report (w_fs wa) as fid st)"
      "fleet_utf8 (w_fs sv) bs"
    and client: "valid_names cs" "fresh_dir (w_fs wb) (cs @ [''output''])" "queue_order qord"
  shows "\<exists>wa' wb'. uploadState marshal_state srv elapsed f wa = (Inr (), wa') \<and> proc wa' = Running \<and>
    downloadQueues (go_codec qord) srv (fleet cs) (wb\<lparr>net := net wa'\<rparr>) = (Inr (), wb') \<and>
    (\<forall>n b. dir_files (w_fs wa) (out_path as fid @ [''queue'']) n = Some b \<and> n \<noteq> readmeFilename \<and>
       dir_files (w_fs sv) (queue_path bs fid) n = None \<longrightarrow>
       dir_files (w_fs wb') (queue_path cs fid) n = Some b)"
proof -
  have dec: "DecodeState go_server_codec json = disk_report (w_fs wa) as fid st"
    using marshalled_state[OF json(1)] json(2) by (simp add: go_server_codec_def fix_State_utf8)
  let ?rep = "disk_report (w_fs wa) as fid st"
  obtain sv' where post: "postState ord now ?rep sv = (Inr (), sv')" and sv': "fileManager sv' = fleet bs"
      "outputs_ready (w_fs sv') bs" "set (fleet_ids (w_fs sv') bs) = insert fid (set (fleet_ids (w_fs sv) bs))"
      "dir_files (w_fs sv') (queue_path bs fid) = stored (dir_files (w_fs sv) (queue_path bs fid)) (disk_queue (w_fs wa) as fid)"
      "\<forall>g. g \<noteq> fid \<longrightarrow> dir_files (w_fs sv') (queue_path bs g) = dir_files (w_fs sv) (queue_path bs g)"
    using postState_null[OF server(1-4) fuzzer(4) server(5)[unfolded post_fits_def], of now st]
    unfolding disk_report_def by blast
  obtain wa' where up: "uploadState marshal_state srv elapsed f wa = (Inr (), wa')" "proc wa' = Running"
    and conn: "connected go_server_codec ord (hostport srv) now sv' wa'"
    using upload_connected[where marshal = marshal_state, OF fuzzer network(1) json(1) dec post] by blast
  have "fleet_utf8 (w_fs sv') bs"
    using fleet_utf8_report[OF json(3) _ _ _ sv'(3,4,5)] server(4) json(2)
    by (simp add: server_ready_def state_utf8_def disk_report_def report_def full_output_def)
  then obtain qs where qs: "DecodeQueues (go_codec qord)
      \<lparr>Content = EncodeJson go_server_codec (JsonQueues (server_queues (w_fs sv') bs)), ReadErr = None\<rparr> [] = some_queues qs"
    "mset qs = mset (server_queues (w_fs sv') bs)"
    using queues_through_json client(3) by blast
  let ?wb = "wb\<lparr>net := net wa'\<rparr>" and ?qs = "server_queues (w_fs sv') bs"
  have "connected go_server_codec ord (hostport srv) now sv' ?wb"
    using conn network(2,3) by (simp add: connected_def)
  moreover have "fs_wf (w_fs ?wb)" "queues_ok (w_fs ?wb) cs ?qs"
    using client fresh_queues_ok[of "w_fs wb" cs ?qs] server_queues_names[OF sv'(2)]
    by (simp_all add: fresh_dir_def)
  ultimately obtain wb' where down: "downloadQueues (go_codec qord) srv (fleet cs) ?wb = (Inr (), wb')"
    "\<forall>g. fleet_queues (w_fs wb') cs g = (case map_of ?qs g of
        None \<Rightarrow> fleet_queues (w_fs ?wb) cs g
      | Some q \<Rightarrow> Some (absorb (fleet_queues (w_fs ?wb) cs g) q))"
    using download_connected[OF _ sv'(1,2) qs client(1)] by blast
  have "fleet_queues (w_fs wb) cs fid = None"
    using fresh_dir_below[OF client(2), of "[fid, ''queue'']"] by (simp add: fleet_queues_def queue_path_def)
  moreover have "map_of ?qs fid = Some (corpus_of (w_fs sv') (queue_path bs fid))"
    using sv'(3) by (simp add: server_queues_def map_of_graph)
  ultimately have "fleet_queues (w_fs wb') cs fid = Some (absorb None (corpus_of (w_fs sv') (queue_path bs fid)))"
    using down(2) by simp
  then have got: "dir_files (w_fs wb') (queue_path cs fid) = stored Map.empty (Inputs (corpus_of (w_fs sv') (queue_path bs fid)))"
    by (simp add: fleet_queues_def absorb_def split: if_splits)
  have "dir_files (w_fs wb') (queue_path cs fid) n = Some b"
    if "dir_files (w_fs wa) (out_path as fid @ [''queue'']) n = Some b" "n \<noteq> readmeFilename"
      "dir_files (w_fs sv) (queue_path bs fid) n = None" for n b
    unfolding got using that by (intro corpus_stored) (simp_all add: sv'(4) corpus_stored)
  then show ?thesis using up down(1) by blast
qed

text \<open>
  C1: What a fuzzer has found reaches the other clients however much happens in between. A client uploads the state of
  its fuzzer to a server without an archive, or with one on disk next to the fleet's directories; then the server goes
  through any ticks, snapshots and requests, admin pages among them but for those of a single input (which end it when the
  input is gone), with any other reports that name their fuzzers and inputs like files, each handled before the next one
  begins; then another client, which may have files of its own, downloads
  the queues. The server's pages can be rendered, and its archive has a positive interval. Then the server is still up, both
  calls succeed, and the second client has a file for every file of the first one's queue (README.txt apart); provided that no other report came
  from that fuzzer in between, and neither the server nor the second
  client had that name, it is byte for byte the file the fuzzer found.
\<close>

theorem cluster_run:
  fixes wa :: "('t3, ('s3, 'z) server_scheme option, 'y) fuzz_world_scheme"
    and wb :: "('u3, ('s3, 'z) server_scheme option, 'x) client_world_scheme"
  assumes fuzzer: "FileManager f = mgr as fid" "FuzzerId f = fid" "valid_names as" "valid_name fid"
      "out_ready (w_fs wa) (out_path as fid)" "ReadFuzzerStats (mgr as fid) (w_fs wa) = (Inr st, w_fs wa)"
      "proc wa \<in> {Running, Paused}"
    and server: "connected go_server_codec ord (hostport srv) now sv wa" "range_order ord"
      "server_tidy bs ar sv" "fleet_utf8 (w_fs sv) bs"
    and json: "marshal_state (disk_report (w_fs wa) as fid st) = Inr json" "state_utf8 (disk_report (w_fs wa) as fid st)"
    and upload: "uploadState marshal_state srv elapsed f wa = (r, wa')" "net wa' = Some sv1"
    and between: "server_run sv1 es out" "\<forall>e\<in>set es. harmless e"
    and client: "net_do wb = serve go_server_codec ord' (hostport srv') now'" "net_new_request wb = (\<lambda>_ _. None)"
      "valid_names cs" "queue_order qord" "queues_fit (w_fs wb) cs (fold server_spec es (fleet_queues (w_fs sv1) bs))"
  shows "r = Inr () \<and> proc wa' = Running \<and> (\<exists>sv2 wb'. out = Some sv2 \<and>
    downloadQueues (go_codec qord) srv' (fleet cs) (wb\<lparr>net := Some sv2\<rparr>) = (Inr (), wb') \<and>
    (\<forall>n b. dir_files (w_fs wa) (out_path as fid @ [''queue'']) n = Some b \<and> n \<noteq> readmeFilename \<longrightarrow>
       dir_files (w_fs wb') (queue_path cs fid) n \<noteq> None \<and>
       (\<not> list_ex (reports_as fid) es \<and> dir_files (w_fs sv) (queue_path bs fid) n = None \<and>
          dir_files (w_fs wb) (queue_path cs fid) n = None \<longrightarrow>
        dir_files (w_fs wb') (queue_path cs fid) n = Some b)))"
proof -
  let ?rep = "disk_report (w_fs wa) as fid st" and ?m0 = "fleet_queues (w_fs sv) bs"
  have wf: "fs_wf (w_fs sv)" using server(3) by (simp add: server_tidy_def fleet_tidy_def outputs_ready_def dir_ready_def)
  have rep: "complete_queue ?rep = Some (disk_queue (w_fs wa) as fid)" "Id ?rep = fid"
    by (simp_all add: disk_report_def report_def full_output_def complete_queue_def)
  have up: "r = Inr ()" "proc wa' = Running" "server_tidy bs ar sv1" "fleet_queues (w_fs sv1) bs = take_report ?rep ?m0"
    using upload_tidy[OF fuzzer server(1,2,3) json, of elapsed] upload by auto
  obtain sv2 where sv2: "out = Some sv2" "server_tidy bs ar sv2"
    "fleet_queues (w_fs sv2) bs = fold server_spec es (take_report ?rep ?m0)"
    using server_run_tidy[OF between up(3)] up(4) by auto
  have "map_utf8 (fleet_queues (w_fs sv2) bs)"
    unfolding sv2(3) using server(3,4) json(2) by (intro map_utf8_run map_utf8_report) (simp_all add: fleet_utf8_map)
  moreover have "connected go_server_codec ord' (hostport srv') now' sv2 (wb\<lparr>net := Some sv2\<rparr>)"
    using client(1,2) by (simp add: connected_def)
  moreover have "queues_fit (w_fs (wb\<lparr>net := Some sv2\<rparr>)) cs (fleet_queues (w_fs sv2) bs)"
    using client(5) by (simp add: up(4) sv2(3))
  ultimately obtain wb' where down: "downloadQueues (go_codec qord) srv' (fleet cs) (wb\<lparr>net := Some sv2\<rparr>) = (Inr (), wb')"
    "\<And>g f n b. fleet_queues (w_fs sv2) bs g = Some f \<Longrightarrow> f n = Some b \<Longrightarrow> n \<noteq> readmeFilename \<Longrightarrow>
       dir_files (w_fs wb') (queue_path cs g) n = Some (overlay b (old_body (dir_files (w_fs wb) (queue_path cs g) n)))"
    using download_tidy[OF _ sv2(2) _ client(3,4), of ord' srv' now' "wb\<lparr>net := Some sv2\<rparr>"] by auto
  have m1: "take_report ?rep ?m0 fid = Some (stored (dir_files (w_fs sv) (queue_path bs fid)) (disk_queue (w_fs wa) as fid))"
    using dir_files_no_dir[OF wf] by (simp add: take_report_def rep(1,2) absorb_def fleet_queues_def)
  have "dir_files (w_fs wb') (queue_path cs fid) n \<noteq> None \<and>
      (\<not> list_ex (reports_as fid) es \<and> dir_files (w_fs sv) (queue_path bs fid) n = None \<and>
         dir_files (w_fs wb) (queue_path cs fid) n = None \<longrightarrow>
       dir_files (w_fs wb') (queue_path cs fid) n = Some b)"
    if n: "dir_files (w_fs wa) (out_path as fid @ [''queue'']) n = Some b" "n \<noteq> readmeFilename" for n b
  proof -
    have "\<lparr>Name = n, Body = b\<rparr> \<in> set (disk_queue (w_fs wa) as fid)" using n by (simp add: corpus_of_set)
    note i = stored_distinct[OF corpus_of_names_sd(2) this, of "dir_files (w_fs sv) (queue_path bs fid)", simplified]
    then have "has_input fid n (fleet_queues (w_fs sv2) bs)"
      unfolding sv2(3) by (intro has_input_run) (simp add: has_input_def m1)
    then obtain g c where g: "fleet_queues (w_fs sv2) bs fid = Some g" "g n = Some c" by (auto simp: has_input_def)
    have "c = overlay b (old_body (dir_files (w_fs sv) (queue_path bs fid) n))" if "\<not> list_ex (reports_as fid) es"
      using g i spec_others[OF that] by (simp add: sv2(3) m1)
    then show ?thesis using down(2)[OF g n(2)] by (simp add: overlay_def old_body_def)
  qed
  then show ?thesis using up(1,2) sv2(1) down(1) by blast
qed

text \<open>
  C2: A client and the server keep each other going. Take a running client connected to a server without an archive, or with
  one on disk next to the fleet's directories, whose pages can be rendered, and any order of uploads and downloads of the
  client, of changes AFL or others make to its files, and of requests, ticks and snapshots at the server, with other reports that name
  their fuzzers and inputs like files. The server handles one request at a time and none for the admin page of a single
  input. None of these events ends it, and all it goes through is one run of the server,
  with the events above in their order and the client's requests among them, so no reported input is lost. AFL is
  running after every tick, and the client ends only when an upload meets a line without a colon in AFL's statistics
  file: no answer of this server ends it.
\<close>

theorem cluster_survives:
  fixes w :: "('t3, ('s3, 'z) server_scheme option, 'y) fuzz_world_scheme"
  assumes "system_run qord srv cs f w es out" and "\<forall>e\<in>set es. quiet_event as fid e"
    and fuzzer: "FileManager f = mgr as fid" "FuzzerId f = fid" "valid_names as" "valid_name fid" "proc w = Running"
      "client_disk as fid (w_fs w)"
    and server: "connected go_server_codec ord (hostport srv) now sv w" "range_order ord" "server_tidy bs ar sv"
      "fleet_utf8 (w_fs sv) bs" "queue_order qord"
  shows "case out of
      Some w' \<Rightarrow> proc w' = Running \<and> (\<exists>ses sv'. connected go_server_codec ord (hostport srv) now sv' w' \<and>
        server_tidy bs ar sv' \<and> server_run sv ses (Some sv') \<and> (\<forall>e\<in>set ses. harmless e) \<and> subseq (server_events es) ses)
    | None \<Rightarrow> \<exists>es' t w'. es = es' @ [Upload t] \<and> system_run qord srv cs f w es' (Some w') \<and> stats_torn f (w_fs w')"
proof -
  have "both_up bs ar ord now srv as fid sv [] w"
    using fuzzer(5,6) server server_run.start[of sv] fleet_utf8_map[OF server(3)]
    by (auto simp: both_up_def server_events_def intro!: exI[of _ "[]"] exI[of _ sv])
  from system_run_up[OF assms(1) fuzzer(1-4) server(2,5) this assms(2)]
  show ?thesis by (auto simp: both_up_def split: option.splits)
qed

text \<open>A client whose fuzzer \<open>h-1\<close> has found one input, and a server that has seen nothing yet.\<close>

definition found_fs :: "bytes \<Rightarrow> fs" where
  "found_fs stats = \<lparr>fs_cwd = [],
     fs_tree = [([''d''], Dir), ([''d'', ''output''], Dir), ([''d'', ''output'', ''h-1''], Dir),
       ([''d'', ''output'', ''h-1'', ''queue''], Dir), ([''d'', ''output'', ''h-1'', ''crashes''], Dir),
       ([''d'', ''output'', ''h-1'', ''hangs''], Dir),
       ([''d'', ''output'', ''h-1'', ''queue'', ''id:0''], File [1, 2]),
       ([''d'', ''output'', ''h-1'', ''fuzzer_stats''], File stats)],
     fs_denied = []\<rparr>"

lemma found_stats:
  "ReadFuzzerStats (mgr [''d''] ''h-1'') (found_fs (bytes_of_string (render_stats sample_vals))) =
    (Inr (stats_of (\<lambda>k. Some (sample_vals k))), found_fs (bytes_of_string (render_stats sample_vals)))"
proof -
  have "fs_reach (found_fs b) [''d'', ''output'', ''h-1'', ''fuzzer_stats'']" for b
    by (simp add: fs_reach_def found_fs_def valid_name_def)
  moreover have "FuzzerStatsPath (mgr [''d''] ''h-1'') = abs_of [''d'', ''output'', ''h-1'', ''fuzzer_stats'']"
    by (simp add: corpus_dirs_mgr fuzzer_ok_def valid_name_def out_path_def)
  ultimately have "fs_read_file (found_fs b) (FuzzerStatsPath (mgr [''d''] ''h-1'')) = Inr b" for b
    using fs_read_file_reach[of "found_fs b" _ b] by (simp add: found_fs_def fs_lookup_def)
  moreover have "vals_ok sample_vals" by code_simp
  ultimately show ?thesis
    using parse_rendered[of sample_vals] by (simp add: ReadFuzzerStats_def)
qed

lemma marshals:
  assumes "json_float (ExecsPerSec (State.Stats s)) \<noteq> None" and "json_float (BitmapCvg (State.Stats s)) \<noteq> None"
    and "state_utf8 s"
  shows "\<exists>json. marshal_state s = Inr json \<and> state_utf8 s"
  using assms by (auto simp: marshal_state_def encode_state_def encode_stats_def)

lemma found_report:
  "\<exists>json. marshal_state (disk_report (found_fs b) [''d''] ''h-1'' (stats_of (\<lambda>k. Some (sample_vals k)))) = Inr json \<and>
    state_utf8 (disk_report (found_fs b) [''d''] ''h-1'' (stats_of (\<lambda>k. Some (sample_vals k))))"
proof -
  let ?st = "stats_of (\<lambda>k. Some (sample_vals k))"
  have floats: "json_float (ExecsPerSec ?st) \<noteq> None" "json_float (BitmapCvg ?st) \<noteq> None" by code_simp+
  have texts: "stats_utf8 ?st" "utf8_ok ''h-1''" "utf8_ok ''id:0''" by code_simp+
  then have "corpus_utf8 (Some (corpus_of (found_fs b) (out_path [''d''] ''h-1'' @ [k])))"
    if "k \<in> {''queue'', ''crashes'', ''hangs''}" for k
    using that
    by (auto simp: queue_utf8_iff dir_files_def found_fs_def fs_lookup_def out_path_def split: if_splits)
  then show ?thesis
    unfolding disk_report_def report_def full_output_def
    by (intro marshals) (simp_all only: state_utf8_def State.select_convs AflOutput.select_convs InputCorpus_eta floats texts
        not_False_eq_True simp_thms insert_iff)
qed

definition sync_client :: "fs \<Rightarrow> (unit, unit server option) fuzz_world" where
  "sync_client fs =
     \<lparr>w_fs = fs, w_events = [], w_report = (\<lambda>_ _ _ _. None), w_s3 = (),
      w_put_object = (\<lambda>_ _ _ s3. (None, s3)), w_list_pages = (\<lambda>_ _ _. ([], None)),
      net = Some (sample_server NullArchiver), net_do = serve go_server_codec (\<lambda>m. m) ''http://s'' 7,
      net_new_request = (\<lambda>_ _. None), c_log = [], proc = Running, started = True\<rparr>"

lemma cluster_sync_witness:
  "\<exists>wa' wb'. uploadState marshal_state (NewRovingServerClient ''http://s'') 5
      \<lparr>FuzzerId = ''h-1'', FileManager = mgr [''d''] ''h-1'', FuzzCmd = \<lparr>CmdName = ''afl-fuzz'', CmdArgs = []\<rparr>\<rparr>
      (sync_client (found_fs (bytes_of_string (render_stats sample_vals)))) = (Inr (), wa') \<and>
    downloadQueues (go_codec rev) (NewRovingServerClient ''http://s'') (fleet [''d'']) ((sync_client sample_fs)\<lparr>net := net wa'\<rparr>) = (Inr (), wb') \<and>
    dir_files (w_fs wb') (queue_path [''d''] ''h-1'') ''id:0'' = Some [1, 2]"
proof -
  let ?a = "found_fs (bytes_of_string (render_stats sample_vals))"
  let ?st = "stats_of (\<lambda>k. Some (sample_vals k))"
  let ?srv = "NewRovingServerClient ''http://s''"
  let ?f = "\<lparr>FuzzerId = ''h-1'', FileManager = mgr [''d''] ''h-1'', FuzzCmd = \<lparr>CmdName = ''afl-fuzz'', CmdArgs = []\<rparr>\<rparr>"
  let ?wa = "sync_client ?a" and ?wb = "sync_client sample_fs" and ?sv = "sample_server NullArchiver"
  have fs: "w_fs ?wa = ?a" "w_fs ?wb = sample_fs" "w_fs ?sv = sample_fs"
    by (simp_all add: sync_client_def sample_server_def)
  have h: "valid_names [''d'']" "valid_name ''h-1''" "server_ready sample_fs [''d'']"
    "fresh_dir sample_fs ([''d''] @ [''output''])" "fleet_utf8 sample_fs [''d'']" by code_simp+
  have a: "out_ready (found_fs b) (out_path [''d''] ''h-1'')" for b by code_simp
  have p: "post_fits sample_fs [''d''] (found_fs b) [''d''] ''h-1''" for b by code_simp
  obtain json where json: "marshal_state (disk_report ?a [''d''] ''h-1'' ?st) = Inr json"
    "state_utf8 (disk_report ?a [''d''] ''h-1'' ?st)" using found_report by blast
  have d: "dir_files ?a (out_path [''d''] ''h-1'' @ [''queue'']) ''id:0'' = Some [1, 2]"
    "dir_files sample_fs (queue_path [''d''] ''h-1'') ''id:0'' = None"
    by (simp_all add: dir_files_def found_fs_def sample_fs_def fs_lookup_def out_path_def queue_path_def)
  have "\<exists>wa' wb'. uploadState marshal_state ?srv 5 ?f ?wa = (Inr (), wa') \<and> proc wa' = Running \<and>
    downloadQueues (go_codec rev) ?srv (fleet [''d'']) (?wb\<lparr>net := net wa'\<rparr>) = (Inr (), wb') \<and>
    (\<forall>n b. dir_files (w_fs ?wa) (out_path [''d''] ''h-1'' @ [''queue'']) n = Some b \<and> n \<noteq> readmeFilename \<and>
       dir_files (w_fs ?sv) (queue_path [''d''] ''h-1'') n = None \<longrightarrow>
       dir_files (w_fs wb') (queue_path [''d''] ''h-1'') n = Some b)"
    by (rule cluster_sync[where st = ?st and ord = "\<lambda>m. m" and now = 7 and json = json])
      (use h a p found_stats json in \<open>simp_all add: fs range_order_def queue_order_def sample_server_def sync_client_def
        connected_def NewRovingServerClient_def\<close>)
  then obtain wa' wb' where r: "uploadState marshal_state ?srv 5 ?f ?wa = (Inr (), wa')"
    "downloadQueues (go_codec rev) ?srv (fleet [''d'']) (?wb\<lparr>net := net wa'\<rparr>) = (Inr (), wb')"
    "dir_files (w_fs wb') (queue_path [''d''] ''h-1'') ''id:0'' = Some [1, 2]"
    unfolding fs using d by (auto simp: readmeFilename_def)
  then show ?thesis by blast
qed

text \<open>The server has answered another request in between.\<close>

lemma cluster_run_witness:
  "\<exists>wa' sv1 sv2 wb'. uploadState marshal_state (NewRovingServerClient ''http://s'') 5
      \<lparr>FuzzerId = ''h-1'', FileManager = mgr [''d''] ''h-1'', FuzzCmd = \<lparr>CmdName = ''afl-fuzz'', CmdArgs = []\<rparr>\<rparr>
      ((sync_client (found_fs (bytes_of_string (render_stats sample_vals))))\<lparr>net := Some tidy_server\<rparr>) = (Inr (), wa') \<and>
    net wa' = Some sv1 \<and> server_run sv1 [Request (\<lambda>m. m) 8 ''GET'' ''/config'' []] (Some sv2) \<and>
    downloadQueues (go_codec rev) (NewRovingServerClient ''http://s'') (fleet [''d'']) ((sync_client sample_fs)\<lparr>net := Some sv2\<rparr>) = (Inr (), wb') \<and>
    dir_files (w_fs wb') (queue_path [''d''] ''h-1'') ''id:0'' = Some [1, 2]"
proof -
  let ?a = "found_fs (bytes_of_string (render_stats sample_vals))"
  let ?st = "stats_of (\<lambda>k. Some (sample_vals k))"
  let ?srv = "NewRovingServerClient ''http://s''" and ?e = "Request (\<lambda>m. m) 8 ''GET'' ''/config'' []"
  let ?f = "\<lparr>FuzzerId = ''h-1'', FileManager = mgr [''d''] ''h-1'', FuzzCmd = \<lparr>CmdName = ''afl-fuzz'', CmdArgs = []\<rparr>\<rparr>"
  let ?wa = "(sync_client ?a)\<lparr>net := Some tidy_server\<rparr>" and ?wb = "sync_client sample_fs"
  have fs: "w_fs ?wa = ?a" "w_fs ?wb = sample_fs" by (simp_all add: sync_client_def)
  have d: "valid_names [''d'']" "valid_name ''h-1''" by code_simp+
  have a: "out_ready (found_fs b) (out_path [''d''] ''h-1'')" for b by code_simp
  obtain json where json: "marshal_state (disk_report (w_fs ?wa) [''d''] ''h-1'' ?st) = Inr json"
    "state_utf8 (disk_report (w_fs ?wa) [''d''] ''h-1'' ?st)" using found_report unfolding fs by blast
  have f: "FileManager ?f = mgr [''d''] ''h-1''" "FuzzerId ?f = ''h-1''" "out_ready (w_fs ?wa) (out_path [''d''] ''h-1'')"
    "ReadFuzzerStats (mgr [''d''] ''h-1'') (w_fs ?wa) = (Inr ?st, w_fs ?wa)" "proc ?wa \<in> {Running, Paused}"
    using found_stats a unfolding fs by (simp_all add: sync_client_def)
  have n: "fleet_queues (w_fs tidy_server) [''d''] fid = None" for fid
    by (simp add: fleet_queues_def queue_path_def fs_lookup_def tidy_server_def)
  have s: "connected go_server_codec (\<lambda>m. m) (hostport ?srv) 7 tidy_server ?wa" "range_order (\<lambda>m. m)"
    "fleet_utf8 (w_fs tidy_server) [''d'']"
    using n by (simp_all add: connected_def sync_client_def NewRovingServerClient_def range_order_def
        fleet_utf8_map[OF tidy_server_tidy] map_utf8_def)
  obtain wa' sv1 where u: "uploadState marshal_state ?srv 5 ?f ?wa = (Inr (), wa')" "net wa' = Some sv1" "server_tidy [''d''] (Some [''a'']) sv1"
    using upload_tidy[OF f(1,2) d f(3-5) s(1,2) tidy_server_tidy json, of 5] by blast
  have e: "server_run sv1 ([] @ [?e]) (Some sv1)"
    by (rule server_run.step[OF server_run.start server_step.answered]) (simp add: dispatch_client getConfig_def)
  have h: "\<forall>e\<in>set ([] @ [?e]). harmless e" "\<not> list_ex (reports_as ''h-1'') ([] @ [?e])"
    "fold server_spec ([] @ [?e]) m = m" for m
    by (simp_all add: harmless_def asks_input_def range_order_def reports_as_def event_report_def server_spec_def)
  have "fresh_dir sample_fs ([''d''] @ [''output''])" by code_simp
  then have c: "net_do ?wb = serve go_server_codec (\<lambda>m. m) (hostport ?srv) 7" "net_new_request ?wb = (\<lambda>_ _. None)" "queue_order rev"
    "queues_fit (w_fs ?wb) [''d''] (fold server_spec ([] @ [?e]) (fleet_queues (w_fs sv1) [''d'']))"
    using fresh_queues_fit[OF _ u(3)] unfolding fs h(3) by (simp_all add: sync_client_def NewRovingServerClient_def queue_order_def)
  have i: "dir_files (w_fs ?wa) (out_path [''d''] ''h-1'' @ [''queue'']) ''id:0'' = Some [1, 2]"
    "dir_files (w_fs tidy_server) (queue_path [''d''] ''h-1'') ''id:0'' = None"
    "dir_files (w_fs ?wb) (queue_path [''d''] ''h-1'') ''id:0'' = None"
    unfolding fs by (simp_all add: dir_files_def found_fs_def sample_fs_def tidy_server_def fs_lookup_def out_path_def queue_path_def)
  obtain sv2 wb' where r: "Some sv1 = Some sv2" "downloadQueues (go_codec rev) ?srv (fleet [''d'']) (?wb\<lparr>net := Some sv2\<rparr>) = (Inr (), wb')"
    "dir_files (w_fs wb') (queue_path [''d''] ''h-1'') ''id:0'' = Some [1, 2]"
    using cluster_run[OF f(1,2) d f(3-5) s(1,2) tidy_server_tidy s(3) json u(1,2) e h(1) c(1,2) d(1) c(3,4)] h(2) i
    by (auto simp: readmeFilename_def)
  then show ?thesis using u(1,2) e by (intro exI conjI) (assumption | simp)+
qed

text \<open>The server answers somebody else, and the client, whose fuzzer has no output yet, uploads and downloads.\<close>

lemma cluster_survives_witness:
  "\<exists>w'. system_run rev (NewRovingServerClient ''http://s'') [''d'']
      \<lparr>FuzzerId = ''h-1'', FileManager = mgr [''d''] ''h-1'', FuzzCmd = \<lparr>CmdName = ''afl-fuzz'', CmdArgs = []\<rparr>\<rparr>
      ((sync_client sample_fs)\<lparr>net := Some tidy_server\<rparr>)
      [AtServer (Request (\<lambda>m. m) 8 ''GET'' ''/config'' []), Upload 5, Download] (Some w') \<and>
    proc w' = Running \<and> (\<exists>sv'. net w' = Some sv' \<and> server_tidy [''d''] (Some [''a'']) sv')"
proof -
  let ?srv = "NewRovingServerClient ''http://s''" and ?e = "Request (\<lambda>m. m) 8 ''GET'' ''/config'' []"
  let ?f = "\<lparr>FuzzerId = ''h-1'', FileManager = mgr [''d''] ''h-1'', FuzzCmd = \<lparr>CmdName = ''afl-fuzz'', CmdArgs = []\<rparr>\<rparr>"
  let ?w = "(sync_client sample_fs)\<lparr>net := Some tidy_server\<rparr>"
  let ?run = "system_run rev ?srv [''d''] ?f ?w"
  have d: "valid_names [''d'']" "valid_name ''h-1''" "fuzzer_ok ''h-1''" "client_disk [''d''] ''h-1'' sample_fs" by code_simp+
  have f: "FileManager ?f = mgr [''d''] ''h-1''" "FuzzerId ?f = ''h-1''" "proc ?w = Running" "client_disk [''d''] ''h-1'' (w_fs ?w)"
    using d(4) by (simp_all add: sync_client_def)
  have "fleet_queues (w_fs tidy_server) [''d''] fid = None" for fid
    by (simp add: fleet_queues_def queue_path_def fs_lookup_def tidy_server_def)
  then have s: "connected go_server_codec (\<lambda>m. m) (hostport ?srv) 7 tidy_server ?w" "range_order (\<lambda>m. m)"
    "fleet_utf8 (w_fs tidy_server) [''d'']" "queue_order rev"
    by (simp_all add: connected_def sync_client_def NewRovingServerClient_def range_order_def queue_order_def
        fleet_utf8_map[OF tidy_server_tidy] map_utf8_def)
  note survives = cluster_survives[OF _ _ f(1,2) d(1,2) f(3,4) s(1,2) tidy_server_tidy s(3,4)]
  have q: "quiet_event [''d''] ''h-1'' e" if "e \<in> {AtServer ?e, Upload 5, Download}" for e
    using that by (auto simp: quiet_event_def harmless_def asks_input_def range_order_def)
  have "server_step tidy_server ?e (Some tidy_server)" by (rule server_step.answered) (simp add: dispatch_client getConfig_def)
  then have r1: "?run ([] @ [AtServer ?e]) (Some (?w\<lparr>net := Some tidy_server\<rparr>))"
    by (intro system_run.step[OF system_run.start] system_step.serves) simp_all
  obtain o2 where o2: "client_step (go_codec rev) ?srv (fleet [''d'']) ?f (?w\<lparr>net := Some tidy_server\<rparr>) (UploadTick 5) o2"
    using client_step_total by blast
  have r2: "?run (([] @ [AtServer ?e]) @ [Upload 5]) o2" by (rule system_run.step[OF r1 system_step.uploads[OF o2]])
  have "fs_reach sample_fs (out_path [''d''] ''h-1'' @ [''fuzzer_stats''])" by code_simp
  then have "fs_read_file sample_fs (FuzzerStatsPath (mgr [''d''] ''h-1'')) \<noteq> Inr buf" for buf
    unfolding corpus_dirs_mgr(4)[OF d(1,3)] fs_read_file_def
    by (simp add: fs_stat_reach out_path_fid[OF d(2)], simp add: sample_fs_def fs_lookup_def)
  then have torn: "\<not> stats_torn ?f (w_fs (?w\<lparr>net := Some tidy_server\<rparr>))"
    by (simp add: stats_torn_def sync_client_def split: sum.split)
  have p: "proc (?w\<lparr>net := Some tidy_server\<rparr>) = Running" by (simp add: sync_client_def)
  obtain w2 where w2: "o2 = Some w2"
    using o2 upload_keeps[OF p] torn by (elim client_uploadE) (fastforce split: if_splits)+
  obtain o3 where "client_step (go_codec rev) ?srv (fleet [''d'']) ?f w2 DownloadTick o3" using client_step_total by blast
  then have r3: "?run ((([] @ [AtServer ?e]) @ [Upload 5]) @ [Download]) o3"
    by (rule system_run.step[OF r2[unfolded w2] system_step.downloads])
  from survives[OF r3] q have "\<exists>w'. o3 = Some w' \<and> proc w' = Running \<and> (\<exists>sv'. net w' = Some sv' \<and> server_tidy [''d''] (Some [''a'']) sv')"
    by (auto simp: connected_def split: option.splits)
  then show ?thesis using r3 by auto
qed

end
